(* ===== verification/Byos_Prelude.thy ===== *)
theory Byos_Prelude
  imports Main "HOL-Library.Signed_Division"
begin

text \<open>
  What every component of the development shares: the JavaScript values the service computes
  with (bigint arithmetic, ASCII lower-casing, \<open>Map\<close> with its insertion order), the relational
  operations of its Postgres tables, reachability for its state machines, and the hint
  collections that carry the component proofs.

  \<^item> bigint is \<open>int\<close>; JavaScript's \<open>/\<close> on bigint truncates towards zero, which is \<open>sdiv\<close> of
    \<open>HOL-Library.Signed_Division\<close>.
  \<^item> a \<open>Map\<close> is an association list in insertion order (\<open>jm_set\<close> keeps the place of a key that
    is already there, as \<open>Map.prototype.set\<close> does).
  \<^item> a table is the list of its rows; \<open>UPDATE\<close>, \<open>DELETE\<close> and a one-row \<open>SELECT\<close> are
    \<open>sql_update\<close>, \<open>sql_delete\<close> and \<open>find\<close>.
\<close>

named_theorems bigint \<open>truncating division and its bounds\<close>
named_theorems jsmap \<open>JavaScript maps\<close>
named_theorems sql \<open>table operations\<close>

section \<open>Bigint arithmetic\<close>

lemma sdiv_nonneg [bigint]: "0 \<le> a \<Longrightarrow> 0 < b \<Longrightarrow> a sdiv b = a div (b::int)"
  by (cases "a = 0") (simp_all add: signed_divide_int_def)

lemma sdiv_nonneg' [bigint]: "0 \<le> a \<Longrightarrow> 0 \<le> b \<Longrightarrow> a sdiv b = a div (b::int)"
  by (cases "b = 0") (simp_all add: signed_divide_int_def sgn_if)

lemma div_mult_le_int: "0 < b \<Longrightarrow> (a div b) * b \<le> (a::int)"
  by (metis minus_mod_eq_div_mult add.commute diff_add_cancel le_add_same_cancel2 pos_mod_sign)

lemma div_mult_gt_int: "0 < b \<Longrightarrow> a < (a div b + 1) * (b::int)"
  by (metis distrib_right div_mult_mod_eq add_strict_left_mono mult_1 pos_mod_bound)

lemma le_div_iff_int: "0 < b \<Longrightarrow> c \<le> a div b \<longleftrightarrow> c * b \<le> (a::int)"
proof
  assume b: "0 < b" and "c \<le> a div b"
  then have "c * b \<le> (a div b) * b" by simp
  then show "c * b \<le> a" using div_mult_le_int [OF b, of a] by linarith
next
  assume b: "0 < b" and le: "c * b \<le> a"
  show "c \<le> a div b"
  proof (rule ccontr)
    assume "\<not> c \<le> a div b"
    then have "(a div b + 1) * b \<le> c * b" using b by simp
    then show False using div_mult_gt_int [OF b, of a] le by linarith
  qed
qed

text \<open>\<open>ceilDiv\<close> of scoring.ts, gas-cut.ts and polling.ts: \<open>(a + b - 1n) / b\<close>.\<close>

definition ceilDiv :: "int \<Rightarrow> int \<Rightarrow> int" where
  "ceilDiv a b = (a + b - 1) sdiv b"

lemma ceilDiv_ge [bigint]: "0 \<le> a \<Longrightarrow> 0 < b \<Longrightarrow> a \<le> ceilDiv a b * b"
  using div_mult_gt_int [of b "a + b - 1"]
  by (simp add: ceilDiv_def sdiv_nonneg distrib_right)

lemma ceilDiv_lt [bigint]: "0 \<le> a \<Longrightarrow> 0 < b \<Longrightarrow> (ceilDiv a b - 1) * b < a"
  using div_mult_le_int [of b "a + b - 1"]
  by (simp add: ceilDiv_def sdiv_nonneg left_diff_distrib)

lemma ceilDiv_nonneg [bigint]: "0 \<le> a \<Longrightarrow> 0 < b \<Longrightarrow> 0 \<le> ceilDiv a b"
  by (simp add: ceilDiv_def sdiv_nonneg pos_imp_zdiv_nonneg_iff)

section \<open>JavaScript numbers\<close>

text \<open>
  \<open>Number(bigint)\<close>: exact up to 53 bits, rounded half to even beyond. \<open>Number.isSafeInteger\<close> on an
  integer value.
\<close>

function bit_length :: "int \<Rightarrow> nat" where
  "bit_length n = (if n \<le> 0 then 0 else Suc (bit_length (n div 2)))"
  by pat_completeness auto
termination by (relation "measure nat") auto

declare bit_length.simps [simp del]

definition Number :: "int \<Rightarrow> int" where
  "Number n =
     (let a = \<bar>n\<bar>; s = bit_length a - 53; q = a div 2 ^ s; r = a mod 2 ^ s;
          up = (2 ^ s < 2 * r \<or> 2 * r = 2 ^ s \<and> odd q)
      in sgn n * ((if up then q + 1 else q) * 2 ^ s))"

definition isSafeInteger :: "int \<Rightarrow> bool" where
  "isSafeInteger n \<longleftrightarrow> \<bar>n\<bar> \<le> 2 ^ 53 - 1"

lemma bit_length_le: "n < 2 ^ k \<Longrightarrow> bit_length n \<le> k"
proof (induction k arbitrary: n)
  case (Suc k)
  then have "n div 2 < 2 ^ k" by (simp add: div_less_iff_less_mult mult.commute)
  then show ?case by (subst bit_length.simps) (auto simp: Suc.IH)
qed (simp add: bit_length.simps)

lemma Number_exact [simp]: "\<bar>n\<bar> < 2 ^ 53 \<Longrightarrow> Number n = n"
proof -
  assume "\<bar>n\<bar> < 2 ^ 53"
  then have "bit_length \<bar>n\<bar> - 53 = 0" using bit_length_le [of "\<bar>n\<bar>" 53] by simp
  then show ?thesis unfolding Number_def Let_def by (simp add: sgn_mult_abs)
qed

lemma Number_safe [simp]: "isSafeInteger n \<Longrightarrow> Number n = n"
  by (rule Number_exact) (auto simp: isSafeInteger_def)

section \<open>Strings\<close>

text \<open>
  \<open>toLowerCase\<close> on the ASCII strings the service lower-cases: addresses, order UIDs, hashes.
\<close>

definition lower_char :: "char \<Rightarrow> char" where
  "lower_char c = (if 65 \<le> (of_char c :: nat) \<and> (of_char c :: nat) \<le> 90
                   then char_of (of_char c + 32 :: nat) else c)"

definition lower :: "string \<Rightarrow> string" where
  "lower s = map lower_char s"

lemma lower_char_idem [simp]: "lower_char (lower_char c) = lower_char c"
  by (auto simp: lower_char_def)

lemma lower_idem [simp]: "lower (lower s) = lower s"
  by (simp add: lower_def)

lemma lower_Nil [simp]: "lower [] = []"
  by (simp add: lower_def)

lemma lower_append: "lower (s @ t) = lower s @ lower t"
  by (simp add: lower_def)

text \<open>A string or null is falsy in a condition when it is null or empty.\<close>

definition falsy :: "string option \<Rightarrow> bool" where
  "falsy v \<longleftrightarrow> v = None \<or> v = Some []"

lemma falsy_simps [simp]: "falsy None" "falsy (Some s) \<longleftrightarrow> s = []"
  by (simp_all add: falsy_def)

section \<open>JavaScript maps\<close>

type_synonym ('k, 'v) jsmap = "('k \<times> 'v) list"

abbreviation jm_get :: "('k, 'v) jsmap \<Rightarrow> 'k \<Rightarrow> 'v option" where
  "jm_get m k \<equiv> map_of m k"

fun jm_set :: "'k \<Rightarrow> 'v \<Rightarrow> ('k, 'v) jsmap \<Rightarrow> ('k, 'v) jsmap" where
  "jm_set k v [] = [(k, v)]"
| "jm_set k v ((k', v') # m) = (if k' = k then (k, v) # m else (k', v') # jm_set k v m)"

definition jm_delete :: "'k \<Rightarrow> ('k, 'v) jsmap \<Rightarrow> ('k, 'v) jsmap" where
  "jm_delete k m = filter (\<lambda>(k', v). k' \<noteq> k) m"

definition jm_delete_all :: "'k list \<Rightarrow> ('k, 'v) jsmap \<Rightarrow> ('k, 'v) jsmap" where
  "jm_delete_all ks m = fold jm_delete ks m"

definition jm_of :: "('k \<times> 'v) list \<Rightarrow> ('k, 'v) jsmap" where
  "jm_of kvs = fold (\<lambda>(k, v). jm_set k v) kvs []"

definition jm_ok :: "('k, 'v) jsmap \<Rightarrow> bool" where
  "jm_ok m \<longleftrightarrow> distinct (map fst m)"

lemma jm_get_set [jsmap]: "map_of (jm_set k v m) = (map_of m)(k \<mapsto> v)"
  by (induction m) (auto simp: fun_eq_iff)

lemma jm_get_delete [jsmap]: "map_of (jm_delete k m) = (map_of m)(k := None)"
  by (induction m) (auto simp: fun_eq_iff jm_delete_def)

lemma keys_jm_set [jsmap]: "set (map fst (jm_set k v m)) = insert k (set (map fst m))"
  by (induction k v m rule: jm_set.induct) auto

lemma keys_jm_delete [jsmap]: "set (map fst (jm_delete k m)) = set (map fst m) - {k}"
  by (auto simp: jm_delete_def)

lemma set_jm_delete: "set (jm_delete k m) = {p \<in> set m. fst p \<noteq> k}"
  by (auto simp: jm_delete_def)

lemma jm_ok_Nil [simp, intro]: "jm_ok []"
  by (simp add: jm_ok_def)

lemma jm_ok_set [intro, jsmap]: "jm_ok m \<Longrightarrow> jm_ok (jm_set k v m)"
proof (induction m)
  case (Cons p m)
  then show ?case using keys_jm_set [of k v m] by (cases p) (auto simp: jm_ok_def)
qed (simp add: jm_ok_def)

lemma jm_ok_delete [intro, jsmap]: "jm_ok m \<Longrightarrow> jm_ok (jm_delete k m)"
  by (simp add: jm_ok_def jm_delete_def distinct_map_filter)

lemma jm_delete_all_eq: "jm_delete_all ks m = filter (\<lambda>(k, v). k \<notin> set ks) m"
  by (induction ks arbitrary: m)
     (auto simp: jm_delete_all_def jm_delete_def intro!: filter_cong)

lemma jm_ok_delete_all [intro, jsmap]: "jm_ok m \<Longrightarrow> jm_ok (jm_delete_all ks m)"
  by (simp add: jm_ok_def jm_delete_all_eq distinct_map_filter)

lemma jm_get_in: "jm_ok m \<Longrightarrow> (k, v) \<in> set m \<longleftrightarrow> map_of m k = Some v"
  by (simp add: jm_ok_def)

text \<open>
  The interface the service's caches rely on: a store of key/value pairs that returns what was
  last put under a key. The cache-aside read (\<open>resolveTrampoline\<close>, \<open>getBalance\<close>,
  \<open>OrderbookClient.order\<close>) is stated once over it.
\<close>

locale kv_store =
  fixes get :: "'m \<Rightarrow> 'k \<Rightarrow> 'v option"
    and put :: "'k \<Rightarrow> 'v \<Rightarrow> 'm \<Rightarrow> 'm"
    and del :: "'k \<Rightarrow> 'm \<Rightarrow> 'm"
  assumes get_put: "get (put k v m) k' = (if k' = k then Some v else get m k')"
    and get_del: "get (del k m) k' = (if k' = k then None else get m k')"
begin

lemma get_put_same: "get (put k v m) k = Some v"
  by (simp add: get_put)

lemma coherent_put:
  "(\<And>k v. get m k = Some v \<Longrightarrow> v = f k) \<Longrightarrow> get (put k (f k) m) k' = Some v \<Longrightarrow> v = f k'"
  by (auto simp: get_put split: if_splits)

lemma read_through_value:
  "(\<And>k v. get m k = Some v \<Longrightarrow> v = f k) \<Longrightarrow>
   (case get m k of Some v \<Rightarrow> v | None \<Rightarrow> f k) = f k"
  by (auto split: option.splits)

end

interpretation js: kv_store "map_of :: ('k, 'v) jsmap \<Rightarrow> 'k \<Rightarrow> 'v option" jm_set jm_delete
  by unfold_locales (auto simp: jsmap)

section \<open>Tables\<close>

definition sql_update :: "('r \<Rightarrow> bool) \<Rightarrow> ('r \<Rightarrow> 'r) \<Rightarrow> 'r list \<Rightarrow> 'r list" where
  "sql_update P f t = map (\<lambda>r. if P r then f r else r) t"

definition sql_delete :: "('r \<Rightarrow> bool) \<Rightarrow> 'r list \<Rightarrow> 'r list" where
  "sql_delete P t = filter (\<lambda>r. \<not> P r) t"

text \<open>Whether an \<open>UPDATE ... RETURNING\<close> returned a row.\<close>

definition sql_hit :: "('r \<Rightarrow> bool) \<Rightarrow> 'r list \<Rightarrow> bool" where
  "sql_hit P t \<longleftrightarrow> (\<exists>r \<in> set t. P r)"

lemma set_sql_update [sql]:
  "r \<in> set (sql_update P f t) \<longleftrightarrow> (\<exists>r0 \<in> set t. r = (if P r0 then f r0 else r0))"
  by (auto simp: sql_update_def)

lemma set_sql_delete [sql]: "set (sql_delete P t) = {r \<in> set t. \<not> P r}"
  by (auto simp: sql_delete_def)

lemma keys_sql_update [sql]:
  "(\<And>r. key (f r) = key r) \<Longrightarrow> map key (sql_update P f t) = map key t"
  by (auto simp: sql_update_def)

lemma distinct_sql_delete [sql, intro]:
  "distinct (map key t) \<Longrightarrow> distinct (map key (sql_delete P t))"
  by (simp add: sql_delete_def distinct_map_filter)

lemma find_sql_update [sql]:
  "(\<And>r. Q (f r) = Q r) \<Longrightarrow>
   find Q (sql_update P f t) = map_option (\<lambda>r. if P r then f r else r) (find Q t)"
  by (induction t) (auto simp: sql_update_def)

lemma find_SomeD: "find P t = Some r \<Longrightarrow> r \<in> set t \<and> P r"
  by (auto simp: find_Some_iff)

lemma find_key [sql]:
  "distinct (map key t) \<Longrightarrow> r \<in> set t \<Longrightarrow> find (\<lambda>x. key x = key r) t = Some r"
  by (induction t) auto

lemma find_None_hit: "find P t = None \<longleftrightarrow> \<not> sql_hit P t"
  by (auto simp: sql_hit_def find_None_iff)

lemma keys_inj: "distinct (map key t) \<Longrightarrow> x \<in> set t \<Longrightarrow> y \<in> set t \<Longrightarrow> key x = key y \<Longrightarrow> x = y"
  by (metis distinct_map inj_onD)

section \<open>State machines\<close>

inductive reachable :: "('s \<Rightarrow> bool) \<Rightarrow> ('s \<Rightarrow> 's \<Rightarrow> bool) \<Rightarrow> 's \<Rightarrow> bool"
  for init :: "'s \<Rightarrow> bool" and step :: "'s \<Rightarrow> 's \<Rightarrow> bool" where
  reach_init: "init s \<Longrightarrow> reachable init step s"
| reach_step: "reachable init step s \<Longrightarrow> step s t \<Longrightarrow> reachable init step t"

text \<open>
  The contract of a state machine with an invariant: it holds initially and each step keeps it.
\<close>

locale invariant_machine =
  fixes init :: "'s \<Rightarrow> bool" and step :: "'s \<Rightarrow> 's \<Rightarrow> bool" and inv :: "'s \<Rightarrow> bool"
  assumes inv_init: "init s \<Longrightarrow> inv s"
    and inv_step: "inv s \<Longrightarrow> step s t \<Longrightarrow> inv t"
begin

lemma reachable_inv: "reachable init step s \<Longrightarrow> inv s"
  by (induction rule: reachable.induct) (auto intro: inv_init inv_step)

end

section \<open>Loops\<close>

text \<open>
  A \<open>for ... of\<close> loop whose body may throw: \<open>False\<close> is an exception that leaves the loop with the
  effects so far.
\<close>

fun for_each :: "('a \<Rightarrow> 's \<Rightarrow> bool \<times> 's) \<Rightarrow> 'a list \<Rightarrow> 's \<Rightarrow> bool \<times> 's" where
  "for_each step [] s = (True, s)"
| "for_each step (x # xs) s = (case step x s of (False, s') \<Rightarrow> (False, s') | (True, s') \<Rightarrow> for_each step xs s')"

lemma for_each_inv:
  assumes "\<And>x s. x \<in> set xs \<Longrightarrow> I s \<Longrightarrow> I (snd (step x s))" "I s"
  shows "I (snd (for_each step xs s))"
  using assms
proof (induction xs arbitrary: s)
  case (Cons x xs)
  obtain b s' where st: "step x s = (b, s')" by fastforce
  then have "I s'" using Cons.prems(1) [of x s] Cons.prems(2) by simp
  then have "I (snd (for_each step xs s'))" using Cons.IH Cons.prems(1) by simp
  then show ?case using \<open>I s'\<close> by (cases b) (simp_all add: st)
qed simp

text \<open>A reflexive and transitive relation between states that every body keeps.\<close>

lemma for_each_rel:
  assumes "\<And>x s. x \<in> set xs \<Longrightarrow> R s (snd (step x s))" "\<And>s. R s s" "\<And>s t u. R s t \<Longrightarrow> R t u \<Longrightarrow> R s u"
  shows "R s (snd (for_each step xs s))"
  by (rule for_each_inv [where I = "R s"]) (use assms in blast)+

text \<open>A JavaScript \<open>Set\<close> in insertion order.\<close>

definition js_add :: "'a \<Rightarrow> 'a list \<Rightarrow> 'a list" where
  "js_add x xs = (if x \<in> set xs then xs else xs @ [x])"

lemma set_js_add [simp]: "set (js_add x xs) = insert x (set xs)"
  by (auto simp: js_add_def)

lemma distinct_js_add [simp]: "distinct xs \<Longrightarrow> distinct (js_add x xs)"
  by (auto simp: js_add_def)

lemma fold_js_add [simp]:
  "set (fold js_add xs acc) = set xs \<union> set acc" "distinct acc \<Longrightarrow> distinct (fold js_add xs acc)"
  by (induction xs arbitrary: acc) auto

end
