(* ===== verification/Decimal_Strings.thy ===== *)
theory Decimal_Strings
  imports Byos_Prelude
begin

text \<open>
  The decimal strings bigints travel and are stored as: \<open>toString()\<close> on a bigint, the
  \<open>BigInt(string)\<close> constructor (\<open>None\<close> is its \<open>SyntaxError\<close>), and the wire grammars that
  \<open>packages/common/src/dto.ts\<close> and \<open>apps/byos/src/infra/api/types.ts\<close> pin with regular
  expressions. The main facts are the round trip of a stored bigint and that a string of the
  wire grammar always parses to a value in range.
\<close>

section \<open>Digits\<close>

definition digit_char :: "nat \<Rightarrow> char" where
  "digit_char d = char_of (48 + d)"

definition is_digit :: "char \<Rightarrow> bool" where
  "is_digit c \<longleftrightarrow> 48 \<le> (of_char c :: nat) \<and> (of_char c :: nat) \<le> 57"

definition digit_val :: "char \<Rightarrow> nat" where
  "digit_val c = of_char c - 48"

lemma of_char_digit_char: "d < 10 \<Longrightarrow> of_char (digit_char d) = (48 + d :: nat)"
  by (simp add: digit_char_def)

lemma is_digit_digit_char [simp]: "d < 10 \<Longrightarrow> is_digit (digit_char d)"
  by (simp add: is_digit_def of_char_digit_char)

lemma digit_val_digit_char [simp]: "d < 10 \<Longrightarrow> digit_val (digit_char d) = d"
  by (simp add: digit_val_def of_char_digit_char)

fun nat_str :: "nat \<Rightarrow> string" where
  "nat_str n = (if n < 10 then [digit_char n] else nat_str (n div 10) @ [digit_char (n mod 10)])"

declare nat_str.simps [simp del]

definition dec_val :: "string \<Rightarrow> nat" where
  "dec_val s = foldl (\<lambda>v c. v * 10 + digit_val c) 0 s"

lemma dec_val_snoc: "dec_val (s @ [c]) = dec_val s * 10 + digit_val c"
  by (simp add: dec_val_def)

lemma dec_val_nat_str [simp]: "dec_val (nat_str n) = n"
proof (induction n rule: nat_str.induct)
  case (1 n)
  show ?case
  proof (cases "n < 10")
    case True
    then show ?thesis by (simp add: nat_str.simps [of n] dec_val_def)
  next
    case False
    with 1 show ?thesis by (simp add: nat_str.simps [of n] dec_val_snoc)
  qed
qed

lemma nat_str_digits: "list_all is_digit (nat_str n)"
proof (induction n rule: nat_str.induct)
  case (1 n)
  then show ?case
    by (cases "n < 10") (simp_all add: nat_str.simps [of n])
qed

lemma nat_str_nonempty [simp]: "nat_str n \<noteq> []"
  by (subst nat_str.simps) simp

section \<open>toString and BigInt\<close>

definition bigint_str :: "int \<Rightarrow> string" where
  "bigint_str i = (if i < 0 then ''-'' @ nat_str (nat (- i)) else nat_str (nat i))"

text \<open>
  ECMAScript's \<open>StringToBigInt\<close>: white space is trimmed, the empty string is \<open>0n\<close>, a prefix
  \<open>0x\<close>, \<open>0o\<close> or \<open>0b\<close> selects another base, and a decimal literal may carry one sign. Anything
  else is a \<open>SyntaxError\<close>. (The white space is the ASCII part of the standard's.)
\<close>

definition is_space :: "char \<Rightarrow> bool" where
  "is_space c \<longleftrightarrow> (of_char c :: nat) \<in> {9, 10, 11, 12, 13, 32}"

definition trim :: "string \<Rightarrow> string" where
  "trim s = rev (dropWhile is_space (rev (dropWhile is_space s)))"

definition base_val :: "char \<Rightarrow> nat" where
  "base_val c =
     (let n = of_char c :: nat in
      if 48 \<le> n \<and> n \<le> 57 then n - 48
      else if 97 \<le> n \<and> n \<le> 122 then n - 87
      else if 65 \<le> n \<and> n \<le> 90 then n - 55 else 99)"

definition base_parse :: "nat \<Rightarrow> string \<Rightarrow> int option" where
  "base_parse b s =
     (if s \<noteq> [] \<and> list_all (\<lambda>c. base_val c < b) s
      then Some (int (foldl (\<lambda>v c. v * b + base_val c) 0 s)) else None)"

definition dec_parse :: "string \<Rightarrow> int option" where
  "dec_parse s = (if s \<noteq> [] \<and> list_all is_digit s then Some (int (dec_val s)) else None)"

fun bigint_literal :: "string \<Rightarrow> int option" where
  "bigint_literal [] = Some 0"
| "bigint_literal (c # s) =
     (if c = CHR ''-'' then map_option uminus (dec_parse s)
      else if c = CHR ''+'' then dec_parse s
      else if c = CHR ''0'' \<and> s \<noteq> [] \<and> hd s \<in> {CHR ''x'', CHR ''X''} then base_parse 16 (tl s)
      else if c = CHR ''0'' \<and> s \<noteq> [] \<and> hd s \<in> {CHR ''o'', CHR ''O''} then base_parse 8 (tl s)
      else if c = CHR ''0'' \<and> s \<noteq> [] \<and> hd s \<in> {CHR ''b'', CHR ''B''} then base_parse 2 (tl s)
      else dec_parse (c # s))"

definition BigInt :: "string \<Rightarrow> int option" where
  "BigInt s = bigint_literal (trim s)"

lemma is_digit_not_space: "is_digit c \<Longrightarrow> \<not> is_space c"
  by (auto simp: is_digit_def is_space_def)

lemma trim_no_space: "list_all (\<lambda>c. \<not> is_space c) s \<Longrightarrow> trim s = s"
proof -
  assume "list_all (\<lambda>c. \<not> is_space c) s"
  moreover have "list_all (\<lambda>c. \<not> is_space c) t \<Longrightarrow> dropWhile is_space t = t" for t
    by (cases t) auto
  ultimately show ?thesis by (simp add: trim_def list_all_rev)
qed

lemma not_is_digit [simp]:
  "\<not> is_digit CHR ''-''" "\<not> is_digit CHR ''+''"
  "\<not> is_digit CHR ''x''" "\<not> is_digit CHR ''X''" "\<not> is_digit CHR ''o''"
  "\<not> is_digit CHR ''O''" "\<not> is_digit CHR ''b''" "\<not> is_digit CHR ''B''"
  by (simp_all add: is_digit_def)

lemma bigint_literal_digits:
  assumes "s \<noteq> []" and "list_all is_digit s"
  shows "bigint_literal s = dec_parse s"
proof -
  obtain c t where s: "s = c # t" using assms(1) by (cases s) auto
  have c: "is_digit c" and t: "t \<noteq> [] \<Longrightarrow> is_digit (hd t)"
    using assms(2) s by (auto simp: list_all_iff)
  then have "c \<noteq> CHR ''-''" "c \<noteq> CHR ''+''" by auto
  moreover have "t \<noteq> [] \<Longrightarrow> hd t \<notin> {CHR ''x'', CHR ''X'', CHR ''o'', CHR ''O'', CHR ''b'', CHR ''B''}"
    using t by force
  ultimately show ?thesis unfolding s by (cases "t = []") simp_all
qed

lemma BigInt_digits: "s \<noteq> [] \<Longrightarrow> list_all is_digit s \<Longrightarrow> BigInt s = Some (int (dec_val s))"
proof -
  assume ne: "s \<noteq> []" and ds: "list_all is_digit s"
  from ds have "trim s = s"
    by (auto intro!: trim_no_space simp: list_all_iff is_digit_not_space)
  moreover have "bigint_literal s = dec_parse s"
    using ne ds by (rule bigint_literal_digits)
  ultimately show ?thesis using ne ds by (simp add: BigInt_def dec_parse_def)
qed

lemma BigInt_nat_str [simp]: "BigInt (nat_str n) = Some (int n)"
  by (simp add: BigInt_digits nat_str_digits)

lemma BigInt_Nil [simp]: "BigInt [] = Some 0"
  by (simp add: BigInt_def trim_def)

lemma trim_minus: "list_all is_digit s \<Longrightarrow> trim (CHR ''-'' # s) = CHR ''-'' # s"
proof -
  assume "list_all is_digit s"
  then have "list_all (\<lambda>c. \<not> is_space c) s" by (auto simp: list_all_iff is_digit_not_space)
  moreover have "\<not> is_space (CHR ''-'')" by (simp add: is_space_def)
  ultimately show ?thesis by (intro trim_no_space) simp
qed

text \<open>What a column stores for a bigint reads back as that bigint.\<close>

lemma BigInt_bigint_str [simp]: "BigInt (bigint_str i) = Some i"
proof (cases "i < 0")
  case True
  have "trim (CHR ''-'' # nat_str (nat (- i))) = CHR ''-'' # nat_str (nat (- i))"
    by (rule trim_minus) (rule nat_str_digits)
  with True show ?thesis
    by (simp add: BigInt_def bigint_str_def dec_parse_def nat_str_digits)
next
  case False
  then show ?thesis by (simp add: bigint_str_def)
qed

lemma bigint_str_inj [simp]: "bigint_str i = bigint_str j \<longleftrightarrow> i = j"
  by (metis BigInt_bigint_str option.inject)

lemma nat_str_inj [simp]: "nat_str m = nat_str n \<longleftrightarrow> m = n"
  by (metis dec_val_nat_str)

lemma bigint_str_nonneg: "0 \<le> i \<Longrightarrow> bigint_str i = nat_str (nat i)"
  by (simp add: bigint_str_def)

section \<open>The wire grammar\<close>

text \<open>\<open>/^\d+$/\<close> of types.ts and settlement-attempts.ts.\<close>

definition decimalString :: "string \<Rightarrow> bool" where
  "decimalString s \<longleftrightarrow> s \<noteq> [] \<and> list_all is_digit s"

definition U256_MAX :: int where
  "U256_MAX = 2 ^ 256 - 1"

text \<open>
  \<open>u256String\<close>: the regular expression \<open>/^\d*$/\<close> and the refinement, which reads the empty
  string as zero and accepts a string the regular expression already refused.
\<close>

definition u256_regex :: "string \<Rightarrow> bool" where
  "u256_regex s \<longleftrightarrow> list_all is_digit s"

definition u256_refine :: "string \<Rightarrow> bool" where
  "u256_refine s \<longleftrightarrow>
     \<not> u256_regex s \<or>
     (case BigInt (if s = [] then ''0'' else s) of Some v \<Rightarrow> v \<le> U256_MAX | None \<Rightarrow> False)"

definition u256String :: "string \<Rightarrow> bool" where
  "u256String s \<longleftrightarrow> u256_regex s \<and> u256_refine s"

definition is_hex_digit :: "char \<Rightarrow> bool" where
  "is_hex_digit c \<longleftrightarrow> base_val c < 16"

definition has_0x :: "string \<Rightarrow> bool" where
  "has_0x s \<longleftrightarrow> take 2 s = ''0x''"

definition strip_0x :: "string \<Rightarrow> string" where
  "strip_0x s = (if has_0x s then drop 2 s else s)"

text \<open>
  \<open>/^(0x)?([0-9a-fA-F]{2})*$/\<close>. The optional prefix is unambiguous because \<open>x\<close> is no hex digit.
\<close>

definition hexString :: "string \<Rightarrow> bool" where
  "hexString s \<longleftrightarrow> list_all is_hex_digit (strip_0x s) \<and> even (length (strip_0x s))"

text \<open>\<open>/^0x[0-9a-fA-F]{40}$/\<close> and \<open>/^(0x)?[0-9a-fA-F]{112}$/\<close>.\<close>

definition addressString :: "string \<Rightarrow> bool" where
  "addressString s \<longleftrightarrow> has_0x s \<and> length (drop 2 s) = 40 \<and> list_all is_hex_digit (drop 2 s)"

definition orderUidString :: "string \<Rightarrow> bool" where
  "orderUidString s \<longleftrightarrow> length (strip_0x s) = 112 \<and> list_all is_hex_digit (strip_0x s)"

lemma u256String_parses: "u256String s \<Longrightarrow> \<exists>v. BigInt s = Some v \<and> 0 \<le> v \<and> v \<le> U256_MAX"
proof (cases "s = []")
  case False
  assume "u256String s"
  with False show ?thesis
    by (auto simp: u256String_def u256_refine_def u256_regex_def BigInt_digits)
qed (simp add: U256_MAX_def)

lemma decimalString_parses: "decimalString s \<Longrightarrow> \<exists>v. BigInt s = Some v \<and> 0 \<le> v"
  by (auto simp: decimalString_def BigInt_digits)

lemma decimalString_nat_str [simp]: "decimalString (nat_str n)"
  by (simp add: decimalString_def nat_str_digits)

text \<open>The request parser's \<open>hex\<close>: a missing prefix is added, so the result always has one.\<close>

definition add_0x :: "string \<Rightarrow> string" where
  "add_0x s = (if has_0x s then s else ''0x'' @ s)"

lemma has_0x_add [simp]: "has_0x (add_0x s)"
  by (simp add: add_0x_def has_0x_def)

lemma strip_add [simp]: "strip_0x (add_0x s) = strip_0x s"
  by (auto simp: add_0x_def strip_0x_def has_0x_def)

lemma add_0x_idem [simp]: "add_0x (add_0x s) = add_0x s"
  by (simp add: add_0x_def [of "add_0x s"])

end
