(* ===== verification/Scoring.thy ===== *)
theory Scoring
  imports Byos_Prelude
begin

text \<open>
  \<open>apps/byos/src/domain/scoring.ts\<close> and \<open>gas-cut.ts\<close>: a proposal weighed against its order at
  the auction's gas price, and the sell-token cut that pays its gas. Amounts are wei and token
  atoms, all bigint; a token price is the native value of 10^18 atoms.

  The lemmas say that scaling an order to a partial fill never relaxes the limit price the user
  signed, that a score is what is left of the surplus after gas, and that the cut covers the gas
  bill to the atom while the user still gets the limit.
\<close>

definition ETHER :: int where
  "ETHER = 10 ^ 18"

lemma ETHER_pos [simp]: "0 < ETHER" "0 \<le> ETHER" "ETHER \<noteq> 0"
  by (simp_all add: ETHER_def)

definition ESCROW_GAS_ESTIMATION :: int where
  "ESCROW_GAS_ESTIMATION = 200000"

definition GAS_BUFFER :: int where
  "GAS_BUFFER = 30000"

definition effectiveGas :: "int \<Rightarrow> int" where
  "effectiveGas simulated = simulated + GAS_BUFFER"

definition surplusToken :: "bool \<Rightarrow> string \<Rightarrow> string \<Rightarrow> string" where
  "surplusToken isSellOrder sellToken buyToken = (if isSellOrder then buyToken else sellToken)"

record scoring_candidate =
  orderSell :: int
  orderBuy :: int
  proposalSell :: int
  proposalBuy :: int
  isSellOrder :: bool
  gasCost :: int

definition scaledToFill :: "scoring_candidate \<Rightarrow> bool \<Rightarrow> scoring_candidate option" where
  "scaledToFill c partiallyFillable =
     (if \<not> partiallyFillable then Some c
      else if isSellOrder c then
        (if orderSell c = 0 then None
         else Some (c\<lparr>orderSell := proposalSell c,
                      orderBuy := ceilDiv (orderBuy c * proposalSell c) (orderSell c)\<rparr>))
      else
        (if orderBuy c = 0 then None
         else Some (c\<lparr>orderSell := (orderSell c * proposalBuy c) sdiv orderBuy c,
                      orderBuy := proposalBuy c\<rparr>)))"

definition surplus :: "scoring_candidate \<Rightarrow> int" where
  "surplus c = (if isSellOrder c then proposalBuy c - orderBuy c else orderSell c - proposalSell c)"

definition scoreProposal :: "scoring_candidate \<Rightarrow> int \<Rightarrow> int option" where
  "scoreProposal c surplusPrice =
     (if surplus c < 0 then None
      else let surplusEth = (surplus c * surplusPrice) sdiv ETHER;
               score = surplusEth - gasCost c
           in if score < 0 then None else Some score)"

record gas_cut =
  cutAmount :: int
  executedAmount :: int

definition gasCutSize :: "scoring_candidate \<Rightarrow> int \<Rightarrow> gas_cut option" where
  "gasCutSize c sellTokenPrice =
     (if sellTokenPrice = 0 then None
      else let cut = ceilDiv (gasCost c * ETHER) sellTokenPrice in
        if isSellOrder c then
          (let executed = orderSell c - cut in
           if executed < 0 then None
           else if proposalSell c = 0 then None
           else if (proposalBuy c * executed) sdiv proposalSell c < orderBuy c then None
           else Some \<lparr>cutAmount = cut, executedAmount = executed\<rparr>)
        else if proposalSell c + cut > orderSell c then None
        else Some \<lparr>cutAmount = cut, executedAmount = orderBuy c\<rparr>)"

text \<open>The candidates the service builds: amounts are unsigned, gas is not negative.\<close>

definition candidate_ok :: "scoring_candidate \<Rightarrow> bool" where
  "candidate_ok c \<longleftrightarrow> 0 \<le> orderSell c \<and> 0 \<le> orderBuy c \<and> 0 \<le> proposalSell c \<and>
     0 \<le> proposalBuy c \<and> 0 \<le> gasCost c"

section \<open>Scaling to the fill\<close>

lemma scaledToFill_frame:
  assumes "scaledToFill c pf = Some d"
  shows "proposalSell d = proposalSell c \<and> proposalBuy d = proposalBuy c \<and>
    isSellOrder d = isSellOrder c \<and> gasCost d = gasCost c"
  using assms by (auto simp: scaledToFill_def split: if_splits)

lemma scaledToFill_ok: "candidate_ok c \<Longrightarrow> scaledToFill c pf = Some d \<Longrightarrow> candidate_ok d"
  by (auto simp: scaledToFill_def candidate_ok_def bigint pos_imp_zdiv_nonneg_iff
      split: if_splits)

lemma scaled_sell_ge:
  assumes "candidate_ok c" "scaledToFill c True = Some d" "isSellOrder c"
  shows "orderBuy c * proposalSell c \<le> orderBuy d * orderSell c \<and> orderSell d = proposalSell c"
  using assms by (auto simp: scaledToFill_def candidate_ok_def bigint split: if_splits)

lemma scaled_buy_le:
  assumes "candidate_ok c" "scaledToFill c True = Some d" "\<not> isSellOrder c"
  shows "orderSell d * orderBuy c \<le> orderSell c * proposalBuy c \<and> orderBuy d = proposalBuy c"
  using assms div_mult_le_int [of "orderBuy c" "orderSell c * proposalBuy c"]
  by (auto simp: scaledToFill_def candidate_ok_def bigint split: if_splits)

section \<open>Scores\<close>

lemma scoreProposal_SomeD:
  assumes "scoreProposal c p = Some s"
  shows "0 \<le> surplus c \<and> 0 \<le> s \<and> s + gasCost c = (surplus c * p) sdiv ETHER"
  using assms by (auto simp: scoreProposal_def Let_def split: if_splits)

lemma score_covers_gas:
  assumes "scoreProposal c p = Some s" "0 \<le> p"
  shows "(s + gasCost c) * ETHER \<le> surplus c * p"
proof -
  have "0 \<le> surplus c * p" and eq: "s + gasCost c = (surplus c * p) sdiv ETHER"
    using scoreProposal_SomeD [OF assms(1)] assms(2) by auto
  then have "s + gasCost c = (surplus c * p) div ETHER" by (simp add: bigint)
  then show ?thesis by (simp add: div_mult_le_int)
qed

section \<open>The gas cut\<close>

lemma gasCutSize_amount:
  assumes "gasCutSize c p = Some gc"
  shows "p \<noteq> 0 \<and> cutAmount gc = ceilDiv (gasCost c * ETHER) p"
  using assms by (auto simp: gasCutSize_def Let_def split: if_splits)

text \<open>
  C34. A gas cut of \<open>gasCutSize\<close> is the least number of sell-token atoms whose native value
  covers the gas bill: the cut is never an atom short, and one atom less would be.
\<close>

theorem gas_cut_covers_gas:
  assumes "candidate_ok c" and "0 < p" and "gasCutSize c p = Some gc"
  shows "gasCost c * ETHER \<le> cutAmount gc * p \<and> (cutAmount gc - 1) * p < gasCost c * ETHER \<and>
         0 \<le> cutAmount gc"
proof -
  have g: "0 \<le> gasCost c * ETHER" using assms(1) by (simp add: candidate_ok_def)
  show ?thesis
    using gasCutSize_amount [OF assms(3)] ceilDiv_ge [OF g assms(2)] ceilDiv_lt [OF g assms(2)]
      ceilDiv_nonneg [OF g assms(2)] by simp
qed

definition sample_candidate :: scoring_candidate where
  "sample_candidate = \<lparr>orderSell = 1000, orderBuy = 900, proposalSell = 1000, proposalBuy = 1000,
     isSellOrder = True, gasCost = 50\<rparr>"

lemma sample_candidate_ok [simp]: "candidate_ok sample_candidate"
  by (simp add: candidate_ok_def sample_candidate_def)

lemma sample_cut: "gasCutSize sample_candidate ETHER = Some \<lparr>cutAmount = 50, executedAmount = 950\<rparr>"
  by code_simp

theorem gas_cut_covers_gas_witness:
  "gasCutSize sample_candidate ETHER = Some \<lparr>cutAmount = 50, executedAmount = 950\<rparr> \<and>
   gasCost sample_candidate * ETHER \<le> 50 * ETHER"
  using gas_cut_covers_gas [OF sample_candidate_ok ETHER_pos(1) sample_cut] sample_cut by simp

text \<open>
  A gas cut keeps the user inside the limit they signed: for a sell order the declared fill
  and the cut together are the whole sell amount, and what the route delivers on that fill is at
  least the order's buy amount; for a buy order the route's input plus the cut is at most what
  the user allowed to leave the wallet, and the full buy amount is filled.
\<close>

theorem gas_cut_respects_limit:
  assumes "candidate_ok c" and "gasCutSize c p = Some gc"
  shows "if isSellOrder c
         then executedAmount gc + cutAmount gc = orderSell c \<and> 0 \<le> executedAmount gc \<and>
              orderBuy c * proposalSell c \<le> proposalBuy c * executedAmount gc
         else proposalSell c + cutAmount gc \<le> orderSell c \<and> executedAmount gc = orderBuy c"
proof (cases "isSellOrder c")
  case True
  then have ex: "executedAmount gc = orderSell c - cutAmount gc" "0 \<le> executedAmount gc"
    and ps: "proposalSell c \<noteq> 0"
    and rc: "orderBuy c \<le> (proposalBuy c * executedAmount gc) sdiv proposalSell c"
    using assms(2) by (auto simp: gasCutSize_def Let_def split: if_splits)
  have pos: "0 < proposalSell c" "0 \<le> proposalBuy c"
    using ps assms(1) by (auto simp: candidate_ok_def)
  have "orderBuy c \<le> (proposalBuy c * executedAmount gc) div proposalSell c"
    using rc pos ex(2) by (simp add: bigint)
  with pos have "orderBuy c * proposalSell c \<le> proposalBuy c * executedAmount gc"
    by (simp add: le_div_iff_int)
  with True ex show ?thesis by simp
next
  case False
  with assms(2) show ?thesis
    by (auto simp: gasCutSize_def Let_def split: if_splits)
qed

theorem gas_cut_respects_limit_witness:
  "gasCutSize sample_candidate ETHER = Some \<lparr>cutAmount = 50, executedAmount = 950\<rparr> \<and>
   (950::int) + 50 = 1000 \<and> 900 * (1000::int) \<le> 1000 * 950"
  using gas_cut_respects_limit [OF sample_candidate_ok sample_cut] sample_cut
  by (simp add: sample_candidate_def)

text \<open>
  Scaling a partially fillable order to the proposal's fill keeps the signed limit price: the
  scaled order asks for at least as many buy tokens per sell token as the original, for either
  kind of order, and leaves the proposal and the gas bill as they are.
\<close>

theorem scaled_limit_not_relaxed:
  assumes "candidate_ok c" and "scaledToFill c True = Some d"
  shows "orderBuy c * orderSell d \<le> orderBuy d * orderSell c \<and> candidate_ok d \<and>
    proposalSell d = proposalSell c \<and> proposalBuy d = proposalBuy c \<and> gasCost d = gasCost c"
proof (cases "isSellOrder c")
  case True
  show ?thesis
    using scaled_sell_ge [OF assms True] scaledToFill_ok [OF assms] scaledToFill_frame [OF assms(2)]
    by simp
next
  case False
  show ?thesis
    using scaled_buy_le [OF assms False] scaledToFill_ok [OF assms] scaledToFill_frame [OF assms(2)]
    by (simp add: mult.commute)
qed

theorem scaled_limit_not_relaxed_witness:
  "scaledToFill (sample_candidate\<lparr>proposalSell := 3\<rparr>) True =
     Some (sample_candidate\<lparr>proposalSell := 3, orderSell := 3, orderBuy := 3\<rparr>) \<and>
   900 * (3::int) \<le> 3 * 1000"
proof -
  have ok: "candidate_ok (sample_candidate\<lparr>proposalSell := 3\<rparr>)"
    by (simp add: candidate_ok_def sample_candidate_def)
  have sc: "scaledToFill (sample_candidate\<lparr>proposalSell := 3\<rparr>) True =
      Some (sample_candidate\<lparr>proposalSell := 3, orderSell := 3, orderBuy := 3\<rparr>)"
    by code_simp
  show ?thesis
    using scaled_limit_not_relaxed [OF ok sc] sc by (simp add: sample_candidate_def)
qed

end
