(* ===== verification/Domain_Types.thy ===== *)
theory Domain_Types
  imports Decimal_Strings
begin

text \<open>
  The data the service's components exchange: the wire vocabulary of \<open>packages/common/src/dto.ts\<close>
  (statuses, rejection reasons), the contract types of \<open>types.ts\<close>, \<open>trampoline.ts\<close> and
  \<open>settlement.ts\<close>, the domain proposal of \<open>apps/byos/src/domain/proposal.ts\<close>, the order record of
  \<open>domain/order.ts\<close> and the verdicts of \<open>domain/validator.ts\<close>. Addresses, hashes and byte strings
  are their hex strings; dates are milliseconds.
\<close>

section \<open>Statuses and rejection reasons\<close>

datatype status =
  Submitted | Rejected | Settled | SettleFailed | SimFailed | Cancelled | Lost | CandidateStatus

text \<open>Whether the proposal can never become executable again.\<close>

fun isTerminalStatus :: "status \<Rightarrow> bool" where
  "isTerminalStatus Rejected = True"
| "isTerminalStatus Settled = True"
| "isTerminalStatus SettleFailed = True"
| "isTerminalStatus SimFailed = True"
| "isTerminalStatus Cancelled = True"
| "isTerminalStatus Lost = True"
| "isTerminalStatus _ = False"

datatype rejection_reason =
  InsufficientEscrow | ExposureCapExceeded | UnsupportedOrder | AmountMismatch | TokenMismatch
| OrderNotFound | Unprofitable | TradeValueCapExceeded | SubsolverOutbid | SolverOutbid
| ProposedSlippageOutrange | SimulationMissingExecutedEvent | NativePriceUnavailable
| InflightPriceUnavailable | AuctionClosed | UnknownOutput

section \<open>Contract types\<close>

record interaction =
  i_target :: string
  i_value :: int
  i_callData :: string

text \<open>The on-chain \<open>Proposal\<close> struct of \<open>packages/common/src/types.ts\<close>.\<close>

record contract_proposal =
  cp_orderUidHash :: string
  cp_sellToken :: string
  cp_buyToken :: string
  cp_sellAmount :: int
  cp_minBuyAmount :: int
  cp_quoteBuyAmount :: int
  cp_validUntil :: int
  cp_nonce :: int

datatype order_kind = SELL | BUY

datatype signing_scheme = Eip712 | EthSign | Eip1271 | PreSign

record cow_order =
  o_sellToken :: string
  o_buyToken :: string
  o_receiver :: string
  o_sellAmount :: int
  o_buyAmount :: int
  o_validTo :: int
  o_appData :: string
  o_feeAmount :: int
  o_kind :: order_kind
  o_partiallyFillable :: bool
  o_signingScheme :: signing_scheme
  o_signature :: string

text \<open>The cow-sdk's \<open>OrderStatus\<close>, of which the service itself only writes \<open>OPEN\<close>.\<close>

datatype order_status = PresignaturePending | Open | Fulfilled | OrderCancelled | Expired

record order_record =
  order :: cow_order
  preInteractions :: "interaction list"
  postInteractions :: "interaction list"
  erc20Balances :: bool
  orderStatus :: order_status

section \<open>Proposals\<close>

record simulation_failure_params =
  sf_chainId :: int
  sf_blockNumber :: string
  sf_timestamp :: int
  sf_from :: string
  sf_to :: string
  sf_calldata :: string

record proposal =
  p_id :: int
  p_subSolver :: string
  p_auctionId :: "int option"
  p_orderUid :: string
  p_orderUidHash :: string
  p_sellAmount :: int
  p_minBuyAmount :: int
  p_quoteBuyAmount :: int
  p_sellToken :: string
  p_buyToken :: string
  p_interactions :: "interaction list"
  p_interactionsHash :: string
  p_validUntil :: int
  p_nonce :: int
  p_signature :: string
  p_status :: status
  p_rejectionReason :: "rejection_reason option"
  p_gasUsed :: "int option"
  p_trampoline :: "string option"
  p_settlementTxHash :: "string option"
  p_penaltyTxHash :: "string option"
  p_simulationFailureParams :: "simulation_failure_params option"
  p_createdAt :: int
  p_statusChangedAt :: int
  p_settlementPenaltyCap :: "int option"
  p_sellTokenRefPrice :: "string option"
  p_buyTokenRefPrice :: "string option"
  p_surplusTokenRefPrice :: "string option"
  p_auctionGasPrice :: "string option"
  p_clearingPrices :: "(string \<times> string) list option"
  p_simulationBuyAmount :: "int option"

text \<open>
  \<open>effectiveBuyAmount\<close>: what scoring and the clearing prices use, the smaller of the quote and
  what the simulation delivered. \<open>solve.ts\<close> repeats the same expression on a candidate.
\<close>

definition effectiveBuy :: "int option \<Rightarrow> int \<Rightarrow> int" where
  "effectiveBuy simulated quote =
     (case simulated of Some b \<Rightarrow> if b < quote then b else quote | None \<Rightarrow> quote)"

definition effectiveBuyAmount :: "proposal \<Rightarrow> int" where
  "effectiveBuyAmount p = effectiveBuy (p_simulationBuyAmount p) (p_quoteBuyAmount p)"

lemma effectiveBuy_le: "effectiveBuy s q \<le> q"
  by (simp add: effectiveBuy_def split: option.splits)

lemma effectiveBuy_le_sim: "effectiveBuy (Some b) q \<le> b"
  by (simp add: effectiveBuy_def)

lemma effectiveBuy_eq: "effectiveBuy s q = (case s of None \<Rightarrow> q | Some b \<Rightarrow> min b q)"
  by (auto simp: effectiveBuy_def split: option.splits)

datatype settlement_outcome =
  Started | Succeeded (outcomeTx: string) | Reverted (outcomeTx: string) | Abandoned

fun isChargeable :: "settlement_outcome \<Rightarrow> bool" where
  "isChargeable (Reverted h) = True"
| "isChargeable Abandoned = True"
| "isChargeable _ = False"

section \<open>Verdicts\<close>

record simulation_outcome =
  so_gasUsed :: int
  so_trampoline :: string
  so_sellToken :: string
  so_buyToken :: string
  so_simulationBuyAmount :: int
  so_sellTokenRefPrice :: int

datatype verdict =
  Accept "simulation_outcome option"
| Reject rejection_reason
| SimFailedVerdict "simulation_failure_params option" "string option"

section \<open>Candidates\<close>

text \<open>A validated proposal held in memory (\<open>apps/byos/src/infra/candidate-store.ts\<close>).\<close>

record candidate =
  c_id :: int
  c_subSolver :: string
  c_orderUid :: string
  c_orderUidHash :: string
  c_sellAmount :: int
  c_minBuyAmount :: int
  c_quoteBuyAmount :: int
  c_sellToken :: string
  c_buyToken :: string
  c_interactions :: "interaction list"
  c_interactionsHash :: string
  c_validUntil :: int
  c_nonce :: int
  c_signature :: string
  c_auctionId :: int
  c_gasUsed :: int
  c_trampoline :: string
  c_simulationBuyAmount :: "int option"
  c_sellTokenRefPrice :: string
  c_createdAt :: int

section \<open>Audit events\<close>

text \<open>\<open>AuditKind\<close> of \<open>domain/audit.ts\<close>; an event is a kind with the time it occurred.\<close>

datatype audit_kind =
  Received proposal
| NonceConflict int string string string
| CancelledEvent int string string
| StatusChanged (sc_id: int) (sc_subSolver: string) (sc_orderUid: string)
    (sc_from: status) (sc_to: status) "rejection_reason option" "string option"
| Penalized int string string int "string option" string
| NonSettlementDebited int string string int string
| BufferDebited string int string int
| DriverNotified int string string string

type_synonym audit_event = "int \<times> audit_kind"

section \<open>JSON values\<close>

text \<open>
  Values the service serialises; an object is its properties in the order they are written, so
  \<open>JSON.stringify\<close> of two of them agrees exactly when they are equal.
\<close>

datatype json = JNull | JNum int | JStr string | JArr "json list" | JObj "(string \<times> json) list"

section \<open>Concrete inputs\<close>

text \<open>A sell order, its record and a proposal for it, at which the theorems are instantiated.\<close>

definition exampleOrder :: cow_order where
  "exampleOrder = \<lparr>o_sellToken = ''0xA1'', o_buyToken = ''0xB2'', o_receiver = ''0x0'',
     o_sellAmount = 100, o_buyAmount = 30, o_validTo = 2000, o_appData = ''0x'', o_feeAmount = 0,
     o_kind = SELL, o_partiallyFillable = True, o_signingScheme = Eip712, o_signature = ''0x''\<rparr>"

definition exampleRecord :: order_record where
  "exampleRecord = \<lparr>order = exampleOrder, preInteractions = [], postInteractions = [],
     erc20Balances = True, orderStatus = Open\<rparr>"

definition exampleProposal :: proposal where
  "exampleProposal = \<lparr>p_id = 7, p_subSolver = ''0x5A'', p_auctionId = Some 1, p_orderUid = ''0xC3'',
     p_orderUidHash = ''0xd4'', p_sellAmount = 50, p_minBuyAmount = 16, p_quoteBuyAmount = 20,
     p_sellToken = ''0xa1'', p_buyToken = ''0xb2'', p_interactions = [], p_interactionsHash = ''0xe5'',
     p_validUntil = 1000, p_nonce = 1, p_signature = ''0xf6'', p_status = Submitted,
     p_rejectionReason = None, p_gasUsed = Some 100000, p_trampoline = Some ''0x77'',
     p_settlementTxHash = None, p_penaltyTxHash = None, p_simulationFailureParams = None,
     p_createdAt = 0, p_statusChangedAt = 0, p_settlementPenaltyCap = Some 1000,
     p_sellTokenRefPrice = None, p_buyTokenRefPrice = None, p_surplusTokenRefPrice = None,
     p_auctionGasPrice = None, p_clearingPrices = None, p_simulationBuyAmount = None\<rparr>"

lemmas example_defs = exampleOrder_def exampleRecord_def exampleProposal_def

end
