(* ===== verification/Collateral.thy ===== *)
theory Collateral
  imports Scoring
begin

text \<open>
  \<open>apps/byos/src/domain/collateral.ts\<close> and \<open>penalty.ts\<close>: the penalty cap a proposal puts at risk,
  the collateral a sub-solver has left for it, and the amounts the penalty loop debits.
\<close>

definition NATIVE_PRICE_SCALE :: int where
  "NATIVE_PRICE_SCALE = 10 ^ 18"

definition nativeSellValue :: "int \<Rightarrow> int \<Rightarrow> int" where
  "nativeSellValue sellAmount sellTokenRefPrice = (sellAmount * sellTokenRefPrice) sdiv NATIVE_PRICE_SCALE"

definition penaltyCap :: "int option \<Rightarrow> int \<Rightarrow> int \<Rightarrow> int" where
  "penaltyCap sellAmountNative collateralRatioBps minCollateral =
     (case sellAmountNative of
        None \<Rightarrow> minCollateral
      | Some v \<Rightarrow>
          let scaled = (v * collateralRatioBps) sdiv 10000
          in if scaled < minCollateral then scaled else minCollateral)"

definition perProposalCL :: "int \<Rightarrow> int option \<Rightarrow> int \<Rightarrow> int \<Rightarrow> int" where
  "perProposalCL sellAmount sellTokenRefPrice collateralRatioBps minCollateral =
     (let nativeValue = (case sellTokenRefPrice of
            None \<Rightarrow> None
          | Some p \<Rightarrow> if p \<le> 0 then None else Some (nativeSellValue sellAmount p))
      in penaltyCap nativeValue collateralRatioBps minCollateral)"

definition availableCollateral :: "int \<Rightarrow> int \<Rightarrow> int" where
  "availableCollateral escrowBalance bufferBalance =
     escrowBalance - (if 0 < bufferBalance then bufferBalance else 0)"

definition revertDebit :: "int \<Rightarrow> int \<Rightarrow> int" where
  "revertDebit settlementCost cL = settlementCost + cL"

definition nonSettlementDebit :: "int \<Rightarrow> int" where
  "nonSettlementDebit cL = cL sdiv 10"

definition bufferDebit :: "int \<Rightarrow> int \<Rightarrow> int" where
  "bufferDebit gap refPrice = (gap * refPrice) sdiv ETHER"

lemma NATIVE_PRICE_SCALE_pos [simp]: "0 < NATIVE_PRICE_SCALE"
  by (simp add: NATIVE_PRICE_SCALE_def)

lemma penaltyCap_le: "penaltyCap v bps m \<le> m"
  by (simp add: penaltyCap_def Let_def split: option.splits)

lemma penaltyCap_nonneg:
  "0 \<le> m \<Longrightarrow> 0 \<le> bps \<Longrightarrow> (\<And>x. v = Some x \<Longrightarrow> 0 \<le> x) \<Longrightarrow> 0 \<le> penaltyCap v bps m"
  by (auto simp: penaltyCap_def Let_def bigint pos_imp_zdiv_nonneg_iff split: option.splits)

lemma nativeSellValue_nonneg: "0 \<le> a \<Longrightarrow> 0 \<le> p \<Longrightarrow> 0 \<le> nativeSellValue a p"
  by (simp add: nativeSellValue_def bigint pos_imp_zdiv_nonneg_iff)

lemma nativeSellValue_mono: "a \<le> b \<Longrightarrow> 0 \<le> a \<Longrightarrow> 0 \<le> p \<Longrightarrow> nativeSellValue a p \<le> nativeSellValue b p"
  by (simp add: nativeSellValue_def bigint zdiv_mono1 mult_right_mono)

lemma penaltyCap_mono:
  "x \<le> y \<Longrightarrow> 0 \<le> x \<Longrightarrow> 0 \<le> bps \<Longrightarrow> penaltyCap (Some x) bps m \<le> penaltyCap (Some y) bps m"
  using zdiv_mono1 [of "x * bps" "y * bps" 10000]
  by (auto simp: penaltyCap_def Let_def bigint mult_right_mono)

lemma perProposalCL_le: "perProposalCL a p bps m \<le> m"
  by (simp add: perProposalCL_def Let_def penaltyCap_le)

lemma perProposalCL_nonneg:
  "0 \<le> a \<Longrightarrow> 0 \<le> bps \<Longrightarrow> 0 \<le> m \<Longrightarrow> 0 \<le> perProposalCL a p bps m"
  by (auto simp: perProposalCL_def Let_def intro!: penaltyCap_nonneg nativeSellValue_nonneg
      split: option.splits if_splits)

lemma nonSettlementDebit_bounds:
  "0 \<le> c \<Longrightarrow> 0 \<le> nonSettlementDebit c \<and> 10 * nonSettlementDebit c \<le> c"
  using div_mult_le_int [of 10 c] by (simp add: nonSettlementDebit_def bigint pos_imp_zdiv_nonneg_iff)

text \<open>
  What a proposal can lose is bounded by what it stakes: its per-proposal cap is between zero
  and the deployment's absolute bound, grows with the amount it sells, is the absolute bound when
  the sell token has no usable price, and the non-settlement debit frozen from it is at most a
  tenth of it, so never more than what a reverted settlement costs.
\<close>

theorem penalty_cap_bounds:
  assumes "0 \<le> a" "a \<le> b" "0 \<le> bps" "0 \<le> m" "0 \<le> cost"
  shows "0 \<le> perProposalCL a p bps m \<and> perProposalCL a p bps m \<le> perProposalCL b p bps m \<and>
         perProposalCL b p bps m \<le> m \<and>
         perProposalCL a None bps m = m \<and>
         10 * nonSettlementDebit (perProposalCL a p bps m) \<le> perProposalCL a p bps m \<and>
         nonSettlementDebit (perProposalCL a p bps m) \<le> revertDebit cost (perProposalCL a p bps m)"
proof -
  have mono: "perProposalCL a p bps m \<le> perProposalCL b p bps m"
    using assms by (auto simp: perProposalCL_def Let_def
        intro!: penaltyCap_mono nativeSellValue_mono nativeSellValue_nonneg split: option.splits)
  have pos: "0 \<le> perProposalCL a p bps m" using assms by (simp add: perProposalCL_nonneg)
  have none: "perProposalCL a None bps m = m"
    by (simp add: perProposalCL_def penaltyCap_def)
  show ?thesis
    using nonSettlementDebit_bounds [OF pos] mono pos none assms(5)
    by (auto simp: perProposalCL_le revertDebit_def)
qed

theorem penalty_cap_bounds_witness:
  "perProposalCL ETHER (Some ETHER) 4 (10 ^ 16) = 4 * 10 ^ 14 \<and>
   10 * nonSettlementDebit (4 * 10 ^ 14) \<le> (4 * 10 ^ 14 :: int)"
proof -
  have v: "perProposalCL ETHER (Some ETHER) 4 (10 ^ 16) = 4 * 10 ^ 14"
    by code_simp
  show ?thesis
    using penalty_cap_bounds [of ETHER ETHER 4 "10 ^ 16" 0 "Some ETHER"] v by simp
qed

end
