(* ===== verification/Orders.thy ===== *)
theory Orders
  imports Domain_Types Collateral
begin

text \<open>
  \<open>apps/byos/src/domain/order.ts\<close>: what a proposal must look like to be an answer to the order it
  names (\<open>checkEnvelope\<close> with its two fills) and how far its guaranteed amount may lie below its
  quote (\<open>checkProposalSlippage\<close>). A check returns the reason to reject, or \<open>None\<close>.

  The lemmas give each check's meaning as a condition on the numbers, and connect the envelope to
  the scoring that runs after it: an envelope that passes leaves the user at least the limit price.
\<close>

definition checkFillOrKill :: "cow_order \<Rightarrow> proposal \<Rightarrow> rejection_reason option" where
  "checkFillOrKill ord p =
     (if o_kind ord = SELL then
        (if p_sellAmount p \<noteq> o_sellAmount ord then Some AmountMismatch
         else if p_minBuyAmount p < o_buyAmount ord then Some AmountMismatch
         else None)
      else
        (if p_minBuyAmount p \<noteq> p_quoteBuyAmount p then Some AmountMismatch
         else if p_quoteBuyAmount p \<noteq> o_buyAmount ord then Some AmountMismatch
         else None))"

definition checkPartialFill :: "cow_order \<Rightarrow> proposal \<Rightarrow> rejection_reason option" where
  "checkPartialFill ord p =
     (if o_kind ord = SELL then
        (if p_sellAmount p = 0 \<or> p_sellAmount p > o_sellAmount ord then Some AmountMismatch
         else if p_quoteBuyAmount p * o_sellAmount ord < p_sellAmount p * o_buyAmount ord
           then Some AmountMismatch
         else if p_minBuyAmount p * o_sellAmount ord < p_sellAmount p * o_buyAmount ord
           then Some AmountMismatch
         else None)
      else
        (if p_minBuyAmount p \<noteq> p_quoteBuyAmount p then Some AmountMismatch
         else if p_quoteBuyAmount p = 0 \<or> p_quoteBuyAmount p > o_buyAmount ord
           then Some AmountMismatch
         else if p_sellAmount p = 0 then Some AmountMismatch
         else if p_sellAmount p * o_buyAmount ord > p_quoteBuyAmount p * o_sellAmount ord
           then Some AmountMismatch
         else None))"

definition checkEnvelope :: "order_record \<Rightarrow> proposal \<Rightarrow> rejection_reason option" where
  "checkEnvelope rec p =
     (if \<not> erc20Balances rec then Some UnsupportedOrder
      else if lower (p_sellToken p) \<noteq> lower (o_sellToken (order rec)) \<or>
              lower (p_buyToken p) \<noteq> lower (o_buyToken (order rec)) then Some TokenMismatch
      else if p_minBuyAmount p > p_quoteBuyAmount p then Some AmountMismatch
      else if o_partiallyFillable (order rec) then checkPartialFill (order rec) p
      else checkFillOrKill (order rec) p)"

definition checkProposalSlippage ::
    "order_record \<Rightarrow> proposal \<Rightarrow> int \<Rightarrow> int \<Rightarrow> int \<Rightarrow> rejection_reason option" where
  "checkProposalSlippage rec p nativePrice maxSlippageBps maxSlippageNative =
     (if o_kind (order rec) \<noteq> SELL then None
      else let gap = p_quoteBuyAmount p - p_minBuyAmount p in
        if gap \<le> 0 then None
        else if gap * 10000 > p_quoteBuyAmount p * maxSlippageBps then Some ProposedSlippageOutrange
        else if gap * nativePrice > maxSlippageNative * NATIVE_PRICE_SCALE
          then Some ProposedSlippageOutrange
        else None)"

text \<open>Amounts of orders and proposals are unsigned 256-bit integers on the wire.\<close>

definition order_amounts_ok :: "cow_order \<Rightarrow> bool" where
  "order_amounts_ok ord \<longleftrightarrow> 0 \<le> o_sellAmount ord \<and> 0 \<le> o_buyAmount ord"

definition proposal_amounts_ok :: "proposal \<Rightarrow> bool" where
  "proposal_amounts_ok p \<longleftrightarrow>
     0 \<le> p_sellAmount p \<and> 0 \<le> p_minBuyAmount p \<and> 0 \<le> p_quoteBuyAmount p"

section \<open>What the envelope promises\<close>

lemma checkEnvelope_NoneD:
  assumes "checkEnvelope rec p = None"
  shows "erc20Balances rec \<and> lower (p_sellToken p) = lower (o_sellToken (order rec)) \<and>
     lower (p_buyToken p) = lower (o_buyToken (order rec)) \<and>
     p_minBuyAmount p \<le> p_quoteBuyAmount p \<and>
     (if o_partiallyFillable (order rec) then checkPartialFill (order rec) p = None
      else checkFillOrKill (order rec) p = None)"
  using assms by (auto simp: checkEnvelope_def split: if_splits)

lemma checkPartialFill_None_iff:
  "checkPartialFill ord p = None \<longleftrightarrow>
     (if o_kind ord = SELL
      then p_sellAmount p \<noteq> 0 \<and> p_sellAmount p \<le> o_sellAmount ord \<and>
           p_sellAmount p * o_buyAmount ord \<le> p_quoteBuyAmount p * o_sellAmount ord \<and>
           p_sellAmount p * o_buyAmount ord \<le> p_minBuyAmount p * o_sellAmount ord
      else p_minBuyAmount p = p_quoteBuyAmount p \<and> p_quoteBuyAmount p \<noteq> 0 \<and>
           p_quoteBuyAmount p \<le> o_buyAmount ord \<and> p_sellAmount p \<noteq> 0 \<and>
           p_sellAmount p * o_buyAmount ord \<le> p_quoteBuyAmount p * o_sellAmount ord)"
  by (auto simp: checkPartialFill_def not_less)

lemma checkFillOrKill_None_iff:
  "checkFillOrKill ord p = None \<longleftrightarrow>
     (if o_kind ord = SELL
      then p_sellAmount p = o_sellAmount ord \<and> o_buyAmount ord \<le> p_minBuyAmount p
      else p_minBuyAmount p = p_quoteBuyAmount p \<and> p_quoteBuyAmount p = o_buyAmount ord)"
  by (auto simp: checkFillOrKill_def)



section \<open>The envelope and the score\<close>

text \<open>
  How \<open>profitability\<close> (validator.ts) and the selection loop (solve.ts) turn an order and a proposal
  into a scoring candidate, for a delivered amount and a gas bill.
\<close>

definition scoringCandidateOf :: "cow_order \<Rightarrow> proposal \<Rightarrow> int \<Rightarrow> int \<Rightarrow> scoring_candidate" where
  "scoringCandidateOf ord p buy gas =
     \<lparr>orderSell = o_sellAmount ord, orderBuy = o_buyAmount ord, proposalSell = p_sellAmount p,
      proposalBuy = buy, isSellOrder = (o_kind ord = SELL), gasCost = gas\<rparr>"

lemma ceilDiv_le_iff: "0 < b \<Longrightarrow> 0 \<le> a \<Longrightarrow> ceilDiv a b \<le> c \<longleftrightarrow> a \<le> c * b"
proof -
  assume b: "0 < b" and a: "0 \<le> a"
  have "ceilDiv a b \<le> c \<longleftrightarrow> (a + b - 1) div b < c + 1"
    using a b by (simp add: ceilDiv_def bigint)
  also have "\<dots> \<longleftrightarrow> a + b - 1 < (c + 1) * b"
    using le_div_iff_int [OF b, of "c + 1" "a + b - 1"] by linarith
  finally show ?thesis by (simp add: distrib_right) linarith
qed

text \<open>
  Whatever the envelope check lets through, the scoring never counts as a loss for the user:
  for a sell order whose route delivers at least the guaranteed amount, and for a partially fillable
  buy order, the surplus over the scaled limit is not negative. Fill-or-kill buy orders are the one
  case the envelope leaves open (it does not look at the sell amount); there a score exists only if
  the proposal sells at most what the user signed.
\<close>

theorem envelope_surplus_nonneg:
  assumes env: "checkEnvelope rec p = None"
    and ord: "order_amounts_ok (order rec)" and amounts: "proposal_amounts_ok p"
    and delivered: "p_minBuyAmount p \<le> buy" "buy \<le> p_quoteBuyAmount p"
    and scaled: "scaledToFill (scoringCandidateOf (order rec) p buy gas)
                   (o_partiallyFillable (order rec)) = Some d"
  shows "(o_kind (order rec) = SELL \<or> o_partiallyFillable (order rec) \<longrightarrow> 0 \<le> surplus d) \<and>
         (\<forall>price s. scoreProposal d price = Some s \<longrightarrow>
            (if o_kind (order rec) = SELL then orderBuy d \<le> buy
             else p_sellAmount p \<le> orderSell d \<and> orderSell d \<le> o_sellAmount (order rec)))"
proof -
  let ?o = "order rec" let ?c = "scoringCandidateOf (order rec) p buy gas"
  note defs = scaledToFill_def scoringCandidateOf_def surplus_def
  have pos: "0 \<le> o_sellAmount ?o" "0 \<le> o_buyAmount ?o" "0 \<le> p_sellAmount p"
    using ord amounts by (auto simp: order_amounts_ok_def proposal_amounts_ok_def)
  note env' = checkEnvelope_NoneD [OF env]
  have sell: "0 \<le> surplus d" if k: "o_kind ?o = SELL"
  proof (cases "o_partiallyFillable ?o")
    case True
    then have lim: "p_sellAmount p \<noteq> 0" "p_sellAmount p \<le> o_sellAmount ?o"
        "p_sellAmount p * o_buyAmount ?o \<le> p_minBuyAmount p * o_sellAmount ?o"
      using env' k by (auto simp: checkPartialFill_None_iff)
    have "p_minBuyAmount p * o_sellAmount ?o \<le> buy * o_sellAmount ?o"
      using delivered(1) pos(1) by (rule mult_right_mono)
    then have le: "o_buyAmount ?o * p_sellAmount p \<le> buy * o_sellAmount ?o"
      using lim(3) by (simp add: mult.commute)
    have "0 < o_sellAmount ?o" using lim pos by linarith
    then have "ceilDiv (o_buyAmount ?o * p_sellAmount p) (o_sellAmount ?o) \<le> buy"
      using le pos by (simp add: ceilDiv_le_iff)
    then show ?thesis using scaled True k by (auto simp: defs split: if_splits)
  next
    case False
    then show ?thesis using env' k scaled delivered(1) by (auto simp: checkFillOrKill_None_iff defs)
  qed
  have part: "0 \<le> surplus d" if k: "o_kind ?o = BUY" and pf: "o_partiallyFillable ?o"
  proof -
    have lim: "p_minBuyAmount p = p_quoteBuyAmount p" "p_quoteBuyAmount p \<noteq> 0"
        "p_quoteBuyAmount p \<le> o_buyAmount ?o"
        "p_sellAmount p * o_buyAmount ?o \<le> p_quoteBuyAmount p * o_sellAmount ?o"
      using env' k pf by (auto simp: checkPartialFill_None_iff)
    have buy: "buy = p_quoteBuyAmount p" using delivered lim(1) by simp
    have "0 < o_buyAmount ?o" using lim amounts by (auto simp: proposal_amounts_ok_def)
    moreover have "0 \<le> o_sellAmount ?o * buy" using pos delivered amounts
      by (simp add: proposal_amounts_ok_def)
    ultimately have "p_sellAmount p \<le> (o_sellAmount ?o * buy) sdiv o_buyAmount ?o"
      using lim(4) buy by (simp add: bigint le_div_iff_int mult.commute)
    then show ?thesis using scaled k pf by (auto simp: defs split: if_splits)
  qed
  have bound: "orderSell d \<le> o_sellAmount ?o" if k: "o_kind ?o = BUY"
  proof (cases "o_partiallyFillable ?o")
    case True
    then have lim: "p_quoteBuyAmount p \<le> o_buyAmount ?o" "p_quoteBuyAmount p \<noteq> 0"
      using env' k by (auto simp: checkPartialFill_None_iff)
    have b: "0 < o_buyAmount ?o" "0 \<le> buy" using lim amounts delivered by (auto simp: proposal_amounts_ok_def)
    have "o_sellAmount ?o * buy \<le> o_sellAmount ?o * o_buyAmount ?o"
      using lim delivered pos by (intro mult_left_mono) auto
    then have "(o_sellAmount ?o * buy) div o_buyAmount ?o \<le> o_sellAmount ?o"
      using zdiv_mono1 [OF _ b(1), of "o_sellAmount ?o * buy" "o_sellAmount ?o * o_buyAmount ?o"] b
      by simp
    then show ?thesis using scaled True k pos b by (auto simp: defs bigint split: if_splits)
  qed (use scaled k in \<open>auto simp: defs\<close>)
  have kinds: "o_kind ?o \<noteq> SELL \<longleftrightarrow> o_kind ?o = BUY" by (cases "o_kind ?o") auto
  have frame: "isSellOrder d = (o_kind ?o = SELL)" "proposalBuy d = buy" "proposalSell d = p_sellAmount p"
    using scaledToFill_frame [OF scaled] by (auto simp: scoringCandidateOf_def)
  show ?thesis
    using sell part bound kinds frame scoreProposal_SomeD [of d] by (fastforce simp: surplus_def)
qed

theorem envelope_surplus_nonneg_witness:
  "\<exists>d. scaledToFill (scoringCandidateOf exampleOrder exampleProposal 18 5) True = Some d \<and>
       0 \<le> surplus d"
proof -
  let ?d = "\<lparr>orderSell = 50, orderBuy = 15, proposalSell = 50, proposalBuy = 18,
             isSellOrder = True, gasCost = 5\<rparr>"
  have s: "scaledToFill (scoringCandidateOf exampleOrder exampleProposal 18 5) True = Some ?d"
    by code_simp
  have e: "checkEnvelope exampleRecord exampleProposal = None" by code_simp
  show ?thesis
    using envelope_surplus_nonneg [OF e, of 18 5 ?d] s
    by (simp add: example_defs order_amounts_ok_def proposal_amounts_ok_def)
qed

section \<open>Slippage and the buffer ledger\<close>

lemma checkProposalSlippage_None_iff:
  "checkProposalSlippage rec p price bps maxNative = None \<longleftrightarrow>
     o_kind (order rec) \<noteq> SELL \<or> p_quoteBuyAmount p \<le> p_minBuyAmount p \<or>
     (p_quoteBuyAmount p - p_minBuyAmount p) * 10000 \<le> p_quoteBuyAmount p * bps \<and>
     (p_quoteBuyAmount p - p_minBuyAmount p) * price \<le> maxNative * NATIVE_PRICE_SCALE"
  by (auto simp: checkProposalSlippage_def Let_def not_less)

text \<open>
  C35. The slippage check caps the debt a settled proposal can leave in the buffer ledger: when the
  envelope and the check pass and the on-chain delivery was at least the guaranteed amount, the
  under-delivery debited at the checked buy-token price is at most the configured native maximum.
\<close>

theorem slippage_bounds_buffer_debit:
  assumes env: "checkEnvelope rec p = None"
    and slip: "checkProposalSlippage rec p price bps maxNative = None"
    and pos: "0 \<le> price" "0 \<le> maxNative"
    and delivered: "p_minBuyAmount p \<le> delta" "delta \<le> p_quoteBuyAmount p"
  shows "0 \<le> bufferDebit (p_quoteBuyAmount p - delta) price \<and>
         bufferDebit (p_quoteBuyAmount p - delta) price \<le> maxNative"
proof -
  let ?gap = "p_quoteBuyAmount p - p_minBuyAmount p"
  have "?gap * price \<le> maxNative * ETHER"
  proof (cases "o_kind (order rec) = SELL \<and> 0 < ?gap")
    case True
    then show ?thesis using slip
      by (auto simp: checkProposalSlippage_None_iff NATIVE_PRICE_SCALE_def ETHER_def)
  next
    case False
    have "?gap \<le> 0"
    proof (cases "o_kind (order rec)")
      case BUY
      then show ?thesis using checkEnvelope_NoneD [OF env]
        by (auto simp: checkPartialFill_None_iff checkFillOrKill_None_iff split: if_splits)
    qed (use False in auto)
    then have "?gap = 0" using checkEnvelope_NoneD [OF env] by linarith
    then show ?thesis using pos by simp
  qed
  moreover have "(p_quoteBuyAmount p - delta) * price \<le> ?gap * price"
    using delivered pos by (intro mult_right_mono) auto
  ultimately have le: "(p_quoteBuyAmount p - delta) * price \<le> maxNative * ETHER" by linarith
  have nn: "0 \<le> (p_quoteBuyAmount p - delta) * price" using delivered pos by simp
  have "(p_quoteBuyAmount p - delta) * price div ETHER \<le> maxNative * ETHER div ETHER"
    using le by (rule zdiv_mono1) simp
  then show ?thesis using nn by (simp add: bufferDebit_def bigint pos_imp_zdiv_nonneg_iff)
qed

theorem slippage_bounds_buffer_debit_witness:
  "bufferDebit (20 - 17) ETHER \<le> (4 :: int)"
proof -
  have e: "checkEnvelope exampleRecord exampleProposal = None" by code_simp
  have s: "checkProposalSlippage exampleRecord exampleProposal ETHER 2000 4 = None" by code_simp
  show ?thesis
    using slippage_bounds_buffer_debit [OF e s, of 17] by (simp add: example_defs)
qed

end
