(* ===== verification/Rate_Limit.thy ===== *)
theory Rate_Limit
  imports Complex_Main Decimal_Strings
begin

text \<open>
  \<open>apps/byos/src/domain/rate-limit.ts\<close> and \<open>infra/rate-limit.ts\<close>: the throughput tier an escrow
  balance buys, the two-window sliding estimate, and the Redis limiter built on it.

  Redis is seen through the commands the limiter sends: \<open>INCR\<close>, \<open>EXPIRE\<close> and \<open>GET\<close> in one
  transaction on counters that expire. JavaScript's floating-point ratio is a rational here.
  A limiter is a function from the time, a key, a limit and a window to a decision (\<open>None\<close> when the
  store failed) and the next store; the locale \<open>rate_limiter\<close> holds what its callers rely on.
\<close>

section \<open>The tier function\<close>

record tier_params =
  rateUnitWei :: int
  ratePerUnit :: int
  minRate :: int
  maxRate :: int

text \<open>Division by a zero unit throws; a rate returned as a \<open>number\<close> is below \<open>maxRate\<close>, so exact.\<close>

definition rateForBalance :: "int \<Rightarrow> tier_params \<Rightarrow> int option" where
  "rateForBalance balance params =
     (if rateUnitWei params = 0 then None
      else let units = balance sdiv rateUnitWei params;
               rate = units * ratePerUnit params
           in Some (if rate \<le> minRate params then minRate params
                    else if maxRate params \<le> rate then maxRate params
                    else rate))"

text \<open>What config.ts enforces on the tier parameters.\<close>

definition tier_ok :: "tier_params \<Rightarrow> bool" where
  "tier_ok t \<longleftrightarrow> 0 < rateUnitWei t \<and> 0 < ratePerUnit t \<and> 0 < minRate t \<and> minRate t \<le> maxRate t"

lemma rateForBalance_eq:
  "tier_ok t \<Longrightarrow> 0 \<le> b \<Longrightarrow>
   rateForBalance b t = Some (max (minRate t) (min (maxRate t) (b div rateUnitWei t * ratePerUnit t)))"
  by (auto simp: rateForBalance_def tier_ok_def Let_def bigint max_def min_def)

text \<open>
  The tier function is total on the configurations the service accepts, stays between the floor
  and the ceiling, never falls when the balance grows, and gives an unfunded signer the floor.
\<close>

theorem rate_for_balance_tiers:
  assumes "tier_ok t" "0 \<le> b" "b \<le> c"
  shows "\<exists>r r'. rateForBalance b t = Some r \<and> rateForBalance c t = Some r' \<and>
    minRate t \<le> r \<and> r \<le> r' \<and> r' \<le> maxRate t \<and> rateForBalance 0 t = Some (minRate t)"
proof -
  have pos: "0 < rateUnitWei t" "0 < ratePerUnit t" using assms(1) by (auto simp: tier_ok_def)
  have "b div rateUnitWei t \<le> c div rateUnitWei t" using assms(3) pos(1) by (rule zdiv_mono1)
  then have "b div rateUnitWei t * ratePerUnit t \<le> c div rateUnitWei t * ratePerUnit t"
    using pos(2) by (simp add: mult_right_mono)
  then have "min (maxRate t) (b div rateUnitWei t * ratePerUnit t)
      \<le> min (maxRate t) (c div rateUnitWei t * ratePerUnit t)" by simp
  then show ?thesis
    using assms by (simp add: rateForBalance_eq tier_ok_def)
qed

theorem rate_for_balance_tiers_witness:
  "\<exists>r'. rateForBalance (3 * 10 ^ 17) \<lparr>rateUnitWei = 10 ^ 17, ratePerUnit = 300, minRate = 120,
     maxRate = 3000\<rparr> = Some r' \<and> 120 \<le> r' \<and> r' \<le> 3000"
  using rate_for_balance_tiers [of "\<lparr>rateUnitWei = 10 ^ 17, ratePerUnit = 300, minRate = 120,
     maxRate = 3000\<rparr>" 0 "3 * 10 ^ 17"] by (auto simp: tier_ok_def)

section \<open>Decisions\<close>

definition slidingCount :: "rat \<Rightarrow> rat \<Rightarrow> rat \<Rightarrow> rat" where
  "slidingCount previous current elapsedRatio = previous * (1 - elapsedRatio) + current"

record limit_decision =
  allowed :: bool
  remaining :: int
  resetAt :: int

type_synonym 's limiter = "int \<Rightarrow> string \<Rightarrow> int \<Rightarrow> int \<Rightarrow> 's \<Rightarrow> limit_decision option \<times> 's"

text \<open>
  The contract of \<open>RateLimiter.checkLimit nowMs key limit windowSecs\<close>: the window it reports ends in
  the future and at most two windows away, what remains is within the limit, and a denial leaves
  nothing.
\<close>

locale rate_limiter =
  fixes checkLimit :: "'s limiter" and ok :: "'s \<Rightarrow> bool"
  assumes ok_step: "ok s \<Longrightarrow> ok (snd (checkLimit now key limit win s))"
    and reset_future: "ok s \<Longrightarrow> checkLimit now key limit win s = (Some d, s') \<Longrightarrow> 0 < win \<Longrightarrow>
      now div 1000 < resetAt d \<and> resetAt d \<le> now div 1000 + win"
    and remaining_bounds: "ok s \<Longrightarrow> checkLimit now key limit win s = (Some d, s') \<Longrightarrow> 0 \<le> limit \<Longrightarrow>
      0 < win \<Longrightarrow> 0 \<le> remaining d \<and> remaining d \<le> limit"
    and denied_exhausted: "checkLimit now key limit win s = (Some d, s') \<Longrightarrow> \<not> allowed d \<Longrightarrow>
      remaining d = 0"
begin

text \<open>What \<open>retryAfter\<close> (middleware.ts) answers from a decision: within one window, never zero.\<close>

lemma retry_bounds:
  assumes "ok s" "checkLimit now key limit win s = (Some d, s')" "0 < win"
  shows "max 1 (resetAt d - now div 1000) = resetAt d - now div 1000 \<and>
         resetAt d - now div 1000 \<le> win"
  using reset_future [OF assms] by auto

end

definition allowAll :: "unit limiter" where
  "allowAll now key limit windowSecs s =
     (Some \<lparr>allowed = True, remaining = limit, resetAt = now div 1000 + windowSecs\<rparr>, s)"

interpretation stub: rate_limiter allowAll "\<lambda>_. True"
  by unfold_locales (auto simp: allowAll_def)

section \<open>The Redis limiter\<close>

text \<open>A counter with the millisecond it expires at; an expired counter reads as absent.\<close>

type_synonym counters = "(string, int \<times> int) jsmap"

definition redis_get :: "int \<Rightarrow> string \<Rightarrow> counters \<Rightarrow> int option" where
  "redis_get now k r = (case jm_get r k of
     Some (v, e) \<Rightarrow> if now < e then Some v else None | None \<Rightarrow> None)"

definition redis_incr_expire :: "int \<Rightarrow> string \<Rightarrow> int \<Rightarrow> counters \<Rightarrow> counters" where
  "redis_incr_expire now k secs r =
     jm_set k ((case redis_get now k r of Some v \<Rightarrow> v | None \<Rightarrow> 0) + 1, now + secs * 1000) r"

definition windowKey :: "string \<Rightarrow> string \<Rightarrow> int \<Rightarrow> string" where
  "windowKey prefix key idx = prefix @ '':'' @ key @ '':'' @ bigint_str idx"

text \<open>
  \<open>createRedisRateLimiter\<close>: the store is \<open>None\<close> while Redis is unreachable, which throws. The
  counters' values go through \<open>Number\<close>, exact for counts.
\<close>

definition redisCheckLimit :: "string \<Rightarrow> counters option limiter" where
  "redisCheckLimit prefix now key limit windowSecs store =
     (case store of None \<Rightarrow> (None, None) | Some r \<Rightarrow>
        let windowMs = windowSecs * 1000;
            windowIndex = now div windowMs;
            elapsedRatio = of_int (now mod windowMs) / of_int windowMs;
            currentKey = windowKey prefix key windowIndex;
            previousKey = windowKey prefix key (windowIndex - 1);
            r' = redis_incr_expire now currentKey (windowSecs * 2) r;
            current = (case redis_get now currentKey r' of Some v \<Rightarrow> v | None \<Rightarrow> 0);
            previous = (case redis_get now previousKey r' of Some v \<Rightarrow> v | None \<Rightarrow> 0);
            count = slidingCount (of_int previous) (of_int current) elapsedRatio;
            resetAt = \<lceil>of_int ((windowIndex + 1) * windowMs) / (1000 :: rat)\<rceil>
        in (Some \<lparr>allowed = (count \<le> of_int limit), remaining = max 0 \<lfloor>of_int limit - count\<rfloor>,
                  resetAt = resetAt\<rparr>, Some r'))"

text \<open>The limiter only ever stores positive counts.\<close>

definition counters_ok :: "counters \<Rightarrow> bool" where
  "counters_ok r \<longleftrightarrow> (\<forall>k v e. jm_get r k = Some (v, e) \<longrightarrow> 0 < v)"

lemma redis_get_nonneg: "counters_ok r \<Longrightarrow> redis_get now k r = Some v \<Longrightarrow> 0 < v"
  by (auto simp: counters_ok_def redis_get_def split: option.splits prod.splits if_splits)

lemma counters_ok_incr: "counters_ok r \<Longrightarrow> counters_ok (redis_incr_expire now k secs r)"
proof -
  assume ok: "counters_ok r"
  have "0 < (case redis_get now k r of Some v \<Rightarrow> v | None \<Rightarrow> 0) + 1"
    using redis_get_nonneg [OF ok, of now k] by (auto split: option.split)
  then show ?thesis using ok
    unfolding counters_ok_def redis_incr_expire_def jm_get_set fun_upd_apply by simp
qed

lemma redis_get_incr:
  "0 < secs \<Longrightarrow> redis_get now k' (redis_incr_expire now k secs r) =
     (if k' = k then Some ((case redis_get now k r of Some v \<Rightarrow> v | None \<Rightarrow> 0) + 1)
      else redis_get now k' r)"
  by (auto simp: redis_incr_expire_def redis_get_def jsmap)

lemma ratio_bounds:
  fixes now w :: int assumes "0 < w"
  shows "0 \<le> (of_int (now mod w) / of_int w :: rat)" "(of_int (now mod w) / of_int w :: rat) < 1"
proof -
  show "0 \<le> (of_int (now mod w) / of_int w :: rat)" using assms by simp
  have "(of_int (now mod w) :: rat) < of_int w"
    unfolding of_int_less_iff using assms by simp
  then show "(of_int (now mod w) / of_int w :: rat) < 1" using assms by simp
qed

lemma windowKey_inj [simp]: "windowKey p k i = windowKey p k j \<longleftrightarrow> i = j"
  by (simp add: windowKey_def)

lemma ceiling_seconds: "\<lceil>of_int (a * (b * 1000)) / (1000 :: rat)\<rceil> = a * b"
proof -
  have "(of_int (a * (b * 1000)) / (1000 :: rat)) = of_int (a * b)" by simp
  then show ?thesis by (simp only: ceiling_of_int)
qed

text \<open>One successful check, with its intermediate values named.\<close>

lemma redisCheckLimit_Some:
  assumes "0 < win" and ok: "counters_ok r"
  obtains d prev cur where
    "redisCheckLimit p now key limit win (Some r) =
       (Some d, Some (redis_incr_expire now (windowKey p key (now div (win * 1000))) (win * 2) r))"
    "0 < cur" "0 \<le> prev"
    "cur = (case redis_get now (windowKey p key (now div (win * 1000))) r of Some v \<Rightarrow> v | None \<Rightarrow> 0) + 1"
    "allowed d \<longleftrightarrow> slidingCount (of_int prev) (of_int cur)
       (of_int (now mod (win * 1000)) / of_int (win * 1000)) \<le> of_int limit"
    "remaining d = max 0 \<lfloor>of_int limit - slidingCount (of_int prev) (of_int cur)
       (of_int (now mod (win * 1000)) / of_int (win * 1000))\<rfloor>"
    "resetAt d = (now div (win * 1000) + 1) * win"
proof -
  let ?k = "windowKey p key (now div (win * 1000))"
  let ?r = "redis_incr_expire now ?k (win * 2) r"
  let ?cur = "(case redis_get now ?k r of Some v \<Rightarrow> v | None \<Rightarrow> 0) + 1"
  let ?prev = "case redis_get now (windowKey p key (now div (win * 1000) - 1)) r of
                 Some v \<Rightarrow> v | None \<Rightarrow> 0"
  have cur: "0 < ?cur" using redis_get_nonneg [OF ok, of now ?k] by (auto split: option.split)
  have prev: "0 \<le> ?prev" using redis_get_nonneg [OF ok] by (auto split: option.split intro: less_imp_le)
  let ?count = "slidingCount (of_int ?prev) (of_int ?cur)
      (of_int (now mod (win * 1000)) / of_int (win * 1000))"
  let ?d = "\<lparr>allowed = (?count \<le> of_int limit), remaining = max 0 \<lfloor>of_int limit - ?count\<rfloor>,
     resetAt = (now div (win * 1000) + 1) * win\<rparr>"
  have eq: "redisCheckLimit p now key limit win (Some r) = (Some ?d, Some ?r)"
    using assms(1)
    by (simp only: redisCheckLimit_def option.case Let_def redis_get_incr ceiling_seconds
        mult_pos_pos zero_less_numeral if_True simp_thms windowKey_inj)
       (simp add: redis_get_incr ceiling_seconds)
  show thesis by (rule that [of ?d ?cur ?prev]) (use eq cur prev in simp_all)
qed

definition counters_store_ok :: "counters option \<Rightarrow> bool" where
  "counters_store_ok s \<longleftrightarrow> (case s of None \<Rightarrow> True | Some r \<Rightarrow> counters_ok r)"

lemma window_end:
  fixes now w :: int assumes "0 < w"
  shows "now div 1000 < (now div (w * 1000) + 1) * w \<and>
         (now div (w * 1000) + 1) * w \<le> now div 1000 + w"
proof -
  have "now div (w * 1000) = (now div 1000) div w"
    using zdiv_zmult2_eq [of w now 1000] assms by (simp add: mult.commute)
  then show ?thesis
    using div_mult_gt_int [OF assms, of "now div 1000"] div_mult_le_int [OF assms, of "now div 1000"]
    by (simp add: distrib_right)
qed

lemma slidingCount_ge: "0 \<le> p \<Longrightarrow> x < 1 \<Longrightarrow> c \<le> slidingCount p c x"
  by (simp add: slidingCount_def)

interpretation redis: rate_limiter "redisCheckLimit p" counters_store_ok for p
proof
  fix s :: "counters option" and now key limit win
  assume ok: "counters_store_ok s"
  then show "counters_store_ok (snd (redisCheckLimit p now key limit win s))"
    by (auto simp: counters_store_ok_def redisCheckLimit_def Let_def counters_ok_incr split: option.splits)
next
  fix s s' :: "counters option" and now key limit d and win :: int
  assume ok: "counters_store_ok s" and eq: "redisCheckLimit p now key limit win s = (Some d, s')"
    and win: "0 < win"
  obtain r where s: "s = Some r" and r: "counters_ok r"
    using ok eq by (cases s) (auto simp: counters_store_ok_def redisCheckLimit_def)
  show "now div 1000 < resetAt d \<and> resetAt d \<le> now div 1000 + win"
    using redisCheckLimit_Some [OF win r, of p now key limit] eq s window_end [OF win, of now]
    by (metis Pair_inject option.inject)
next
  fix s s' :: "counters option" and now key d and limit win :: int
  assume ok: "counters_store_ok s" and eq: "redisCheckLimit p now key limit win s = (Some d, s')"
    and lim: "0 \<le> limit" and win: "0 < win"
  obtain r where s: "s = Some r" and r: "counters_ok r"
    using ok eq by (cases s) (auto simp: counters_store_ok_def redisCheckLimit_def)
  show "0 \<le> remaining d \<and> remaining d \<le> limit"
  proof (rule redisCheckLimit_Some [OF win r, of p now key limit])
    fix d' and prev cur :: int
    let ?x = "of_int (now mod (win * 1000)) / of_int (win * 1000) :: rat"
    assume d: "redisCheckLimit p now key limit win (Some r) = (Some d', Some (redis_incr_expire now
        (windowKey p key (now div (win * 1000))) (win * 2) r))"
      and cur: "0 < cur" "0 \<le> prev"
      and rem: "remaining d' = max 0 \<lfloor>of_int limit - slidingCount (of_int prev) (of_int cur) ?x\<rfloor>"
    have "(of_int cur :: rat) \<le> slidingCount (of_int prev) (of_int cur) ?x"
      using cur ratio_bounds(2) [of "win * 1000" now] win by (intro slidingCount_ge) auto
    moreover have "(0 :: rat) \<le> of_int cur" using cur by simp
    ultimately have "(of_int limit - slidingCount (of_int prev) (of_int cur) ?x :: rat) \<le> of_int limit"
      by linarith
    then have "\<lfloor>of_int limit - slidingCount (of_int prev) (of_int cur) ?x\<rfloor> \<le> limit"
      unfolding floor_le_iff by linarith
    then show ?thesis using d eq s rem lim by simp
  qed
next
  fix s s' :: "counters option" and now key limit d and win :: int
  assume eq: "redisCheckLimit p now key limit win s = (Some d, s')" and na: "\<not> allowed d"
  then show "remaining d = 0"
    by (auto simp: redisCheckLimit_def Let_def split: option.splits)
qed

section \<open>A window's budget\<close>

text \<open>
  A run of requests against one limiter, each a time and a key, every key with its own limit; the
  result is the decision each request got. Requests of all keys are interleaved as they arrive.
\<close>

fun runChecks :: "string \<Rightarrow> (string \<Rightarrow> int) \<Rightarrow> int \<Rightarrow> (int \<times> string) list \<Rightarrow> counters \<Rightarrow>
    (string \<times> limit_decision) list" where
  "runChecks p limit win [] r = []"
| "runChecks p limit win ((now, key) # reqs) r =
     (case redisCheckLimit p now key (limit key) win (Some r) of
        (Some d, Some r') \<Rightarrow> (key, d) # runChecks p limit win reqs r'
      | _ \<Rightarrow> [])"

definition allowedFor :: "string \<Rightarrow> (string \<times> limit_decision) list \<Rightarrow> int" where
  "allowedFor key ds = int (length (filter (\<lambda>(k, d). k = key \<and> allowed d) ds))"

definition countNow :: "string \<Rightarrow> int \<Rightarrow> int \<Rightarrow> string \<Rightarrow> counters \<Rightarrow> int \<Rightarrow> int" where
  "countNow p win idx key r now =
     (case redis_get now (windowKey p key idx) r of Some v \<Rightarrow> v | None \<Rightarrow> 0)"

lemma countNow_after:
  assumes "0 < win" "now div (win * 1000) = idx" "now' div (win * 1000) = idx"
  shows "countNow p win idx key (redis_incr_expire now (windowKey p k idx) (win * 2) r) now' =
    (if k = key then countNow p win idx key r now + 1 else countNow p win idx key r now')"
proof -
  have "now' < (idx + 1) * (win * 1000)" "idx * (win * 1000) \<le> now"
    using div_mult_gt_int [of "win * 1000" now'] div_mult_le_int [of "win * 1000" now] assms by auto
  then have "now' < now + win * 2 * 1000" using assms(1) by (simp add: algebra_simps)
  moreover have "windowKey p k idx = windowKey p key idx \<longleftrightarrow> k = key" by (simp add: windowKey_def)
  ultimately show ?thesis
    by (auto simp: countNow_def redis_get_def redis_incr_expire_def jsmap)
qed

lemma allowedFor_bound:
  assumes "0 < win" "counters_ok r" "\<forall>(now, k) \<in> set reqs. now div (win * 1000) = idx"
    "\<forall>now. now div (win * 1000) = idx \<longrightarrow> countNow p win idx key r now = n"
  shows "allowedFor key (runChecks p limit win reqs r) \<le> max 0 (limit key - n)"
  using assms(2-)
proof (induction reqs arbitrary: r n)
  case (Cons req reqs)
  obtain now k where req: "req = (now, k)" by (cases req)
  have win: "0 < win" by fact
  have now: "now div (win * 1000) = idx" using Cons.prems(2) req by simp
  obtain d prev cur where
    eq: "redisCheckLimit p now k (limit k) win (Some r) =
       (Some d, Some (redis_incr_expire now (windowKey p k idx) (win * 2) r))"
    and cur: "0 < cur" "0 \<le> prev" "cur = countNow p win idx k r now + 1"
    and al: "allowed d \<longleftrightarrow> slidingCount (of_int prev) (of_int cur)
       (of_int (now mod (win * 1000)) / of_int (win * 1000)) \<le> of_int (limit k)"
    using redisCheckLimit_Some [OF win Cons.prems(1), of p now k "limit k"]
    by (simp only: now countNow_def) metis
  let ?r = "redis_incr_expire now (windowKey p k idx) (win * 2) r"
  let ?n = "if k = key then n + 1 else n"
  have "\<forall>t. t div (win * 1000) = idx \<longrightarrow> countNow p win idx key ?r t = ?n"
    using Cons.prems(3) countNow_after [OF win now] now by auto
  then have IH: "allowedFor key (runChecks p limit win reqs ?r) \<le> max 0 (limit key - ?n)"
    using Cons.IH [of ?r ?n] Cons.prems(1,2) by (simp add: counters_ok_incr)
  have le: "cur \<le> limit k" if "allowed d"
  proof -
    have "(of_int cur :: rat) \<le> slidingCount (of_int prev) (of_int cur)
        (of_int (now mod (win * 1000)) / of_int (win * 1000))"
      using cur ratio_bounds(2) [of "win * 1000" now] win by (intro slidingCount_ge) auto
    then show ?thesis using al that by linarith
  qed
  have n: "k = key \<Longrightarrow> cur = n + 1" using cur(3) Cons.prems(3) now by auto
  have "allowedFor key (runChecks p limit win (req # reqs) r) =
      (if k = key \<and> allowed d then 1 else 0) + allowedFor key (runChecks p limit win reqs ?r)"
    by (simp add: req eq allowedFor_def)
  then show ?case using IH le n by (auto simp: max_def split: if_splits)
qed (simp add: allowedFor_def)

text \<open>
  C37. No key gets more than its limit through one window, whatever the other keys send in between:
  of any interleaving of requests that arrive within one window on a store whose counter for that
  key and window is still empty, at most \<open>limit\<close> of that key's are allowed, denied requests
  included in the count.
\<close>

theorem window_budget_respected:
  assumes "0 < win" "counters_ok r" "\<forall>(now, k) \<in> set reqs. now div (win * 1000) = idx"
    "jm_get r (windowKey p key idx) = None" "0 \<le> limit key"
  shows "allowedFor key (runChecks p limit win reqs r) \<le> limit key"
  using allowedFor_bound [of win r reqs idx p key 0 limit] assms
  by (simp add: countNow_def redis_get_def)

theorem window_budget_respected_witness:
  "allowedFor ''a'' (runChecks ''p'' (\<lambda>_. 1) 1 [(5, ''a''), (6, ''b''), (7, ''a'')] []) \<le> 1"
  using window_budget_respected [of 1 "[]" "[(5, ''a''), (6, ''b''), (7, ''a'')]" 0 "''p''" "''a''" "\<lambda>_. 1"]
  by (simp add: counters_ok_def)

end
