(* ===== verification/Balance_Store.thy ===== *)
theory Balance_Store
  imports Decimal_Strings "HOL-Library.Multiset" "HOL-Library.List_Lexorder" "HOL-Library.Char_ord" "HOL-Library.Product_Lexorder"
begin

text \<open>
  \<open>apps/byos/src/infra/balance-cache.ts\<close> and \<open>jobs/balance-refresh.ts\<close>: the request path's cache
  of escrow balances. Redis holds a sorted set of active addresses (scored by last-seen time), a
  balance key and a below-floor key per address, both with an expiry; values are decimal strings.
  An operation returns \<open>None\<close> when Redis is unreachable (the store is \<open>None\<close>), which the code throws.

  The lemmas show that an address known to be below the floor is never in the refresh set, that
  eviction bounds that set and keeps the most recently seen, and that a lookup returns the balance
  last recorded.
\<close>

record bal_store =
  zactive :: "(string, int) jsmap"
  balKeys :: "(string, string \<times> int) jsmap"
  lowKeys :: "(string, string \<times> int) jsmap"

text \<open>A key with its expiry time, read at a time; both in milliseconds.\<close>

definition live :: "int \<Rightarrow> (string, string \<times> int) jsmap \<Rightarrow> string \<Rightarrow> string option" where
  "live now m k = (case jm_get m k of Some (v, e) \<Rightarrow> if now < e then Some v else None | None \<Rightarrow> None)"

record bal_options =
  negativeTtlSecs :: int
  balanceTtlSecs :: int

text \<open>The sorted set from its lowest score, ties in the members' byte order.\<close>

definition by_rank :: "(string, int) jsmap \<Rightarrow> string list" where
  "by_rank z = map snd (sort (map (\<lambda>(m, s). (s, m)) z))"

text \<open>How many elements ranks \<open>0\<close> to \<open>stop\<close> cover; a negative \<open>stop\<close> counts from the end.\<close>

definition upto_rank :: "int \<Rightarrow> 'a list \<Rightarrow> 'a list" where
  "upto_rank stop xs = take (nat ((if stop < 0 then int (length xs) + stop else stop) + 1)) xs"

definition bal_lookup :: "int \<Rightarrow> string \<Rightarrow> bal_store option \<Rightarrow> int option option \<times> bal_store option" where
  "bal_lookup now address store =
     (case store of None \<Rightarrow> (None, None) | Some st \<Rightarrow>
        let key = lower address in
        case live now (lowKeys st) key of
          Some low \<Rightarrow> (map_option Some (BigInt low), Some st)
        | None \<Rightarrow>
            let st' = st\<lparr>zactive := jm_set key now (zactive st)\<rparr> in
            (case live now (balKeys st) key of
               None \<Rightarrow> (Some None, Some st')
             | Some known \<Rightarrow> (map_option Some (BigInt known), Some st')))"

definition activeAddresses :: "int \<Rightarrow> bal_store \<Rightarrow> string list" where
  "activeAddresses limit st = upto_rank (limit - 1) (by_rank (zactive st))"

definition zadd_nx :: "string \<Rightarrow> int \<Rightarrow> (string, int) jsmap \<Rightarrow> (string, int) jsmap" where
  "zadd_nx k score z = (case jm_get z k of Some _ \<Rightarrow> z | None \<Rightarrow> jm_set k score z)"

definition record_one :: "bal_options \<Rightarrow> int \<Rightarrow> int \<Rightarrow> string \<times> int \<Rightarrow> bal_store \<Rightarrow> bal_store" where
  "record_one opts now floorWei e st =
     (let key = lower (fst e); balance = snd e in
      if floorWei \<le> balance then
        \<lparr>zactive = zadd_nx key now (zactive st),
         balKeys = jm_set key (bigint_str balance, now + balanceTtlSecs opts * 1000) (balKeys st),
         lowKeys = jm_delete key (lowKeys st)\<rparr>
      else
        \<lparr>zactive = jm_delete key (zactive st),
         balKeys = jm_delete key (balKeys st),
         lowKeys = jm_set key (bigint_str balance, now + negativeTtlSecs opts * 1000) (lowKeys st)\<rparr>)"

definition bal_record :: "bal_options \<Rightarrow> int \<Rightarrow> (string \<times> int) list \<Rightarrow> int \<Rightarrow> bal_store \<Rightarrow> bal_store" where
  "bal_record opts now entries floorWei st = fold (record_one opts now floorWei) entries st"

definition bal_evict :: "int \<Rightarrow> int \<Rightarrow> int \<Rightarrow> bal_store \<Rightarrow> int \<times> bal_store" where
  "bal_evict now idleSecs maxSize st =
     (let cutoff = now - idleSecs * 1000;
          fresh = filter (\<lambda>(m, s). cutoff < s) (zactive st);
          oldest = upto_rank (- maxSize - 1) (by_rank fresh);
          kept = filter (\<lambda>(m, s). m \<notin> set oldest) fresh
      in (int (length (zactive st) - length kept), st\<lparr>zactive := kept\<rparr>))"

section \<open>Invariants\<close>

definition values_ok :: "(string, string \<times> int) jsmap \<Rightarrow> bool" where
  "values_ok m \<longleftrightarrow> (\<forall>k v e. jm_get m k = Some (v, e) \<longrightarrow> (\<exists>b\<ge>0. v = bigint_str b))"

definition bal_ok :: "bal_store \<Rightarrow> bool" where
  "bal_ok st \<longleftrightarrow> jm_ok (zactive st) \<and> values_ok (balKeys st) \<and> values_ok (lowKeys st)"

text \<open>An address parked below the floor is in neither the refresh set nor the balance keys.\<close>

definition parked_apart :: "int \<Rightarrow> bal_store \<Rightarrow> bool" where
  "parked_apart now st \<longleftrightarrow> (\<forall>k. live now (lowKeys st) k \<noteq> None \<longrightarrow>
     jm_get (zactive st) k = None \<and> jm_get (balKeys st) k = None)"

lemma live_later: "live now' m k = Some v \<Longrightarrow> now \<le> now' \<Longrightarrow> live now m k = Some v"
  by (auto simp: live_def split: option.splits prod.splits if_splits)

lemma live_set: "live now (jm_set k (v, e) m) k' = (if k' = k then if now < e then Some v else None
    else live now m k')"
  by (auto simp: live_def jsmap)

lemma live_delete: "live now (jm_delete k m) k' = (if k' = k then None else live now m k')"
  by (auto simp: live_def jsmap)

lemma values_ok_set: "values_ok m \<Longrightarrow> 0 \<le> b \<Longrightarrow> values_ok (jm_set k (bigint_str b, e) m)"
  by (auto simp: values_ok_def jsmap)

lemma values_ok_delete: "values_ok m \<Longrightarrow> values_ok (jm_delete k m)"
  by (auto simp: values_ok_def jsmap)

lemma values_okD: "values_ok m \<Longrightarrow> live now m k = Some v \<Longrightarrow> \<exists>b\<ge>0. BigInt v = Some b"
  by (fastforce simp: values_ok_def live_def split: option.splits prod.splits if_splits)

lemma jm_ok_zadd_nx: "jm_ok z \<Longrightarrow> jm_ok (zadd_nx k s z)"
  by (auto simp: zadd_nx_def split: option.split)

lemma get_zadd_nx: "jm_get (zadd_nx k s z) k' =
    (if k' = k then Some (case jm_get z k of Some old \<Rightarrow> old | None \<Rightarrow> s) else jm_get z k')"
  by (auto simp: zadd_nx_def jsmap split: option.split)

lemma record_one_ok: "bal_ok st \<Longrightarrow> 0 \<le> snd e \<Longrightarrow> bal_ok (record_one opts now fl e st)"
  by (auto simp: record_one_def Let_def bal_ok_def values_ok_set values_ok_delete jm_ok_zadd_nx)

lemma record_one_apart:
  assumes "parked_apart now st" shows "parked_apart now (record_one opts now fl e st)"
  unfolding parked_apart_def
proof (intro allI impI)
  fix k assume "live now (lowKeys (record_one opts now fl e st)) k \<noteq> None"
  then show "jm_get (zactive (record_one opts now fl e st)) k = None \<and>
      jm_get (balKeys (record_one opts now fl e st)) k = None"
    using assms unfolding parked_apart_def
    by (simp add: record_one_def Let_def live_set live_delete get_zadd_nx jm_get_set jm_get_delete
        split: if_splits)
qed

lemma bal_record_ok:
  "bal_ok st \<Longrightarrow> \<forall>e \<in> set es. 0 \<le> snd e \<Longrightarrow> bal_ok (bal_record opts now es fl st)"
  by (induction es arbitrary: st) (simp_all add: bal_record_def record_one_ok)

lemma bal_record_apart: "parked_apart now st \<Longrightarrow> parked_apart now (bal_record opts now es fl st)"
  by (induction es arbitrary: st) (simp_all add: bal_record_def record_one_apart)

lemma bal_lookup_apart:
  "parked_apart now st \<Longrightarrow> bal_lookup now a (Some st) = (r, Some st') \<Longrightarrow> parked_apart now st'"
  by (auto simp: bal_lookup_def Let_def parked_apart_def jsmap split: option.splits)

lemma map_of_filter_NoneI: "map_of z k = None \<Longrightarrow> map_of (filter P z) k = None"
  by (auto simp: map_of_eq_None_iff)

lemma bal_evict_apart: "parked_apart now st \<Longrightarrow> parked_apart now (snd (bal_evict now idle mx st))"
  by (auto simp: bal_evict_def Let_def parked_apart_def map_of_filter_NoneI)

lemma parked_apart_later: "parked_apart now st \<Longrightarrow> now \<le> now' \<Longrightarrow> parked_apart now' st"
  unfolding parked_apart_def using live_later by blast

section \<open>Eviction\<close>

lemma by_rank_mset: "mset (by_rank z) = mset (map fst z)"
proof -
  have "mset (by_rank z) = image_mset snd (mset (map (\<lambda>(m, s). (s, m)) z))" by (simp add: by_rank_def)
  also have "\<dots> = mset (map snd (map (\<lambda>(m, s). (s, m)) z))" by (simp only: mset_map)
  finally show ?thesis by (simp add: case_prod_beta' comp_def)
qed

lemma filter_rank_length:
  assumes "jm_ok z"
  shows "length (filter (\<lambda>(m, s). m \<notin> set (take n (by_rank z))) z) = length z - n"
proof -
  let ?S = "set (take n (by_rank z))"
  have d: "distinct (by_rank z)"
    using assms by_rank_mset [of z] by (metis jm_ok_def mset_eq_imp_distinct_iff)
  have len: "length (by_rank z) = length z"
    using arg_cong [OF by_rank_mset [of z], of size] by simp
  have "filter (\<lambda>m. m \<notin> ?S) (by_rank z) = filter (\<lambda>m. m \<notin> ?S) (take n (by_rank z) @ drop n (by_rank z))"
    by simp
  also have "\<dots> = drop n (by_rank z)"
    using d set_take_disj_set_drop_if_distinct [OF d, of n n]
    by (simp only: filter_append) (auto simp: filter_id_conv filter_empty_conv)
  finally have "length (filter (\<lambda>m. m \<notin> ?S) (by_rank z)) = length z - n" by (simp add: len)
  moreover have "length (filter (\<lambda>m. m \<notin> ?S) (by_rank z)) = length (filter (\<lambda>m. m \<notin> ?S) (map fst z))"
    using by_rank_mset [of z] by (metis mset_filter size_mset)
  moreover have "length (filter (\<lambda>m. m \<notin> ?S) (map fst z)) = length (filter (\<lambda>(m, s). m \<notin> ?S) z)"
    by (simp add: filter_map comp_def case_prod_beta')
  ultimately show ?thesis by simp
qed

lemma rank_order:
  assumes ok: "jm_ok z" and out: "(m, s) \<in> set z" "m \<in> set (take n (by_rank z))"
    and kept: "(m', s') \<in> set z" "m' \<notin> set (take n (by_rank z))"
  shows "s \<le> s'"
proof -
  define L where "L = sort (map (\<lambda>(m, s). (s, m)) z)"
  have L: "set L = (\<lambda>(m, s). (s, m)) ` set z" "sorted L" and rank: "by_rank z = map snd L"
    by (auto simp: L_def by_rank_def)
  obtain t where t: "(t, m) \<in> set (take n L)" using out(2) by (auto simp: rank take_map)
  then have "(m, t) \<in> set z" using L(1) in_set_takeD [OF t] by auto
  then have "t = s" using ok out(1) jm_get_in [OF ok] by force
  moreover have "(s', m') \<in> set L" "(s', m') \<notin> set (take n L)"
    using kept L(1) by (force simp: rank take_map)+
  then have "(s', m') \<in> set (drop n L)" by (metis Un_iff append_take_drop_id set_append)
  moreover have "\<forall>x \<in> set (take n L). \<forall>y \<in> set (drop n L). x \<le> y"
    using L(2) by (metis append_take_drop_id sorted_append)
  ultimately have "(s, m) \<le> (s', m')" using t by blast
  then show ?thesis by (auto simp: less_eq_prod_def)
qed

text \<open>
  One eviction bounds the refresh set by the configured size and by idle time, and what it
  drops beyond the idle addresses is never more recently seen than what it keeps; the count it
  reports is the number of addresses dropped.
\<close>

theorem evict_bounds_refresh_set:
  assumes "bal_ok st" "0 \<le> mx"
  shows "int (length (zactive (snd (bal_evict now idle mx st)))) \<le> mx \<and>
    fst (bal_evict now idle mx st) =
      int (length (zactive st) - length (zactive (snd (bal_evict now idle mx st)))) \<and>
    (\<forall>(m, s) \<in> set (zactive (snd (bal_evict now idle mx st))).
       (m, s) \<in> set (zactive st) \<and> now - idle * 1000 < s \<and>
       (\<forall>(m', s') \<in> set (zactive st) - set (zactive (snd (bal_evict now idle mx st))).
          now - idle * 1000 < s' \<longrightarrow> s' \<le> s))"
proof -
  define fresh where "fresh = filter (\<lambda>(m, s). now - idle * 1000 < s) (zactive st)"
  define n where "n = nat (int (length (by_rank fresh)) - mx)"
  define kept where "kept = filter (\<lambda>(m, s). m \<notin> set (take n (by_rank fresh))) fresh"
  have ok: "jm_ok fresh" using assms(1) by (simp add: fresh_def bal_ok_def jm_ok_def distinct_map_filter)
  have old: "upto_rank (- mx - 1) (by_rank fresh) = take n (by_rank fresh)"
    using assms(2) by (simp add: upto_rank_def n_def)
  have ev: "bal_evict now idle mx st =
      (int (length (zactive st) - length kept), st\<lparr>zactive := kept\<rparr>)"
    by (simp only: bal_evict_def Let_def fresh_def [symmetric] old kept_def [symmetric])
  have len: "length kept = length fresh - n"
    unfolding kept_def by (rule filter_rank_length [OF ok])
  have "length (by_rank fresh) = length fresh"
    using arg_cong [OF by_rank_mset [of fresh], of size] by simp
  then have "int (length kept) \<le> mx" using len assms(2) by (simp add: n_def)
  moreover have "(m, s) \<in> set (zactive st) \<and> now - idle * 1000 < s" if "(m, s) \<in> set kept" for m s
    using that by (auto simp: kept_def fresh_def)
  moreover have "s' \<le> s" if "(m, s) \<in> set kept" "(m', s') \<in> set (zactive st) - set kept"
      "now - idle * 1000 < s'" for m s m' s'
    using that rank_order [OF ok, of m' s' n m s] by (auto simp: kept_def fresh_def)
  ultimately show ?thesis unfolding ev by auto
qed

theorem evict_bounds_refresh_set_witness:
  "int (length (zactive (snd (bal_evict 5000 2 1
     \<lparr>zactive = [(''b'', 4000), (''a'', 4500), (''c'', 2000)], balKeys = [], lowKeys = []\<rparr>)))) \<le> 1"
  using evict_bounds_refresh_set [of "\<lparr>zactive = [(''b'', 4000), (''a'', 4500), (''c'', 2000)],
     balKeys = [], lowKeys = []\<rparr>" 1 5000 2]
  by (simp add: bal_ok_def jm_ok_def values_ok_def)

section \<open>The cache the request path reads\<close>

text \<open>
  The contract of \<open>BalanceCache.lookup\<close>: addresses are compared without case, a balance it knows is
  not negative, and a lookup keeps the store's invariant. \<open>unknownBalances\<close> is the stub.
\<close>

locale balance_cache =
  fixes lookup :: "int \<Rightarrow> string \<Rightarrow> 's \<Rightarrow> int option option \<times> 's" and ok :: "'s \<Rightarrow> bool"
  assumes lookup_ok: "ok s \<Longrightarrow> ok (snd (lookup now a s))"
    and lookup_case: "lower a = lower b \<Longrightarrow> lookup now a s = lookup now b s"
    and lookup_nonneg: "ok s \<Longrightarrow> fst (lookup now a s) = Some (Some v) \<Longrightarrow> 0 \<le> v"
begin

lemma lookup_lower: "lookup now (lower a) s = lookup now a s"
  by (rule lookup_case) simp

lemma known_or_zero_nonneg:
  "ok s \<Longrightarrow> fst (lookup now a s) = Some bal \<Longrightarrow> 0 \<le> (case bal of None \<Rightarrow> 0 | Some v \<Rightarrow> v)"
  by (auto dest: lookup_nonneg split: option.split)

end

definition unknownBalances :: "int \<Rightarrow> string \<Rightarrow> unit \<Rightarrow> int option option \<times> unit" where
  "unknownBalances now address s = (Some None, s)"

interpretation unknown: balance_cache unknownBalances "\<lambda>_. True"
  by unfold_locales (auto simp: unknownBalances_def)

definition bal_store_ok :: "bal_store option \<Rightarrow> bool" where
  "bal_store_ok s \<longleftrightarrow> (case s of None \<Rightarrow> True | Some st \<Rightarrow> bal_ok st)"

lemma bal_lookup_values:
  assumes "bal_ok st" "bal_lookup now a (Some st) = (Some (Some v), s')"
  shows "0 \<le> v"
  using assms values_okD [of "lowKeys st" now "lower a"] values_okD [of "balKeys st" now "lower a"]
  by (auto simp: bal_lookup_def Let_def bal_ok_def split: option.splits)

interpretation cache: balance_cache bal_lookup bal_store_ok
proof
  fix s now a assume "bal_store_ok s"
  then show "bal_store_ok (snd (bal_lookup now a s))"
    by (auto simp: bal_store_ok_def bal_lookup_def bal_ok_def Let_def jm_ok_set split: option.splits)
next
  fix a b now s assume eq: "lower a = lower b"
  show "bal_lookup now a s = bal_lookup now b s" unfolding bal_lookup_def eq by (rule refl)
next
  fix s now a v assume "bal_store_ok s" "fst (bal_lookup now a s) = Some (Some v)"
  then show "0 \<le> v"
    by (cases s) (auto simp: bal_store_ok_def bal_lookup_def [of _ _ None]
        intro: bal_lookup_values [OF _ prod_eqI])
qed

section \<open>The refresh tick\<close>

text \<open>
  \<open>runBalanceRefresh\<close>. The batched escrow read is a parameter: \<open>None\<close> is a failed call, an absent
  or \<open>None\<close> element a failed read of one address. The batch size is positive (config.ts); with a
  zero batch size the JavaScript loop would not advance.
\<close>

definition fetched_entries :: "string list \<Rightarrow> int option list \<Rightarrow> (string \<times> int) list" where
  "fetched_entries batch balances =
     concat (map (\<lambda>(j, address). case (if j < length balances then balances ! j else None) of
         None \<Rightarrow> [] | Some balance \<Rightarrow> [(address, balance)]) (enumerate 0 batch))"

function refresh_batches :: "bal_options \<Rightarrow> int \<Rightarrow> int \<Rightarrow> (string list \<Rightarrow> int option list option) \<Rightarrow> nat \<Rightarrow>
    string list \<Rightarrow> bal_store \<Rightarrow> bal_store" where
  "refresh_batches opts now fl fetch chunk addresses st =
     (if addresses = [] \<or> chunk = 0 then st
      else refresh_batches opts now fl fetch chunk (drop chunk addresses)
        (case fetch (take chunk addresses) of
           None \<Rightarrow> st
         | Some balances \<Rightarrow>
             bal_record opts now (fetched_entries (take chunk addresses) balances) fl st))"
  by pat_completeness auto
termination by (relation "measure (\<lambda>(_, _, _, _, _, addresses, _). length addresses)") auto

declare refresh_batches.simps [simp del]

definition runBalanceRefresh :: "bal_options \<Rightarrow> int \<Rightarrow> int \<Rightarrow> int \<Rightarrow> int \<Rightarrow> nat \<Rightarrow>
    (string list \<Rightarrow> int option list option) \<Rightarrow> bal_store option \<Rightarrow> bal_store option" where
  "runBalanceRefresh opts now fl evictionSecs maxActive batchSize fetch store =
     (case store of None \<Rightarrow> None | Some st \<Rightarrow>
        let st' = snd (bal_evict now evictionSecs maxActive st) in
        Some (refresh_batches opts now fl fetch batchSize (activeAddresses maxActive st') st'))"

definition entry_of :: "bal_store \<Rightarrow> string \<Rightarrow> int option \<times> (string \<times> int) option \<times> (string \<times> int) option" where
  "entry_of st k = (jm_get (zactive st) k, jm_get (balKeys st) k, jm_get (lowKeys st) k)"

lemma record_one_other: "lower (fst e) \<noteq> k \<Longrightarrow> entry_of (record_one opts now fl e st) k = entry_of st k"
  by (auto simp: entry_of_def record_one_def Let_def get_zadd_nx jm_get_set jm_get_delete)

lemma bal_record_other:
  "\<forall>e \<in> set es. lower (fst e) \<noteq> k \<Longrightarrow> entry_of (bal_record opts now es fl st) k = entry_of st k"
  by (induction es arbitrary: st) (simp_all add: bal_record_def record_one_other)

lemma fetched_entriesD:
  assumes "e \<in> set (fetched_entries batch bs)"
  shows "\<exists>i < length batch. i < length bs \<and> batch ! i = fst e \<and> bs ! i = Some (snd e)"
proof -
  obtain j a where j: "(j, a) \<in> set (enumerate 0 batch)"
    and e: "e \<in> set (case (if j < length bs then bs ! j else None) of
         None \<Rightarrow> [] | Some balance \<Rightarrow> [(a, balance)])"
    using assms by (auto simp: fetched_entries_def)
  have "j < length batch" "batch ! j = a" using j by (auto simp: in_set_enumerate_eq)
  then show ?thesis using e by (auto split: if_splits option.splits)
qed

definition read_fails :: "(string list \<Rightarrow> int option list option) \<Rightarrow> string \<Rightarrow> bool" where
  "read_fails fetch k \<longleftrightarrow> (\<forall>batch bs i. fetch batch = Some bs \<longrightarrow> i < length batch \<longrightarrow>
     lower (batch ! i) = k \<longrightarrow> i < length bs \<longrightarrow> bs ! i = None)"

lemma refresh_batches_other:
  "read_fails fetch k \<Longrightarrow>
   entry_of (refresh_batches opts now fl fetch chunk addresses st) k = entry_of st k"
proof (induction opts now fl fetch chunk addresses st rule: refresh_batches.induct)
  case (1 opts now fl fetch chunk addresses st)
  have "entry_of (case fetch (take chunk addresses) of None \<Rightarrow> st | Some balances \<Rightarrow>
          bal_record opts now (fetched_entries (take chunk addresses) balances) fl st) k = entry_of st k"
  proof (cases "fetch (take chunk addresses)")
    case (Some bs)
    have "lower (fst e) \<noteq> k" if "e \<in> set (fetched_entries (take chunk addresses) bs)" for e
      using fetched_entriesD [OF that] Some 1(2) unfolding read_fails_def by fastforce
    then show ?thesis using Some by (simp add: bal_record_other)
  qed simp
  then show ?case using 1 by (subst refresh_batches.simps) simp
qed

text \<open>
  A dropped RPC read never costs a sub-solver its standing: a refresh tick in which every read
  of an address fails leaves that address's cached balance and its below-floor mark as they were,
  and its place in the refresh set as eviction left it.
\<close>

theorem refresh_keeps_unread:
  assumes "read_fails fetch k" "runBalanceRefresh opts now fl idle mx n fetch (Some st) = Some st'"
  shows "jm_get (balKeys st') k = jm_get (balKeys st) k \<and> jm_get (lowKeys st') k = jm_get (lowKeys st) k \<and>
    jm_get (zactive st') k = jm_get (zactive (snd (bal_evict now idle mx st))) k"
  using assms refresh_batches_other [of fetch k opts now fl n
      "activeAddresses mx (snd (bal_evict now idle mx st))" "snd (bal_evict now idle mx st)"]
  by (auto simp: runBalanceRefresh_def Let_def entry_of_def bal_evict_def)

theorem refresh_keeps_unread_witness:
  "jm_get (balKeys (the (runBalanceRefresh \<lparr>negativeTtlSecs = 600, balanceTtlSecs = 3600\<rparr> 5000 7 10 5 2
     (\<lambda>b. None) (Some \<lparr>zactive = [(''a'', 4500)], balKeys = [(''a'', (''9'', 9000))], lowKeys = []\<rparr>))))
     ''a'' = Some (''9'', 9000)"
  using refresh_keeps_unread [of "\<lambda>b. None" "''a''" "\<lparr>negativeTtlSecs = 600, balanceTtlSecs = 3600\<rparr>"
      5000 7 10 5 2 "\<lparr>zactive = [(''a'', 4500)], balKeys = [(''a'', (''9'', 9000))], lowKeys = []\<rparr>"]
  by (simp add: read_fails_def runBalanceRefresh_def Let_def)

section \<open>The cache over time\<close>

text \<open>
  The cache as the requests and the refresh job drive it: time passes, requests look balances up,
  the tick evicts and records escrow reads (balances are not negative).
\<close>

inductive bal_step :: "int \<times> bal_store \<Rightarrow> int \<times> bal_store \<Rightarrow> bool" where
  bal_time: "now \<le> now' \<Longrightarrow> bal_step (now, st) (now', st)"
| bal_request: "bal_lookup now a (Some st) = (r, Some st') \<Longrightarrow> bal_step (now, st) (now, st')"
| bal_evicts: "bal_step (now, st) (now, snd (bal_evict now idle mx st))"
| bal_records: "\<forall>e \<in> set es. 0 \<le> snd e \<Longrightarrow> bal_step (now, st) (now, bal_record opts now es fl st)"

definition bal_init :: "int \<times> bal_store \<Rightarrow> bool" where
  "bal_init s \<longleftrightarrow> zactive (snd s) = [] \<and> balKeys (snd s) = [] \<and> lowKeys (snd s) = []"

definition bal_inv :: "int \<times> bal_store \<Rightarrow> bool" where
  "bal_inv s \<longleftrightarrow> bal_ok (snd s) \<and> parked_apart (fst s) (snd s)"

inductive_cases bal_stepE: "bal_step (now, st) s'"

lemma bal_lookup_ok: "bal_ok st \<Longrightarrow> bal_lookup now a (Some st) = (r, Some st') \<Longrightarrow> bal_ok st'"
  by (auto simp: bal_lookup_def bal_ok_def Let_def jm_ok_set split: option.splits)

lemma bal_evict_ok: "bal_ok st \<Longrightarrow> bal_ok (snd (bal_evict now idle mx st))"
  by (auto simp: bal_evict_def Let_def bal_ok_def jm_ok_def intro!: distinct_map_filter)

interpretation balances: invariant_machine bal_init bal_step bal_inv
proof
  fix s assume "bal_init s"
  then show "bal_inv s"
    by (auto simp: bal_init_def bal_inv_def bal_ok_def values_ok_def parked_apart_def)
next
  fix s s' assume inv: "bal_inv s" and step: "bal_step s s'"
  show "bal_inv s'"
    using step
  proof cases
    case (bal_time now now' st)
    then show ?thesis using inv by (auto simp: bal_inv_def intro: parked_apart_later)
  next
    case (bal_request now a st r st')
    then show ?thesis using inv
      by (auto simp: bal_inv_def intro: bal_lookup_ok [OF _ bal_request(3)] bal_lookup_apart [OF _ bal_request(3)])
  next
    case (bal_evicts now st idle mx)
    then show ?thesis using inv by (simp add: bal_inv_def bal_evict_ok bal_evict_apart)
  next
    case (bal_records es now st opts fl)
    then show ?thesis using inv by (simp add: bal_inv_def bal_record_ok bal_record_apart)
  qed
qed

text \<open>
  Fresh key pairs cannot grow the refresh population: at every moment of the cache's life, an
  address whose below-floor mark is still live is in neither the refresh set nor the balance cache,
  and a request from it is answered from the mark without entering either.
\<close>

theorem parked_never_refreshed:
  assumes "reachable bal_init bal_step (now, st)" "live now (lowKeys st) (lower a) = Some v"
  shows "jm_get (zactive st) (lower a) = None \<and> jm_get (balKeys st) (lower a) = None \<and>
    (\<exists>b\<ge>0. bal_lookup now a (Some st) = (Some (Some b), Some st))"
proof -
  have inv: "bal_inv (now, st)" using assms(1) by (rule balances.reachable_inv)
  then obtain b where "0 \<le> b" "BigInt v = Some b"
    using values_okD [OF _ assms(2)] by (auto simp: bal_inv_def bal_ok_def)
  then show ?thesis
    using inv assms(2) by (auto simp: bal_inv_def parked_apart_def bal_lookup_def Let_def)
qed

theorem parked_never_refreshed_witness:
  "\<exists>st. reachable bal_init bal_step (0, st) \<and> live 0 (lowKeys st) ''a'' = Some (bigint_str 1) \<and>
     jm_get (zactive st) ''a'' = None"
proof -
  let ?o = "\<lparr>negativeTtlSecs = 600, balanceTtlSecs = 3600\<rparr>"
  let ?s0 = "\<lparr>zactive = [], balKeys = [], lowKeys = []\<rparr>"
  let ?s1 = "bal_record ?o 0 [(''a'', 1)] 7 ?s0"
  have "reachable bal_init bal_step (0, ?s0)"
    by (rule reach_init) (simp add: bal_init_def)
  then have r: "reachable bal_init bal_step (0, ?s1)"
    by (rule reach_step) (rule bal_records, simp)
  have l: "lower ''a'' = ''a''" by code_simp
  have v: "live 0 (lowKeys ?s1) ''a'' = Some (bigint_str 1)"
    by (simp add: bal_record_def record_one_def Let_def live_def l)
  show ?thesis
    using r v parked_never_refreshed [of 0 ?s1 "''a''" "bigint_str 1"] by (auto simp: l)
qed

end
