(* ===== verification/Middleware.thy ===== *)
theory Middleware
  imports Rate_Limit Balance_Store
begin

text \<open>
  \<open>apps/byos/src/infra/api/error.ts\<close> and \<open>middleware.ts\<close>: error kinds and their HTTP status, the
  bearer guard of the driver-facing listener, the signature header, the per-IP and per-signer
  budgets and the escrow floor gate. An operation that throws returns the \<open>AppError\<close> as \<open>Inl\<close>.

  The budgets are written over any limiter and any balance cache; the locale \<open>signer_gate\<close> proves
  what they answer from the contracts of both, and is interpreted on the stubs and on Redis.
\<close>

section \<open>Error kinds\<close>

datatype api_kind =
  K_InvalidSignature | K_SignatureRecoveryFailed | K_Eip1271NotAvailable | K_InsufficientEscrow
| K_ProposalExpired | K_ProposalLifetimeExceeded | K_ProposalNotFound | K_ProposalNotCancellable
| K_NonceAlreadyUsed | K_SubsolverNotAllowed | K_BadRequest | K_RateLimited | K_ServiceUnavailable
| K_Internal | K_NoActiveAuction | K_UnknownOrder | K_ProposalRejected

fun STATUS_MAP :: "api_kind \<Rightarrow> int option" where
  "STATUS_MAP K_InvalidSignature = Some 400"
| "STATUS_MAP K_SignatureRecoveryFailed = Some 400"
| "STATUS_MAP K_BadRequest = Some 400"
| "STATUS_MAP K_ProposalExpired = Some 400"
| "STATUS_MAP K_ProposalLifetimeExceeded = Some 400"
| "STATUS_MAP K_InsufficientEscrow = Some 403"
| "STATUS_MAP K_ProposalNotFound = Some 404"
| "STATUS_MAP K_ProposalNotCancellable = Some 409"
| "STATUS_MAP K_NonceAlreadyUsed = Some 409"
| "STATUS_MAP K_RateLimited = Some 429"
| "STATUS_MAP K_Internal = Some 500"
| "STATUS_MAP K_ServiceUnavailable = Some 503"
| "STATUS_MAP K_Eip1271NotAvailable = Some 503"
| "STATUS_MAP K_NoActiveAuction = Some 400"
| "STATUS_MAP K_UnknownOrder = Some 400"
| "STATUS_MAP K_ProposalRejected = Some 400"
| "STATUS_MAP _ = None"

record app_error =
  errorKind :: api_kind
  statusCode :: int
  retryAfterSecs :: "int option"

definition AppError :: "api_kind \<Rightarrow> int option \<Rightarrow> app_error" where
  "AppError kind retry =
     \<lparr>errorKind = kind, statusCode = (case STATUS_MAP kind of Some c \<Rightarrow> c | None \<Rightarrow> 500),
      retryAfterSecs = retry\<rparr>"

text \<open>\<open>errorHandler\<close>: the status, the kind and the Retry-After header of the response.\<close>

definition errorHandler :: "app_error option \<Rightarrow> int \<times> api_kind \<times> int option" where
  "errorHandler err = (case err of
       Some e \<Rightarrow> (statusCode e, errorKind e, retryAfterSecs e)
     | None \<Rightarrow> (500, K_Internal, None))"

lemma AppError_simps [simp]:
  "errorKind (AppError k r) = k" "retryAfterSecs (AppError k r) = r"
  by (simp_all add: AppError_def)

text \<open>A refusal by the whitelist has no entry in the map and is answered as a server error.\<close>

lemma whitelist_refusal_is_500: "errorHandler (Some (AppError K_SubsolverNotAllowed None)) = (500, K_SubsolverNotAllowed, None)"
  by (simp add: errorHandler_def AppError_def)

section \<open>Headers\<close>

definition index_of :: "char \<Rightarrow> string \<Rightarrow> nat option" where
  "index_of c s = (let n = length (takeWhile (\<lambda>x. x \<noteq> c) s) in if n < length s then Some n else None)"

text \<open>\<open>bearerAuth\<close>: whether the request passes; otherwise it is answered 401.\<close>

definition bearerAuthorized :: "string \<Rightarrow> string option \<Rightarrow> bool" where
  "bearerAuthorized expectedToken header =
     (case header of None \<Rightarrow> False | Some h \<Rightarrow>
        (case index_of (CHR '' '') h of None \<Rightarrow> False | Some space \<Rightarrow>
           0 < space \<and> lower (take space h) = ''bearer'' \<and> drop (space + 1) h = expectedToken))"

definition extractSignature :: "string option \<Rightarrow> app_error + string" where
  "extractSignature header =
     (case header of None \<Rightarrow> Inl (AppError K_InvalidSignature None) | Some sig \<Rightarrow>
        if sig = '''' then Inl (AppError K_InvalidSignature None)
        else if \<not> hexString sig then Inl (AppError K_InvalidSignature None)
        else let bare = strip_0x sig in
          if length bare \<noteq> 130 then Inl (AppError K_InvalidSignature None)
          else Inr (''0x'' @ bare))"

lemma index_of_app: "c \<notin> set s \<Longrightarrow> index_of c (s @ c # t) = Some (length s)"
  by (induction s) (auto simp: index_of_def Let_def split: if_splits)

text \<open>
  The bearer guard admits exactly the headers that carry the configured token: a header passes
  if and only if it is some casing of \<open>Bearer\<close>, one space, and the token itself, compared exactly.
\<close>

theorem bearer_exact:
  "bearerAuthorized tok header \<longleftrightarrow>
     (\<exists>scheme. header = Some (scheme @ '' '' @ tok) \<and> lower scheme = ''bearer'')"
proof
  assume auth: "bearerAuthorized tok header"
  then obtain h n where h: "header = Some h" "index_of (CHR '' '') h = Some n"
      "lower (take n h) = ''bearer''" "drop (n + 1) h = tok"
    by (auto simp: bearerAuthorized_def split: option.splits)
  then have n: "n = length (takeWhile (\<lambda>x. x \<noteq> CHR '' '') h)" "n < length h"
    by (auto simp: index_of_def Let_def split: if_splits)
  have "h ! n = CHR '' ''" using n nth_length_takeWhile [of "\<lambda>x. x \<noteq> CHR '' ''" h] by auto
  then have "h = take n h @ '' '' @ tok" using n(2) h(4) id_take_nth_drop [of n h] by simp
  then show "\<exists>scheme. header = Some (scheme @ '' '' @ tok) \<and> lower scheme = ''bearer''"
    using h by blast
next
  assume "\<exists>scheme. header = Some (scheme @ '' '' @ tok) \<and> lower scheme = ''bearer''"
  then obtain scheme where s: "header = Some (scheme @ '' '' @ tok)" "lower scheme = ''bearer''" by blast
  have "CHR '' '' \<notin> set scheme"
  proof
    assume "CHR '' '' \<in> set scheme"
    then have "lower_char (CHR '' '') \<in> set (lower scheme)" by (auto simp: lower_def)
    moreover have "lower_char (CHR '' '') = CHR '' ''" by code_simp
    ultimately show False using s(2) by simp
  qed
  then have "index_of (CHR '' '') (scheme @ '' '' @ tok) = Some (length scheme)"
    using index_of_app [of "CHR '' ''" scheme tok] by simp
  moreover have "scheme \<noteq> []" using s(2) by auto
  ultimately show "bearerAuthorized tok header" using s by (simp add: bearerAuthorized_def)
qed

lemma extractSignature_Inr:
  "extractSignature h = Inr s \<Longrightarrow> has_0x s \<and> length s = 132 \<and> hexString s"
  by (auto simp: extractSignature_def Let_def has_0x_def hexString_def strip_0x_def
      split: option.splits if_splits)

section \<open>Budgets\<close>

definition STORE_RETRY_AFTER_SECS :: int where
  "STORE_RETRY_AFTER_SECS = 5"

text \<open>Time is in milliseconds and the same for the whole request.\<close>

definition retryAfter :: "int \<Rightarrow> int \<Rightarrow> int" where
  "retryAfter now reset = max 1 (reset - now div 1000)"

definition checkBudget :: "'l limiter \<Rightarrow> int \<Rightarrow> string \<Rightarrow> int \<Rightarrow> int \<Rightarrow> 'l \<Rightarrow>
    (app_error + limit_decision) \<times> 'l" where
  "checkBudget limiter now key limit windowSecs l =
     (case limiter now key limit windowSecs l of
        (None, l') \<Rightarrow> (Inl (AppError K_ServiceUnavailable (Some STORE_RETRY_AFTER_SECS)), l')
      | (Some d, l') \<Rightarrow> (Inr d, l'))"

definition ipRateLimit :: "'l limiter \<Rightarrow> string list \<Rightarrow> int \<Rightarrow> int \<Rightarrow> int \<Rightarrow> string \<Rightarrow> string \<Rightarrow> 'l \<Rightarrow>
    (app_error + unit) \<times> 'l" where
  "ipRateLimit limiter exemptPaths limit windowSecs now path clientIp l =
     (if path \<in> set exemptPaths then (Inr (), l)
      else case checkBudget limiter now (''ip:'' @ clientIp) limit windowSecs l of
        (Inl e, l') \<Rightarrow> (Inl e, l')
      | (Inr d, l') \<Rightarrow>
          if \<not> allowed d then (Inl (AppError K_RateLimited (Some (retryAfter now (resetAt d)))), l')
          else (Inr (), l'))"

text \<open>The address an IP budget is keyed on: the header when it is not empty, then the peer.\<close>

definition clientIp :: "string option \<Rightarrow> string option \<Rightarrow> string" where
  "clientIp cfConnectingIp remoteAddress =
     (if \<not> falsy cfConnectingIp then the cfConnectingIp
      else case remoteAddress of Some a \<Rightarrow> a | None \<Rightarrow> ''unknown'')"

record signer_limit_config =
  sl_tier :: tier_params
  sl_windowSecs :: int
  sl_floorWei :: int

definition readBalance :: "(int \<Rightarrow> string \<Rightarrow> 'b \<Rightarrow> int option option \<times> 'b) \<Rightarrow> int \<Rightarrow> string \<Rightarrow> 'b \<Rightarrow>
    (app_error + int option) \<times> 'b" where
  "readBalance balances now signer b =
     (case balances now signer b of
        (None, b') \<Rightarrow> (Inl (AppError K_ServiceUnavailable (Some STORE_RETRY_AFTER_SECS)), b')
      | (Some v, b') \<Rightarrow> (Inr v, b'))"

text \<open>A tier without a unit makes \<open>rateForBalance\<close> throw, an internal error.\<close>

definition signerKey :: "string \<Rightarrow> string" where
  "signerKey signer = ''signer:'' @ lower signer"

definition enforceSignerLimit :: "'l limiter \<Rightarrow> (int \<Rightarrow> string \<Rightarrow> 'b \<Rightarrow> int option option \<times> 'b) \<Rightarrow>
    signer_limit_config \<Rightarrow> bool \<Rightarrow> int \<Rightarrow> string \<Rightarrow> 'l \<times> 'b \<Rightarrow> (app_error + unit) \<times> ('l \<times> 'b)" where
  "enforceSignerLimit limiter balances cfg enforceEscrowFloor now signer s =
     (case readBalance balances now signer (snd s) of
        (Inl e, b) \<Rightarrow> (Inl e, (fst s, b))
      | (Inr balance, b) \<Rightarrow>
          if enforceEscrowFloor \<and> (case balance of Some v \<Rightarrow> v < sl_floorWei cfg | None \<Rightarrow> False)
          then (Inl (AppError K_InsufficientEscrow None), (fst s, b))
          else case rateForBalance (case balance of None \<Rightarrow> 0 | Some v \<Rightarrow> v) (sl_tier cfg) of
            None \<Rightarrow> (Inl (AppError K_Internal None), (fst s, b))
          | Some rate \<Rightarrow>
              (case checkBudget limiter now (signerKey signer) rate (sl_windowSecs cfg) (fst s) of
                 (Inl e, l) \<Rightarrow> (Inl e, (l, b))
               | (Inr d, l) \<Rightarrow>
                   if \<not> allowed d
                   then (Inl (AppError K_RateLimited (Some (retryAfter now (resetAt d)))), (l, b))
                   else (Inr (), (l, b))))"

section \<open>What a request can be answered\<close>

text \<open>The two contracts a public route is behind.\<close>

locale signer_gate =
  rate_limiter checkLimit lok + balance_cache lookup bok
  for checkLimit :: "'l limiter" and lok :: "'l \<Rightarrow> bool"
    and lookup :: "int \<Rightarrow> string \<Rightarrow> 'b \<Rightarrow> int option option \<times> 'b" and bok :: "'b \<Rightarrow> bool"
begin

lemma checkBudget_cases:
  assumes "lok l" "0 < win"
  shows "(case fst (checkBudget checkLimit now key limit win l) of
           Inl e \<Rightarrow> errorKind e = K_ServiceUnavailable \<and> retryAfterSecs e = Some STORE_RETRY_AFTER_SECS
         | Inr d \<Rightarrow> 1 \<le> retryAfter now (resetAt d) \<and> retryAfter now (resetAt d) \<le> win) \<and>
         lok (snd (checkBudget checkLimit now key limit win l))"
  using ok_step [OF assms(1), of now key limit win] retry_bounds [OF assms(1) _ assms(2), of now key limit]
  by (auto simp: checkBudget_def retryAfter_def split: prod.splits option.splits)

lemma enforce_outcome:
  assumes "lok l" "bok b" "tier_ok (sl_tier cfg)" "0 < sl_windowSecs cfg"
  shows "case fst (enforceSignerLimit checkLimit lookup cfg gate now signer (l, b)) of
      Inr _ \<Rightarrow> True
    | Inl e \<Rightarrow>
        errorKind e = K_ServiceUnavailable \<and> retryAfterSecs e = Some STORE_RETRY_AFTER_SECS \<or>
        errorKind e = K_InsufficientEscrow \<and> gate \<and>
          (\<exists>v. fst (lookup now signer b) = Some (Some v) \<and> v < sl_floorWei cfg) \<or>
        errorKind e = K_RateLimited \<and>
          (\<exists>t. retryAfterSecs e = Some t \<and> 1 \<le> t \<and> t \<le> sl_windowSecs cfg)"
proof -
  obtain r b' where lu: "lookup now signer b = (r, b')" by (cases "lookup now signer b")
  show ?thesis
  proof (cases r)
    case None
    then show ?thesis by (simp add: enforceSignerLimit_def readBalance_def lu)
  next
    case (Some bal)
    let ?v = "case bal of None \<Rightarrow> 0 | Some v \<Rightarrow> v"
    have "0 \<le> ?v" using known_or_zero_nonneg [OF assms(2), of now signer bal] lu Some by simp
    then obtain rate where rate: "rateForBalance ?v (sl_tier cfg) = Some rate"
      using assms(3) by (simp add: rateForBalance_eq)
    obtain x l' where cb: "checkBudget checkLimit now (signerKey signer) rate (sl_windowSecs cfg) l
        = (x, l')" by fastforce
    have x: "case x of Inl e \<Rightarrow> errorKind e = K_ServiceUnavailable \<and> retryAfterSecs e = Some STORE_RETRY_AFTER_SECS
       | Inr d \<Rightarrow> 1 \<le> retryAfter now (resetAt d) \<and> retryAfter now (resetAt d) \<le> sl_windowSecs cfg"
      using checkBudget_cases [OF assms(1,4), of now "signerKey signer" rate] cb by simp
    have rest: "fst (enforceSignerLimit checkLimit lookup cfg gate now signer (l, b)) =
       (if gate \<and> (case bal of Some v \<Rightarrow> v < sl_floorWei cfg | None \<Rightarrow> False)
        then Inl (AppError K_InsufficientEscrow None)
        else case x of Inl e \<Rightarrow> Inl e
          | Inr d \<Rightarrow> if \<not> allowed d
              then Inl (AppError K_RateLimited (Some (retryAfter now (resetAt d)))) else Inr ())"
      using rate by (auto simp: enforceSignerLimit_def readBalance_def lu Some cb split: sum.splits)
    show ?thesis unfolding rest
      using x lu Some by (auto split: sum.splits option.splits)
  qed
qed

lemma enforce_case:
  "lower a = lower a' \<Longrightarrow>
   enforceSignerLimit checkLimit lookup cfg gate now a s = enforceSignerLimit checkLimit lookup cfg gate now a' s"
  unfolding enforceSignerLimit_def readBalance_def signerKey_def by (simp only: lookup_case [of a a'])

end

interpretation stub_gate: signer_gate allowAll "\<lambda>_. True" unknownBalances "\<lambda>_. True"
  by unfold_locales

interpretation redis_gate: signer_gate "redisCheckLimit p" counters_store_ok bal_lookup bal_store_ok for p
  by unfold_locales

text \<open>
  C38. Behind Redis, the per-signer gate answers only what the API documents: it admits, or it
  answers 503 with the fixed retry when a store is down, 403 only on writes and only for a signer
  whose cached balance is known and below the floor, or 429 with a wait between one second and the
  window. Reads and cancellations are never refused for escrow, and an unknown signer never is.
\<close>

theorem signer_gate_outcomes:
  assumes "counters_store_ok l" "bal_store_ok b" "tier_ok (sl_tier cfg)" "0 < sl_windowSecs cfg"
    and "fst (enforceSignerLimit (redisCheckLimit p) bal_lookup cfg gate now signer (l, b)) = Inl e"
  shows "(statusCode e = 503 \<and> retryAfterSecs e = Some 5) \<or>
    (statusCode e = 403 \<and> gate \<and> (\<exists>v. fst (bal_lookup now signer b) = Some (Some v) \<and> v < sl_floorWei cfg)) \<or>
    (statusCode e = 429 \<and> (\<exists>t. retryAfterSecs e = Some t \<and> 1 \<le> t \<and> t \<le> sl_windowSecs cfg))"
proof -
  have "\<exists>k r. e = AppError k r"
    using assms(5) by (auto simp: enforceSignerLimit_def readBalance_def checkBudget_def
        split: prod.splits option.splits if_splits sum.splits)
  then obtain k r where e: "e = AppError k r" by blast
  show ?thesis
    using redis_gate.enforce_outcome [where p = p and gate = gate and now = now and signer = signer, OF assms(1-4)] assms(5)
    by (auto simp: e AppError_def STORE_RETRY_AFTER_SECS_def)
qed

theorem signer_gate_outcomes_witness:
  "\<exists>e. fst (enforceSignerLimit (redisCheckLimit ''p'') bal_lookup
      \<lparr>sl_tier = \<lparr>rateUnitWei = 1, ratePerUnit = 1, minRate = 1, maxRate = 2\<rparr>, sl_windowSecs = 60, sl_floorWei = 7\<rparr>
      True 0 ''a'' (None, None)) = Inl e \<and> statusCode e = 503"
proof -
  let ?cfg = "\<lparr>sl_tier = \<lparr>rateUnitWei = 1, ratePerUnit = 1, minRate = 1, maxRate = 2\<rparr>,
      sl_windowSecs = 60, sl_floorWei = 7\<rparr>"
  let ?e = "AppError K_ServiceUnavailable (Some STORE_RETRY_AFTER_SECS)"
  have eq: "fst (enforceSignerLimit (redisCheckLimit ''p'') bal_lookup ?cfg True 0 ''a'' (None, None)) = Inl ?e"
    by (simp add: enforceSignerLimit_def readBalance_def bal_lookup_def)
  show ?thesis
    using signer_gate_outcomes [OF _ _ _ _ eq] eq
    by (simp add: counters_store_ok_def bal_store_ok_def tier_ok_def AppError_def bal_lookup_def)
qed

end
