(* ===== verification/Candidate_Store.thy ===== *)
theory Candidate_Store
  imports Domain_Types
begin

text \<open>
  \<open>apps/byos/src/infra/candidate-store.ts\<close>: the validated proposals one replica holds in memory
  until \<open>/solve\<close> selects or flushes them, in the insertion order of a JavaScript \<open>Map\<close>. Ids come
  from the \<open>proposals\<close> sequence. \<open>candidateToProposal\<close> is the proposal-shaped view of a candidate
  that \<open>routes.ts\<close> builds for its responses and its log writes.
\<close>

type_synonym candidate_store = "(int, candidate) jsmap"

definition add_candidate :: "candidate \<Rightarrow> candidate_store \<Rightarrow> candidate_store" where
  "add_candidate c cs = jm_set (c_id c) c cs"

definition get_candidate :: "int \<Rightarrow> candidate_store \<Rightarrow> candidate option" where
  "get_candidate i cs = jm_get cs i"

definition remove_candidate :: "int \<Rightarrow> candidate_store \<Rightarrow> candidate_store" where
  "remove_candidate i cs = jm_delete i cs"

definition removeAll_candidates :: "int list \<Rightarrow> candidate_store \<Rightarrow> candidate_store" where
  "removeAll_candidates ids cs = jm_delete_all ids cs"

definition getAll :: "candidate_store \<Rightarrow> candidate list" where
  "getAll cs = map snd cs"

definition snapshotForAuction :: "int \<Rightarrow> candidate_store \<Rightarrow> candidate list" where
  "snapshotForAuction auction cs = filter (\<lambda>c. c_auctionId c = auction) (getAll cs)"

definition candidateForOwner :: "int \<Rightarrow> string \<Rightarrow> candidate_store \<Rightarrow> candidate option" where
  "candidateForOwner i subSolver cs =
     (case get_candidate i cs of
        None \<Rightarrow> None
      | Some c \<Rightarrow> if lower (c_subSolver c) = lower subSolver then Some c else None)"

definition candidateToProposal :: "status \<Rightarrow> candidate \<Rightarrow> proposal" where
  "candidateToProposal st c =
     \<lparr>p_id = c_id c, p_subSolver = c_subSolver c, p_auctionId = Some (c_auctionId c),
      p_orderUid = c_orderUid c, p_orderUidHash = c_orderUidHash c, p_sellAmount = c_sellAmount c,
      p_minBuyAmount = c_minBuyAmount c, p_quoteBuyAmount = c_quoteBuyAmount c,
      p_sellToken = c_sellToken c, p_buyToken = c_buyToken c, p_interactions = c_interactions c,
      p_interactionsHash = c_interactionsHash c, p_validUntil = c_validUntil c,
      p_nonce = c_nonce c, p_signature = c_signature c, p_status = st, p_rejectionReason = None,
      p_gasUsed = Some (c_gasUsed c), p_trampoline = Some (c_trampoline c),
      p_settlementTxHash = None, p_penaltyTxHash = None, p_simulationFailureParams = None,
      p_createdAt = c_createdAt c, p_statusChangedAt = c_createdAt c,
      p_settlementPenaltyCap = None, p_sellTokenRefPrice = Some (c_sellTokenRefPrice c),
      p_buyTokenRefPrice = None, p_surplusTokenRefPrice = None, p_auctionGasPrice = None,
      p_clearingPrices = None, p_simulationBuyAmount = c_simulationBuyAmount c\<rparr>"

text \<open>Every candidate is stored under its own id.\<close>

definition store_ok :: "candidate_store \<Rightarrow> bool" where
  "store_ok cs \<longleftrightarrow> jm_ok cs \<and> (\<forall>(i, c) \<in> set cs. c_id c = i)"

lemma store_ok_Nil [simp]: "store_ok []"
  by (simp add: store_ok_def)

lemma set_jm_set_subset: "set (jm_set k v m) \<subseteq> insert (k, v) (set m)"
  by (induction k v m rule: jm_set.induct) auto

lemma store_ok_add: "store_ok cs \<Longrightarrow> store_ok (add_candidate c cs)"
  using set_jm_set_subset [of "c_id c" c cs] by (auto simp: store_ok_def add_candidate_def jm_ok_set)

lemma store_ok_remove: "store_ok cs \<Longrightarrow> store_ok (remove_candidate i cs)"
  by (auto simp: store_ok_def remove_candidate_def jm_ok_delete set_jm_delete)

lemma store_ok_removeAll: "store_ok cs \<Longrightarrow> store_ok (removeAll_candidates ids cs)"
  using jm_ok_delete_all [of cs ids]
  by (auto simp: store_ok_def removeAll_candidates_def jm_delete_all_eq)

lemma get_add: "get_candidate i (add_candidate c cs) = (if i = c_id c then Some c else get_candidate i cs)"
  by (simp add: get_candidate_def add_candidate_def jsmap)

lemma get_remove: "get_candidate i (remove_candidate j cs) = (if i = j then None else get_candidate i cs)"
  by (simp add: get_candidate_def remove_candidate_def jsmap)

lemma get_removeAll: "get_candidate i (removeAll_candidates ids cs) =
    (if i \<in> set ids then None else get_candidate i cs)"
  by (induction cs) (auto simp: get_candidate_def removeAll_candidates_def jm_delete_all_eq)

lemma getAll_iff: "store_ok cs \<Longrightarrow> c \<in> set (getAll cs) \<longleftrightarrow> get_candidate (c_id c) cs = Some c"
  by (force simp: store_ok_def getAll_def get_candidate_def simp flip: jm_get_in)

lemma snapshot_iff: "store_ok cs \<Longrightarrow>
    c \<in> set (snapshotForAuction a cs) \<longleftrightarrow> get_candidate (c_id c) cs = Some c \<and> c_auctionId c = a"
  by (auto simp: snapshotForAuction_def getAll_iff)

lemma snapshot_ids_distinct: "store_ok cs \<Longrightarrow> distinct (map c_id (getAll cs))"
proof -
  assume ok: "store_ok cs"
  then have "map c_id (getAll cs) = map fst cs" by (force simp: getAll_def store_ok_def)
  then show ?thesis using ok by (simp add: store_ok_def jm_ok_def)
qed

end
