(* ===== verification/Database.thy ===== *)
theory Database
  imports Domain_Types "HOL-Library.Monad_Syntax"
begin

text \<open>
  The service's Postgres tables (\<open>apps/byos/src/db/schema.ts\<close>) as records of rows, with the
  mirror trigger of \<open>drizzle/0014_proposal_lifecycle_refactor.sql\<close> that copies every insert and
  update of \<open>proposals\<close> into \<open>proposals_log\<close>. Amount columns are text, as in the schema; columns
  whose text is one of a closed vocabulary are datatypes. Bulk debug columns are kept.

  A table is a list of rows in insertion order; a timestamp is milliseconds, and \<open>now()\<close> is an
  argument of the statement that uses it. The lemmas give the primary keys of both proposal tables
  and the relation the trigger keeps between them.
\<close>

section \<open>Rows\<close>

record interaction_json =
  ij_target :: string
  ij_value :: string
  ij_callData :: string

record proposal_row =
  r_id :: int
  r_subSolver :: string
  r_orderUid :: string
  r_orderUidHash :: string
  r_sellAmount :: string
  r_minBuyAmount :: string
  r_quoteBuyAmount :: string
  r_sellToken :: string
  r_buyToken :: string
  r_interactions :: "interaction_json list"
  r_interactionsHash :: string
  r_validUntil :: string
  r_nonce :: string
  r_signature :: string
  r_status :: status
  r_rejectionReason :: "rejection_reason option"
  r_gasUsed :: "int option"
  r_trampoline :: "string option"
  r_settlementTxHash :: "string option"
  r_penaltyTxHash :: "string option"
  r_simulationFailureParams :: "simulation_failure_params option"
  r_sellTokenRefPrice :: "string option"
  r_validationSellTokenRefPrice :: "string option"
  r_buyTokenRefPrice :: "string option"
  r_settlementPenaltyCap :: "string option"
  r_surplusTokenRefPrice :: "string option"
  r_auctionGasPrice :: "string option"
  r_clearingPrices :: "(string \<times> string) list option"
  r_simulationBuyAmount :: "string option"
  r_auctionId :: "int option"
  r_createdAt :: int
  r_statusChangedAt :: int

datatype debit_status = Pending | Broadcasting | Completed | NeedsReconciliation | DebitCancelled

record debit_row =
  d_id :: int
  d_sourceKind :: string
  d_sourceId :: string
  d_subSolver :: string
  d_amount :: string
  d_reason :: string
  d_status :: debit_status
  d_leaseOwner :: "string option"
  d_leaseExpiresAt :: "int option"
  d_attemptCount :: int
  d_lastError :: "string option"
  d_nextRetryAt :: "int option"
  d_rawTransaction :: "string option"
  d_transactionHash :: "string option"
  d_updatedAt :: int

record buffer_row =
  b_id :: int
  b_subSolver :: string
  b_proposalId :: int
  b_orderUid :: string
  b_delta :: string
  b_gap :: string
  b_buyToken :: string
  b_nativeTokenAmount :: string
  b_cleared :: bool
  b_clearTxHash :: "string option"
  b_createdAt :: int

datatype attempt_status =
  AwaitingEvidence | Eligible | AttemptCancelled | AttemptNeedsReconciliation | Debited

record attempt_row =
  a_id :: int
  a_attemptKey :: string
  a_auctionId :: int
  a_subSolver :: string
  a_proposalId :: int
  a_orderUid :: string
  a_penaltyCap :: "string option"
  a_amount :: "string option"
  a_policyVersion :: string
  a_startedAt :: "int option"
  a_abandonedAt :: "int option"
  a_abandonmentKind :: "string option"
  a_outcome :: "string option"
  a_status :: attempt_status
  a_reconciliationReason :: "string option"
  a_penaltyTxHash :: "string option"

record member_row =
  m_attemptId :: int
  m_proposalId :: int

record notification_row =
  n_attemptId :: int
  n_kind :: string
  n_transactionHash :: string
  n_solutionKey :: string

record db =
  proposals :: "proposal_row list"
  proposalsLog :: "proposal_row list"
  debitOperations :: "debit_row list"
  bufferEntries :: "buffer_row list"
  settlementAttempts :: "attempt_row list"
  settlementAttemptMembers :: "member_row list"
  settlementNotifications :: "notification_row list"
  serviceGasPrice :: "string option"
  proposalSeq :: int
  debitSeq :: int
  bufferSeq :: int
  attemptSeq :: int

definition emptyDb :: db where
  "emptyDb = \<lparr>proposals = [], proposalsLog = [], debitOperations = [], bufferEntries = [],
     settlementAttempts = [], settlementAttemptMembers = [], settlementNotifications = [],
     serviceGasPrice = None, proposalSeq = 1, debitSeq = 1, bufferSeq = 1, attemptSeq = 1\<rparr>"

section \<open>The mirror trigger\<close>

text \<open>The columns \<open>sync_proposal_to_log\<close> copies from the new row into an existing log row.\<close>

definition sync_cols :: "proposal_row \<Rightarrow> proposal_row \<Rightarrow> proposal_row" where
  "sync_cols new old = old
     \<lparr>r_status := r_status new,
      r_rejectionReason := r_rejectionReason new,
      r_gasUsed := r_gasUsed new,
      r_trampoline := r_trampoline new,
      r_sellToken := r_sellToken new,
      r_buyToken := r_buyToken new,
      r_settlementTxHash := r_settlementTxHash new,
      r_penaltyTxHash := r_penaltyTxHash new,
      r_simulationFailureParams := r_simulationFailureParams new,
      r_sellTokenRefPrice := r_sellTokenRefPrice new,
      r_validationSellTokenRefPrice := r_validationSellTokenRefPrice new,
      r_buyTokenRefPrice := r_buyTokenRefPrice new,
      r_settlementPenaltyCap := r_settlementPenaltyCap new,
      r_surplusTokenRefPrice := r_surplusTokenRefPrice new,
      r_auctionGasPrice := r_auctionGasPrice new,
      r_clearingPrices := r_clearingPrices new,
      r_simulationBuyAmount := r_simulationBuyAmount new,
      r_statusChangedAt := r_statusChangedAt new\<rparr>"

definition mirror_update :: "proposal_row \<Rightarrow> proposal_row list \<Rightarrow> proposal_row list" where
  "mirror_update new = sql_update (\<lambda>l. r_id l = r_id new) (sync_cols new)"

definition mirror_insert :: "proposal_row \<Rightarrow> proposal_row list \<Rightarrow> proposal_row list" where
  "mirror_insert new log =
     (if sql_hit (\<lambda>l. r_id l = r_id new) log then mirror_update new log else log @ [new])"

section \<open>Statements on proposals\<close>

text \<open>An insert violating the primary key raises; update and delete act row by row.\<close>

definition insertProposal :: "proposal_row \<Rightarrow> db \<Rightarrow> db option" where
  "insertProposal r d =
     (if sql_hit (\<lambda>x. r_id x = r_id r) (proposals d) then None
      else Some (d\<lparr>proposals := proposals d @ [r], proposalsLog := mirror_insert r (proposalsLog d)\<rparr>))"

definition updateProposals :: "(proposal_row \<Rightarrow> bool) \<Rightarrow> (proposal_row \<Rightarrow> proposal_row) \<Rightarrow> db \<Rightarrow> db" where
  "updateProposals P f d =
     d\<lparr>proposals := sql_update P f (proposals d),
       proposalsLog := fold (\<lambda>r. mirror_update (f r)) (filter P (proposals d)) (proposalsLog d)\<rparr>"

definition deleteProposals :: "(proposal_row \<Rightarrow> bool) \<Rightarrow> db \<Rightarrow> db" where
  "deleteProposals P d = d\<lparr>proposals := sql_delete P (proposals d)\<rparr>"

section \<open>Reading by key\<close>

lemma find_key_tail: "key x \<notin> key ` set t \<Longrightarrow> key x = i \<Longrightarrow> find (\<lambda>r. key r = i) t = None"
  unfolding find_None_iff by (metis image_eqI)

definition liveRow :: "db \<Rightarrow> int \<Rightarrow> proposal_row option" where
  "liveRow d i = find (\<lambda>r. r_id r = i) (proposals d)"

definition logRow :: "db \<Rightarrow> int \<Rightarrow> proposal_row option" where
  "logRow d i = find (\<lambda>r. r_id r = i) (proposalsLog d)"

lemma find_update_key:
  "(\<And>r. r_id (f r) = r_id r) \<Longrightarrow>
   find (\<lambda>r. r_id r = i) (sql_update P f t) =
     map_option (\<lambda>r. if P r then f r else r) (find (\<lambda>r. r_id r = i) t)"
  by (rule find_sql_update) simp

lemma sync_cols_id [simp]: "r_id (sync_cols new old) = r_id old"
  by (simp add: sync_cols_def)

lemma mirror_update_find:
  "find (\<lambda>l. r_id l = i) (mirror_update new log) =
     (if i = r_id new then map_option (sync_cols new) (find (\<lambda>l. r_id l = i) log)
      else find (\<lambda>l. r_id l = i) log)"
  unfolding mirror_update_def
  by (induction log) (auto simp: sql_update_def)

lemma mirror_insert_find:
  "find (\<lambda>l. r_id l = i) (mirror_insert new log) =
     (if i = r_id new then Some (case find (\<lambda>l. r_id l = i) log of Some old \<Rightarrow> sync_cols new old | None \<Rightarrow> new)
      else find (\<lambda>l. r_id l = i) log)"
proof (cases "sql_hit (\<lambda>l. r_id l = r_id new) log")
  case True
  then have "find (\<lambda>l. r_id l = r_id new) log \<noteq> None" by (simp add: find_None_hit)
  then show ?thesis using True by (auto simp: mirror_insert_def mirror_update_find)
next
  case False
  then have n: "find (\<lambda>l. r_id l = r_id new) log = None" by (simp add: find_None_hit)
  have "find P (log @ [new]) = (case find P log of None \<Rightarrow> if P new then Some new else None | s \<Rightarrow> s)" for P
    by (induction log) auto
  then show ?thesis using False n by (auto simp: mirror_insert_def split: option.splits)
qed

lemma mirror_fold_find:
  assumes "distinct (map r_id rs)" "\<And>r. r_id (f r) = r_id r"
  shows "find (\<lambda>l. r_id l = i) (fold (\<lambda>r. mirror_update (f r)) rs log) =
    (case find (\<lambda>r. r_id r = i) rs of
       None \<Rightarrow> find (\<lambda>l. r_id l = i) log
     | Some r \<Rightarrow> map_option (sync_cols (f r)) (find (\<lambda>l. r_id l = i) log))"
  using assms(1)
proof (induction rs arbitrary: log)
  case (Cons r rs)
  then have none: "r_id r = i \<Longrightarrow> find (\<lambda>r. r_id r = i) rs = None"
    by (intro find_key_tail) auto
  show ?case
    using Cons none by (auto simp: mirror_update_find assms(2) split: option.splits)
qed simp

text \<open>Ids are the primary keys of both tables, and a live row always has its mirror.\<close>

definition keys_ok :: "db \<Rightarrow> bool" where
  "keys_ok d \<longleftrightarrow> distinct (map r_id (proposals d)) \<and> distinct (map r_id (proposalsLog d))"

lemma mirror_update_keys: "map r_id (mirror_update new log) = map r_id log"
  unfolding mirror_update_def by (rule keys_sql_update) simp

lemma mirror_fold_keys: "map r_id (fold (\<lambda>r. mirror_update (f r)) rs log) = map r_id log"
  by (induction rs arbitrary: log) (auto simp: mirror_update_keys)

lemma mirror_insert_keys:
  "distinct (map r_id log) \<Longrightarrow> distinct (map r_id (mirror_insert new log))"
  by (auto simp: mirror_insert_def mirror_update_keys sql_hit_def)

lemma keys_ok_insert: "keys_ok d \<Longrightarrow> insertProposal r d = Some d' \<Longrightarrow> keys_ok d'"
  by (auto simp: keys_ok_def insertProposal_def mirror_insert_keys sql_hit_def split: if_splits)
     (metis)

lemma keys_ok_update: "keys_ok d \<Longrightarrow> (\<And>r. r_id (f r) = r_id r) \<Longrightarrow> keys_ok (updateProposals P f d)"
  by (simp add: keys_ok_def updateProposals_def keys_sql_update mirror_fold_keys)

lemma keys_ok_delete: "keys_ok d \<Longrightarrow> keys_ok (deleteProposals P d)"
  by (auto simp: keys_ok_def deleteProposals_def distinct_sql_delete)

lemma liveRow_insert:
  "insertProposal r d = Some d' \<Longrightarrow> liveRow d' i = (if i = r_id r then Some r else liveRow d i)"
proof -
  have app: "find P (xs @ [x]) = (case find P xs of None \<Rightarrow> if P x then Some x else None | s \<Rightarrow> s)"
    for P xs and x :: proposal_row by (induction xs) auto
  assume "insertProposal r d = Some d'"
  moreover from this have "find (\<lambda>x. r_id x = r_id r) (proposals d) = None"
    by (auto simp: insertProposal_def find_None_hit split: if_splits)
  ultimately show ?thesis
    by (auto simp: liveRow_def insertProposal_def app split: if_splits option.splits)
qed

lemma logRow_insert:
  "insertProposal r d = Some d' \<Longrightarrow>
   logRow d' i = (if i = r_id r then Some (case logRow d i of Some old \<Rightarrow> sync_cols r old | None \<Rightarrow> r)
     else logRow d i)"
  by (auto simp: insertProposal_def logRow_def mirror_insert_find split: if_splits)

lemma liveRow_update:
  "(\<And>r. r_id (f r) = r_id r) \<Longrightarrow>
   liveRow (updateProposals P f d) i = map_option (\<lambda>r. if P r then f r else r) (liveRow d i)"
  by (simp add: liveRow_def updateProposals_def find_update_key)

lemma find_filter_key:
  "distinct (map key t) \<Longrightarrow> find (\<lambda>r. key r = i) (filter P t) =
     (case find (\<lambda>r. key r = i) t of Some r \<Rightarrow> if P r then Some r else None | None \<Rightarrow> None)"
proof (induction t)
  case (Cons x t)
  have none: "find (\<lambda>r. key r = i) t = None" if "key x = i"
    using Cons.prems that by (intro find_key_tail) auto
  show ?case using Cons none by (cases "key x = i") (auto split: option.splits)
qed simp

lemma logRow_update:
  assumes "keys_ok d" "\<And>r. r_id (f r) = r_id r"
  shows "logRow (updateProposals P f d) i =
    (case liveRow d i of
       Some r \<Rightarrow> if P r then map_option (sync_cols (f r)) (logRow d i) else logRow d i
     | None \<Rightarrow> logRow d i)"
proof -
  have "distinct (map r_id (filter P (proposals d)))"
    using assms(1) by (simp add: keys_ok_def distinct_map_filter)
  then show ?thesis
    using assms by (auto simp: logRow_def liveRow_def updateProposals_def mirror_fold_find
        find_filter_key keys_ok_def split: option.splits)
qed

lemma liveRow_delete:
  "keys_ok d \<Longrightarrow> liveRow (deleteProposals P d) i =
     (case liveRow d i of Some r \<Rightarrow> if P r then None else Some r | None \<Rightarrow> None)"
  by (auto simp: liveRow_def deleteProposals_def sql_delete_def keys_ok_def find_filter_key
      split: option.splits)

lemma logRow_delete [simp]: "logRow (deleteProposals P d) i = logRow d i"
  by (simp add: logRow_def deleteProposals_def)

lemma liveRow_id: "liveRow d i = Some r \<Longrightarrow> r_id r = i \<and> r \<in> set (proposals d)"
  by (auto simp: liveRow_def dest: find_SomeD)

lemma logRow_id: "logRow d i = Some r \<Longrightarrow> r_id r = i \<and> r \<in> set (proposalsLog d)"
  by (auto simp: logRow_def dest: find_SomeD)

lemma liveRow_in: "keys_ok d \<Longrightarrow> r \<in> set (proposals d) \<Longrightarrow> liveRow d (r_id r) = Some r"
  by (simp add: liveRow_def keys_ok_def find_key)

lemma logRow_in: "keys_ok d \<Longrightarrow> r \<in> set (proposalsLog d) \<Longrightarrow> logRow d (r_id r) = Some r"
  by (simp add: logRow_def keys_ok_def find_key)

end
