(* ===== verification/Storage.thy ===== *)
theory Storage
  imports Database Candidate_Store Collateral
begin

text \<open>
  The proposal half of \<open>apps/byos/src/infra/storage.ts\<close>: the row codec, the writes that move a
  proposal through its life and the reads of the API, the validator and the workers. A write that
  the source runs in a transaction is one definition. A statement's \<open>now()\<close> and the process's
  \<open>new Date()\<close> are the argument \<open>now\<close>.

  The lemmas show that a candidate comes back from the tables as what was signed, that a
  proposal's mirrored status only moves along the lifecycle's edges, and that a settlement or
  penalty hash is never overwritten.
\<close>

section \<open>Store errors\<close>

datatype store_error =
  NotFound (nf_id: int)
| NotOwner int string
| StaleTransition int status "status option"
| DatabaseError
| CorruptRow string string string

fun shouldRetry :: "store_error \<Rightarrow> bool" where
  "shouldRetry DatabaseError = True"
| "shouldRetry _ = False"

section \<open>Shared replica state\<close>

definition publishAuctionGasPrice :: "int \<Rightarrow> db \<Rightarrow> db" where
  "publishAuctionGasPrice gasPrice d = d\<lparr>serviceGasPrice := Some (bigint_str gasPrice)\<rparr>"

text \<open>\<open>None\<close> is the \<open>SyntaxError\<close> of a price that is not a number.\<close>

definition latestAuctionGasPrice :: "int \<Rightarrow> db \<Rightarrow> int option" where
  "latestAuctionGasPrice fallback d =
     (case serviceGasPrice d of None \<Rightarrow> Some fallback | Some s \<Rightarrow> BigInt s)"

section \<open>Row codec\<close>

definition interactionsToJson :: "interaction list \<Rightarrow> interaction_json list" where
  "interactionsToJson is =
     map (\<lambda>i. \<lparr>ij_target = lower (i_target i), ij_value = bigint_str (i_value i),
                ij_callData = lower (i_callData i)\<rparr>) is"

definition jsonToInteraction :: "interaction_json \<Rightarrow> interaction option" where
  "jsonToInteraction j =
     map_option (\<lambda>v. \<lparr>i_target = ij_target j, i_value = v, i_callData = ij_callData j\<rparr>)
       (BigInt (ij_value j))"

text \<open>A nullable text amount: null stays null, text must parse.\<close>

definition BigIntOpt :: "string option \<Rightarrow> int option option" where
  "BigIntOpt s = (case s of None \<Rightarrow> Some None | Some t \<Rightarrow> map_option Some (BigInt t))"

definition rowToProposal :: "proposal_row \<Rightarrow> proposal option" where
  "rowToProposal r = do {
     interactions \<leftarrow> those (map jsonToInteraction (r_interactions r));
     sellAmount \<leftarrow> BigInt (r_sellAmount r);
     minBuyAmount \<leftarrow> BigInt (r_minBuyAmount r);
     quoteBuyAmount \<leftarrow> BigInt (r_quoteBuyAmount r);
     validUntil \<leftarrow> BigInt (r_validUntil r);
     nonce \<leftarrow> BigInt (r_nonce r);
     penaltyCap \<leftarrow> BigIntOpt (r_settlementPenaltyCap r);
     simulationBuyAmount \<leftarrow> BigIntOpt (r_simulationBuyAmount r);
     Some \<lparr>p_id = r_id r, p_subSolver = r_subSolver r, p_auctionId = r_auctionId r,
       p_orderUid = r_orderUid r, p_orderUidHash = r_orderUidHash r, p_sellAmount = sellAmount,
       p_minBuyAmount = minBuyAmount, p_quoteBuyAmount = quoteBuyAmount,
       p_sellToken = r_sellToken r, p_buyToken = r_buyToken r, p_interactions = interactions,
       p_interactionsHash = r_interactionsHash r, p_validUntil = validUntil, p_nonce = nonce,
       p_signature = r_signature r, p_status = r_status r,
       p_rejectionReason = r_rejectionReason r, p_gasUsed = r_gasUsed r,
       p_trampoline = r_trampoline r, p_settlementTxHash = r_settlementTxHash r,
       p_penaltyTxHash = r_penaltyTxHash r,
       p_simulationFailureParams = r_simulationFailureParams r,
       p_createdAt = r_createdAt r, p_statusChangedAt = r_statusChangedAt r,
       p_settlementPenaltyCap = penaltyCap, p_sellTokenRefPrice = r_sellTokenRefPrice r,
       p_buyTokenRefPrice = r_buyTokenRefPrice r,
       p_surplusTokenRefPrice = r_surplusTokenRefPrice r, p_auctionGasPrice = r_auctionGasPrice r,
       p_clearingPrices = r_clearingPrices r, p_simulationBuyAmount = simulationBuyAmount\<rparr>
   }"

text \<open>\<open>tryRowToProposal\<close> over a result set: rows that do not parse are dropped.\<close>

definition parseRows :: "proposal_row list \<Rightarrow> proposal list" where
  "parseRows rows = List.map_filter rowToProposal rows"

definition isStorableId :: "int \<Rightarrow> bool" where
  "isStorableId i \<longleftrightarrow> isSafeInteger i \<and> 0 \<le> i"

definition signedProposalFingerprint :: "proposal \<Rightarrow> json" where
  "signedProposalFingerprint p = JObj
     [(''subSolver'', JStr (lower (p_subSolver p))),
      (''orderUid'', JStr (lower (p_orderUid p))),
      (''orderUidHash'', JStr (lower (p_orderUidHash p))),
      (''sellToken'', JStr (lower (p_sellToken p))),
      (''buyToken'', JStr (lower (p_buyToken p))),
      (''sellAmount'', JStr (bigint_str (p_sellAmount p))),
      (''minBuyAmount'', JStr (bigint_str (p_minBuyAmount p))),
      (''quoteBuyAmount'', JStr (bigint_str (p_quoteBuyAmount p))),
      (''interactions'', JArr (map (\<lambda>j. JObj [(''target'', JStr (ij_target j)),
          (''value'', JStr (ij_value j)), (''callData'', JStr (ij_callData j))])
          (interactionsToJson (p_interactions p)))),
      (''interactionsHash'', JStr (lower (p_interactionsHash p))),
      (''validUntil'', JStr (bigint_str (p_validUntil p))),
      (''nonce'', JStr (bigint_str (p_nonce p))),
      (''signature'', JStr (lower (p_signature p)))]"

section \<open>Writes\<close>

record solution_prices =
  sp_sellTokenRefPrice :: string
  sp_surplusTokenRefPrice :: string
  sp_auctionGasPrice :: string
  sp_clearingPrices :: "(string \<times> string) list"

text \<open>The row \<open>writeToLog\<close> inserts; columns it does not name are null.\<close>

definition logRowOf :: "int \<Rightarrow> int \<Rightarrow> proposal \<Rightarrow> status \<Rightarrow> rejection_reason option \<Rightarrow>
    simulation_failure_params option \<Rightarrow> proposal_row" where
  "logRowOf now i p st reason params =
     \<lparr>r_id = i, r_subSolver = lower (p_subSolver p), r_orderUid = lower (p_orderUid p),
      r_orderUidHash = lower (p_orderUidHash p), r_sellAmount = bigint_str (p_sellAmount p),
      r_minBuyAmount = bigint_str (p_minBuyAmount p),
      r_quoteBuyAmount = bigint_str (p_quoteBuyAmount p), r_sellToken = lower (p_sellToken p),
      r_buyToken = lower (p_buyToken p), r_interactions = interactionsToJson (p_interactions p),
      r_interactionsHash = lower (p_interactionsHash p), r_validUntil = bigint_str (p_validUntil p),
      r_nonce = bigint_str (p_nonce p), r_signature = lower (p_signature p), r_status = st,
      r_rejectionReason = reason, r_gasUsed = map_option Number (p_gasUsed p),
      r_trampoline = map_option lower (p_trampoline p), r_settlementTxHash = None,
      r_penaltyTxHash = None, r_simulationFailureParams = params,
      r_sellTokenRefPrice = p_sellTokenRefPrice p,
      r_validationSellTokenRefPrice = p_sellTokenRefPrice p,
      r_buyTokenRefPrice = p_buyTokenRefPrice p, r_settlementPenaltyCap = None,
      r_surplusTokenRefPrice = None, r_auctionGasPrice = None, r_clearingPrices = None,
      r_simulationBuyAmount = None, r_auctionId = p_auctionId p, r_createdAt = now,
      r_statusChangedAt = now\<rparr>"

definition writeToLog :: "int \<Rightarrow> int \<Rightarrow> proposal \<Rightarrow> status \<Rightarrow> rejection_reason option \<Rightarrow>
    simulation_failure_params option \<Rightarrow> db \<Rightarrow> db" where
  "writeToLog now i p st reason params d =
     (if sql_hit (\<lambda>l. r_id l = i) (proposalsLog d) then d
      else d\<lparr>proposalsLog := proposalsLog d @ [logRowOf now i p st reason params]\<rparr>)"

definition submittedRow :: "int \<Rightarrow> candidate \<Rightarrow> string \<Rightarrow> solution_prices \<Rightarrow> int option \<Rightarrow> proposal_row" where
  "submittedRow now c buyPrice prices cap =
     \<lparr>r_id = c_id c, r_subSolver = lower (c_subSolver c), r_orderUid = lower (c_orderUid c),
      r_orderUidHash = lower (c_orderUidHash c), r_sellAmount = bigint_str (c_sellAmount c),
      r_minBuyAmount = bigint_str (c_minBuyAmount c),
      r_quoteBuyAmount = bigint_str (c_quoteBuyAmount c), r_sellToken = lower (c_sellToken c),
      r_buyToken = lower (c_buyToken c), r_interactions = interactionsToJson (c_interactions c),
      r_interactionsHash = lower (c_interactionsHash c), r_validUntil = bigint_str (c_validUntil c),
      r_nonce = bigint_str (c_nonce c), r_signature = lower (c_signature c),
      r_status = Submitted, r_rejectionReason = None, r_gasUsed = Some (Number (c_gasUsed c)),
      r_trampoline = Some (lower (c_trampoline c)), r_settlementTxHash = None,
      r_penaltyTxHash = None, r_simulationFailureParams = None,
      r_sellTokenRefPrice = Some (sp_sellTokenRefPrice prices),
      r_validationSellTokenRefPrice = Some (c_sellTokenRefPrice c),
      r_buyTokenRefPrice = Some buyPrice, r_settlementPenaltyCap = map_option bigint_str cap,
      r_surplusTokenRefPrice = Some (sp_surplusTokenRefPrice prices),
      r_auctionGasPrice = Some (sp_auctionGasPrice prices),
      r_clearingPrices = Some (sp_clearingPrices prices),
      r_simulationBuyAmount = map_option bigint_str (c_simulationBuyAmount c),
      r_auctionId = Some (c_auctionId c), r_createdAt = c_createdAt c, r_statusChangedAt = now\<rparr>"

text \<open>\<open>None\<close> is the driver error of a duplicate id.\<close>

definition insertAsSubmitted :: "int \<Rightarrow> candidate \<Rightarrow> string \<Rightarrow> solution_prices \<Rightarrow> int option \<Rightarrow> db \<Rightarrow> db option" where
  "insertAsSubmitted now c buyPrice prices cap = insertProposal (submittedRow now c buyPrice prices cap)"

definition transition :: "int \<Rightarrow> proposal \<Rightarrow> status \<Rightarrow> db \<Rightarrow> (store_error + audit_event) \<times> db" where
  "transition now p toStatus d =
     (let P = (\<lambda>r. r_id r = p_id p \<and> r_status r = p_status p) in
      if sql_hit P (proposals d) then
        (Inr (now, StatusChanged (p_id p) (p_subSolver p) (p_orderUid p) (p_status p) toStatus None None),
         updateProposals P (\<lambda>r. r\<lparr>r_status := toStatus, r_statusChangedAt := now\<rparr>) d)
      else (Inl (StaleTransition (p_id p) (p_status p) None), d))"

text \<open>The status a committed row moves to, with the settlement hash it takes.\<close>

fun outcomeTarget :: "status \<Rightarrow> settlement_outcome \<Rightarrow> (status \<times> string option) option" where
  "outcomeTarget from Started = None"
| "outcomeTarget from (Succeeded h) = (if from = Submitted then Some (Settled, Some h) else None)"
| "outcomeTarget from (Reverted h) = (if from = Submitted then Some (SettleFailed, Some h) else None)"
| "outcomeTarget from Abandoned = (if from = Submitted then Some (Lost, None) else None)"

fun isSucceeded :: "settlement_outcome \<Rightarrow> bool" where
  "isSucceeded (Succeeded h) = True"
| "isSucceeded _ = False"

fun isReverted :: "settlement_outcome \<Rightarrow> bool" where
  "isReverted (Reverted h) = True"
| "isReverted _ = False"

definition outcomeSet :: "int \<Rightarrow> proposal \<Rightarrow> settlement_outcome \<Rightarrow> status \<Rightarrow> string option \<Rightarrow>
    proposal_row \<Rightarrow> proposal_row" where
  "outcomeSet now p outcome toStatus txHash r =
     r\<lparr>r_status := toStatus,
       r_settlementTxHash := (if falsy txHash then r_settlementTxHash r else map_option lower txHash),
       r_settlementPenaltyCap := (if isReverted outcome
          then map_option bigint_str (p_settlementPenaltyCap p) else r_settlementPenaltyCap r),
       r_rejectionReason := (if toStatus = Lost then Some UnknownOutput else r_rejectionReason r),
       r_statusChangedAt := now\<rparr>"

definition isSibling :: "proposal_row \<Rightarrow> int \<Rightarrow> proposal_row \<Rightarrow> bool" where
  "isSibling locked i r \<longleftrightarrow> r_subSolver r = r_subSolver locked \<and> r_orderUid r = r_orderUid locked \<and>
     r_id r \<noteq> i \<and> r_status r = Submitted"

definition applySettlementOutcome :: "int \<Rightarrow> proposal \<Rightarrow> settlement_outcome \<Rightarrow> db \<Rightarrow>
    (store_error + audit_event option \<times> audit_event list) \<times> db" where
  "applySettlementOutcome now p outcome d =
     (case liveRow d (p_id p) of
        None \<Rightarrow> (Inl (NotFound (p_id p)), d)
      | Some locked \<Rightarrow>
          (case outcomeTarget (r_status locked) outcome of
             None \<Rightarrow> (Inr (None, []), d)
           | Some (toStatus, txHash) \<Rightarrow>
               let d1 = updateProposals (\<lambda>r. r_id r = p_id p) (outcomeSet now p outcome toStatus txHash) d;
                   cancelled = (if isSucceeded outcome
                     then filter (isSibling locked (p_id p)) (proposals d1) else []);
                   d2 = (if cancelled = [] then d1
                     else updateProposals (\<lambda>r. r_id r \<in> r_id ` set cancelled)
                       (\<lambda>r. r\<lparr>r_status := Cancelled, r_statusChangedAt := now\<rparr>) d1);
                   d3 = (if toStatus = Lost \<or> toStatus = SettleFailed
                     then deleteProposals (\<lambda>r. r_id r = p_id p) d2 else d2)
               in (Inr (Some (now, StatusChanged (p_id p) (p_subSolver p) (p_orderUid p)
                      (r_status locked) toStatus None txHash),
                    map (\<lambda>s. (now, StatusChanged (r_id s) (r_subSolver locked) (r_orderUid locked)
                      (r_status s) Cancelled None None)) cancelled), d3)))"

definition recordPenalty :: "int \<Rightarrow> proposal \<Rightarrow> int \<Rightarrow> string \<Rightarrow> db \<Rightarrow> (store_error + audit_event) \<times> db" where
  "recordPenalty now p amount penaltyTxHash d =
     (let P = (\<lambda>l. r_id l = p_id p \<and> r_status l = SettleFailed \<and> r_penaltyTxHash l = None) in
      if sql_hit P (proposalsLog d) then
        (Inr (now, Penalized (p_id p) (p_subSolver p) (p_orderUid p) amount (p_settlementTxHash p) penaltyTxHash),
         d\<lparr>proposalsLog := sql_update P (\<lambda>l. l\<lparr>r_penaltyTxHash := Some (lower penaltyTxHash)\<rparr>) (proposalsLog d)\<rparr>)
      else (Inl (StaleTransition (p_id p) SettleFailed None), d))"

definition redactable :: "int \<Rightarrow> int \<Rightarrow> proposal_row \<Rightarrow> bool" where
  "redactable now olderThanSecs l \<longleftrightarrow> r_createdAt l < now - olderThanSecs * 1000 \<and>
     (r_interactions l \<noteq> [] \<or> r_simulationFailureParams l \<noteq> None)"

definition redactOldLogEntries :: "int \<Rightarrow> int \<Rightarrow> db \<Rightarrow> nat \<times> db" where
  "redactOldLogEntries now olderThanSecs d =
     (length (filter (redactable now olderThanSecs) (proposalsLog d)),
      d\<lparr>proposalsLog := sql_update (redactable now olderThanSecs)
          (\<lambda>l. l\<lparr>r_interactions := [], r_simulationFailureParams := None\<rparr>) (proposalsLog d)\<rparr>)"

text \<open>
  The penalty hash \<open>executeNonSettlementPenalty\<close> (settlement-attempts.ts) writes on the members of an
  attempt: on the live rows, whose mirrors follow, then on the log rows.
\<close>

definition penalizeMembers :: "string \<Rightarrow> int list \<Rightarrow> db \<Rightarrow> db" where
  "penalizeMembers h ids d =
     (let d1 = updateProposals (\<lambda>r. r_id r \<in> set ids) (\<lambda>r. r\<lparr>r_penaltyTxHash := Some (lower h)\<rparr>) d
      in d1\<lparr>proposalsLog := sql_update (\<lambda>l. r_id l \<in> set ids) (\<lambda>l. l\<lparr>r_penaltyTxHash := Some (lower h)\<rparr>)
           (proposalsLog d1)\<rparr>)"

datatype lost_result = LostOk audit_event | LostNotFound int | LostStale int

definition applyLostOutcome :: "int \<Rightarrow> int \<Rightarrow> rejection_reason \<Rightarrow> db \<Rightarrow> lost_result \<times> db" where
  "applyLostOutcome now i reason d =
     (case liveRow d i of
        None \<Rightarrow> (LostNotFound i, d)
      | Some locked \<Rightarrow>
          if r_status locked \<noteq> Submitted then (LostStale i, d)
          else
            (LostOk (now, StatusChanged i (r_subSolver locked) (r_orderUid locked) Submitted Lost
               (Some reason) None),
             deleteProposals (\<lambda>r. r_id r = i)
               (updateProposals (\<lambda>r. r_id r = i)
                 (\<lambda>r. r\<lparr>r_status := Lost, r_rejectionReason := Some reason, r_statusChangedAt := now\<rparr>) d)))"

fun lateTarget :: "settlement_outcome \<Rightarrow> (status \<times> string) option" where
  "lateTarget (Succeeded h) = Some (Settled, h)"
| "lateTarget (Reverted h) = Some (SettleFailed, h)"
| "lateTarget _ = None"

text \<open>Only a success or a revert is passed; other outcomes leave the tables alone.\<close>

definition applyLateLostCorrection :: "int \<Rightarrow> int \<Rightarrow> settlement_outcome \<Rightarrow> db \<Rightarrow>
    (store_error + audit_event) \<times> db" where
  "applyLateLostCorrection now i outcome d =
     (case lateTarget outcome of
        None \<Rightarrow> (Inl (StaleTransition i Lost None), d)
      | Some (toStatus, txHash) \<Rightarrow>
          let P = (\<lambda>l. r_id l = i \<and> r_status l = Lost) in
          (case find P (proposalsLog d) of
             None \<Rightarrow> (Inl (StaleTransition i Lost None), d)
           | Some row \<Rightarrow>
               (Inr (now, StatusChanged i (r_subSolver row) (r_orderUid row) Lost toStatus None (Some txHash)),
                d\<lparr>proposalsLog := sql_update P
                    (\<lambda>l. l\<lparr>r_status := toStatus, r_settlementTxHash := Some (lower txHash),
                            r_statusChangedAt := now\<rparr>) (proposalsLog d)\<rparr>)))"

section \<open>Reads\<close>

definition by_id :: "proposal_row list \<Rightarrow> proposal_row list" where
  "by_id rows = sort_key r_id rows"

definition allSubSolvers :: "db \<Rightarrow> string list" where
  "allSubSolvers d = remdups (map r_subSolver (proposals d))"

text \<open>\<open>get\<close>: \<open>None\<close> is a thrown parse error, \<open>Some None\<close> a miss.\<close>

definition get_proposal :: "int \<Rightarrow> db \<Rightarrow> proposal option option" where
  "get_proposal i d =
     (if \<not> isStorableId i then Some None
      else case liveRow d i of None \<Rightarrow> Some None | Some r \<Rightarrow> map_option Some (rowToProposal r))"

definition getForOwner :: "int \<Rightarrow> string \<Rightarrow> db \<Rightarrow> (store_error + proposal) option" where
  "getForOwner i subSolver d =
     (if \<not> isStorableId i then Some (Inl (NotFound i))
      else case find (\<lambda>r. r_id r = i \<and> r_subSolver r = lower subSolver) (proposals d) of
        Some r \<Rightarrow> map_option Inr (rowToProposal r)
      | None \<Rightarrow>
          (case find (\<lambda>r. r_id r = i \<and> r_subSolver r = lower subSolver) (proposalsLog d) of
             None \<Rightarrow> Some (Inl (NotFound i))
           | Some r \<Rightarrow> map_option Inr (rowToProposal r)))"

definition listByOrderUidForOwner :: "string \<Rightarrow> string \<Rightarrow> bool \<Rightarrow> db \<Rightarrow> proposal list" where
  "listByOrderUidForOwner orderUid own includeArchived d =
     (if includeArchived then
        parseRows (rev (by_id (filter (\<lambda>r. r_orderUid r = lower orderUid \<and> r_subSolver r = lower own)
          (proposalsLog d))))
      else
        parseRows (by_id (filter (\<lambda>r. r_orderUid r = lower orderUid \<and> r_subSolver r = lower own \<and>
          r_status r = Submitted) (proposals d))))"

definition listBySubSolver :: "string \<Rightarrow> bool \<Rightarrow> db \<Rightarrow> proposal list" where
  "listBySubSolver subSolver includeArchived d =
     (if includeArchived then
        parseRows (rev (by_id (filter (\<lambda>r. r_subSolver r = lower subSolver) (proposalsLog d))))
      else
        parseRows (by_id (filter (\<lambda>r. r_subSolver r = lower subSolver \<and> r_status r = Submitted)
          (proposals d))))"

definition snapshotByStatuses :: "status list \<Rightarrow> db \<Rightarrow> proposal list" where
  "snapshotByStatuses sts d = parseRows (by_id (filter (\<lambda>r. r_status r \<in> set sts) (proposals d)))"

definition getIncludingLog :: "int \<Rightarrow> db \<Rightarrow> proposal option" where
  "getIncludingLog i d =
     (if \<not> isStorableId i then None
      else case liveRow d i of
        Some r \<Rightarrow> rowToProposal r
      | None \<Rightarrow> (case logRow d i of None \<Rightarrow> None | Some r \<Rightarrow> rowToProposal r))"

definition fetchStaleSubmitted :: "int \<Rightarrow> int \<Rightarrow> db \<Rightarrow> (int \<times> string \<times> string) list" where
  "fetchStaleSubmitted now windowMs d =
     map (\<lambda>r. (r_id r, r_subSolver r, r_orderUid r))
       (by_id (filter (\<lambda>r. r_status r = Submitted \<and> r_statusChangedAt r < now - windowMs) (proposals d)))"

definition snapshotSettleFailedFromLog :: "db \<Rightarrow> proposal list" where
  "snapshotSettleFailedFromLog d =
     parseRows (by_id (filter (\<lambda>l. r_status l = SettleFailed \<and> r_penaltyTxHash l = None \<and>
       \<not> (\<exists>m \<in> set (settlementAttemptMembers d). m_proposalId m = r_id l \<and>
            (\<exists>a \<in> set (settlementAttempts d). a_id a = m_attemptId m \<and>
               a_status a = AttemptNeedsReconciliation))) (proposalsLog d)))"

record inflight_proposal =
  if_id :: int
  if_gasUsed :: "int option"
  if_sellAmountNative :: "int option"

definition inflightOf :: "proposal_row \<Rightarrow> inflight_proposal option" where
  "inflightOf r =
     (case r_validationSellTokenRefPrice r of
        None \<Rightarrow> Some \<lparr>if_id = r_id r, if_gasUsed = r_gasUsed r, if_sellAmountNative = None\<rparr>
      | Some price \<Rightarrow>
          if price = ''0''
          then Some \<lparr>if_id = r_id r, if_gasUsed = r_gasUsed r, if_sellAmountNative = None\<rparr>
          else do {
            a \<leftarrow> BigInt (r_sellAmount r);
            p \<leftarrow> BigInt price;
            Some \<lparr>if_id = r_id r, if_gasUsed = r_gasUsed r, if_sellAmountNative = Some (nativeSellValue a p)\<rparr>
          })"

definition sumBigInts :: "string list \<Rightarrow> int option" where
  "sumBigInts ss = map_option sum_list (those (map BigInt ss))"

definition unclearedRows :: "string \<Rightarrow> db \<Rightarrow> buffer_row list" where
  "unclearedRows subSolver d =
     filter (\<lambda>b. b_subSolver b = lower subSolver \<and> \<not> b_cleared b) (bufferEntries d)"

definition fetchInflightDataBySubSolver :: "string \<Rightarrow> db \<Rightarrow> (inflight_proposal list \<times> int) option" where
  "fetchInflightDataBySubSolver subSolver d = do {
     bufferBalance \<leftarrow> sumBigInts (map b_nativeTokenAmount (unclearedRows subSolver d));
     ps \<leftarrow> those (map inflightOf (filter (\<lambda>r. r_subSolver r = lower subSolver \<and> r_status r = Submitted)
             (proposals d)));
     Some (ps, bufferBalance)
   }"

section \<open>The codec round trip\<close>

definition lower_interaction :: "interaction \<Rightarrow> interaction" where
  "lower_interaction i = i\<lparr>i_target := lower (i_target i), i_callData := lower (i_callData i)\<rparr>"

lemma those_interactions:
  "those (map jsonToInteraction (interactionsToJson is)) = Some (map lower_interaction is)"
  by (induction "is") (simp_all add: interactionsToJson_def jsonToInteraction_def lower_interaction_def)

lemma BigIntOpt_str [simp]: "BigIntOpt (map_option bigint_str v) = Some v"
  by (cases v) (simp_all add: BigIntOpt_def)

lemma BigIntOpt_None [simp]: "BigIntOpt None = Some None"
  by (simp add: BigIntOpt_def)

lemma interactionsToJson_lower [simp]:
  "interactionsToJson (map lower_interaction is) = interactionsToJson is"
  by (induction "is") (simp_all add: interactionsToJson_def lower_interaction_def)

lemma rowToProposal_submitted:
  "\<exists>p. rowToProposal (submittedRow now c buyPrice prices cap) = Some p \<and>
     signedProposalFingerprint p = signedProposalFingerprint (candidateToProposal CandidateStatus c) \<and>
     p_sellAmount p = c_sellAmount c \<and> p_minBuyAmount p = c_minBuyAmount c \<and>
     p_quoteBuyAmount p = c_quoteBuyAmount c \<and> p_simulationBuyAmount p = c_simulationBuyAmount c \<and>
     p_settlementPenaltyCap p = cap \<and> p_status p = Submitted \<and> p_id p = c_id c \<and>
     p_auctionId p = Some (c_auctionId c) \<and> p_gasUsed p = Some (Number (c_gasUsed c))"
  by (simp add: rowToProposal_def submittedRow_def those_interactions signedProposalFingerprint_def
      candidateToProposal_def)

text \<open>
  C11. A selected candidate comes back from the database as what its sub-solver signed: inserting it
  as submitted and reading it back by id gives a proposal with the same signed fingerprint (so the
  same amounts, tokens, route, validity, nonce and signature up to letter case), its simulated buy
  amount, its penalty cap snapshot and its auction; another id reads as before.
\<close>

theorem submitted_round_trip:
  assumes "insertAsSubmitted now c buyPrice prices cap d = Some d'" "isStorableId (c_id c)"
  shows "(\<exists>p. get_proposal (c_id c) d' = Some (Some p) \<and>
     signedProposalFingerprint p = signedProposalFingerprint (candidateToProposal CandidateStatus c) \<and>
     p_sellAmount p = c_sellAmount c \<and> p_minBuyAmount p = c_minBuyAmount c \<and>
     p_quoteBuyAmount p = c_quoteBuyAmount c \<and> p_simulationBuyAmount p = c_simulationBuyAmount c \<and>
     p_settlementPenaltyCap p = cap \<and> p_status p = Submitted \<and> p_auctionId p = Some (c_auctionId c)) \<and>
   (\<forall>i. i \<noteq> c_id c \<longrightarrow> get_proposal i d' = get_proposal i d)"
proof -
  let ?r = "submittedRow now c buyPrice prices cap"
  have ins: "insertProposal ?r d = Some d'" using assms(1) by (simp add: insertAsSubmitted_def)
  have rid: "r_id ?r = c_id c" by (simp add: submittedRow_def)
  obtain p where p: "rowToProposal ?r = Some p"
    "signedProposalFingerprint p = signedProposalFingerprint (candidateToProposal CandidateStatus c)"
    "p_sellAmount p = c_sellAmount c" "p_minBuyAmount p = c_minBuyAmount c"
    "p_quoteBuyAmount p = c_quoteBuyAmount c" "p_simulationBuyAmount p = c_simulationBuyAmount c"
    "p_settlementPenaltyCap p = cap" "p_status p = Submitted" "p_auctionId p = Some (c_auctionId c)"
    using rowToProposal_submitted by blast
  have "get_proposal (c_id c) d' = Some (Some p)"
    using assms(2) p(1) rid by (simp add: get_proposal_def liveRow_insert [OF ins])
  moreover have "get_proposal i d' = get_proposal i d" if "i \<noteq> c_id c" for i
    using that rid by (simp add: get_proposal_def liveRow_insert [OF ins])
  ultimately show ?thesis using p by blast
qed

definition exampleCandidate :: candidate where
  "exampleCandidate = \<lparr>c_id = 7, c_subSolver = ''0x5A'', c_orderUid = ''0xC3'', c_orderUidHash = ''0xd4'',
     c_sellAmount = 50, c_minBuyAmount = 16, c_quoteBuyAmount = 20, c_sellToken = ''0xa1'',
     c_buyToken = ''0xb2'', c_interactions = [], c_interactionsHash = ''0xe5'', c_validUntil = 1000,
     c_nonce = 1, c_signature = ''0xf6'', c_auctionId = 1, c_gasUsed = 100000, c_trampoline = ''0x77'',
     c_simulationBuyAmount = Some 18, c_sellTokenRefPrice = ''1000'', c_createdAt = 0\<rparr>"

definition examplePrices :: solution_prices where
  "examplePrices = \<lparr>sp_sellTokenRefPrice = ''1000'', sp_surplusTokenRefPrice = ''2000'',
     sp_auctionGasPrice = ''3'', sp_clearingPrices = []\<rparr>"

lemma insert_fresh:
  "liveRow d (c_id c) = None \<Longrightarrow> \<exists>d'. insertAsSubmitted now c b prices cap d = Some d'"
  by (auto simp: insertAsSubmitted_def insertProposal_def liveRow_def find_None_hit submittedRow_def)

lemma liveRow_empty [simp]: "liveRow emptyDb i = None" "logRow emptyDb i = None"
  by (simp_all add: liveRow_def logRow_def emptyDb_def)

theorem submitted_round_trip_witness:
  "\<exists>d p. insertAsSubmitted 5 exampleCandidate ''9'' examplePrices (Some 1000) emptyDb = Some d \<and>
     get_proposal 7 d = Some (Some p) \<and> p_sellAmount p = 50 \<and> p_settlementPenaltyCap p = Some 1000"
proof -
  have ids: "c_id exampleCandidate = 7" "c_sellAmount exampleCandidate = 50"
    by (simp_all add: exampleCandidate_def)
  obtain d where d: "insertAsSubmitted 5 exampleCandidate ''9'' examplePrices (Some 1000) emptyDb = Some d"
    using insert_fresh [of emptyDb exampleCandidate "5" "''9''" examplePrices "Some 1000"] by auto
  have "isStorableId (c_id exampleCandidate)" by (simp add: ids isStorableId_def isSafeInteger_def)
  then show ?thesis using submitted_round_trip [OF d] d ids by auto
qed

section \<open>The lifecycle\<close>

text \<open>The edges a proposal's mirrored status may take in one operation.\<close>

fun status_edge :: "status \<Rightarrow> status \<Rightarrow> bool" where
  "status_edge Submitted t \<longleftrightarrow> t \<in> {Submitted, Settled, SettleFailed, Lost, Cancelled}"
| "status_edge Lost t \<longleftrightarrow> t \<in> {Lost, Settled, SettleFailed}"
| "status_edge s t \<longleftrightarrow> t = s"

text \<open>The settlement hash an outcome carries is not empty (\<open>outcomeOf\<close> in notify.ts).\<close>

fun hash_ok :: "settlement_outcome \<Rightarrow> bool" where
  "hash_ok (Succeeded h) \<longleftrightarrow> h \<noteq> []"
| "hash_ok (Reverted h) \<longleftrightarrow> h \<noteq> []"
| "hash_ok _ \<longleftrightarrow> True"

text \<open>
  The writes of the service on the proposal tables, at any time and in any order. A candidate is
  inserted under an id that is in neither table; a log write of the ingestion or of the flush is
  terminal; a settlement outcome and a late correction carry a hash that is not empty; an abandonment
  penalty is written on proposals that have none.
\<close>

inductive store_step :: "db \<Rightarrow> db \<Rightarrow> bool" where
  st_insert: "logRow d (c_id c) = None \<Longrightarrow> insertAsSubmitted now c b prices cap d = Some d' \<Longrightarrow> store_step d d'"
| st_log: "isTerminalStatus s \<Longrightarrow> s \<noteq> Settled \<Longrightarrow> s \<noteq> SettleFailed \<Longrightarrow> s \<noteq> Lost \<Longrightarrow>
    store_step d (writeToLog now i p s reason params d)"
| st_outcome: "hash_ok oc \<Longrightarrow>
    store_step d (snd (applySettlementOutcome now p oc d))"
| st_lost: "store_step d (snd (applyLostOutcome now i reason d))"
| st_late: "store_step d (snd (applyLateLostCorrection now i oc d))"
| st_penalty: "store_step d (snd (recordPenalty now p amount h d))"
| st_members: "(\<And>i l. i \<in> set ids \<Longrightarrow> logRow d i = Some l \<Longrightarrow> r_penaltyTxHash l = None) \<Longrightarrow>
    store_step d (penalizeMembers h ids d)"
| st_redact: "store_step d (snd (redactOldLogEntries now secs d))"

text \<open>
  A live row's mirror agrees with it on the lifecycle columns; a settled or failed proposal has its
  settlement hash and no other has. Between operations a live row is submitted, settled or
  cancelled.
\<close>

definition mirrors :: "proposal_row \<Rightarrow> proposal_row \<Rightarrow> bool" where
  "mirrors l r \<longleftrightarrow> r_status l = r_status r \<and> r_settlementTxHash l = r_settlementTxHash r \<and>
     r_penaltyTxHash l = r_penaltyTxHash r"

definition row_ok :: "proposal_row \<Rightarrow> bool" where
  "row_ok l \<longleftrightarrow> (r_settlementTxHash l \<noteq> None \<longleftrightarrow> r_status l \<in> {Settled, SettleFailed})"

definition store_mid :: "db \<Rightarrow> bool" where
  "store_mid d \<longleftrightarrow> keys_ok d \<and>
     (\<forall>i r. liveRow d i = Some r \<longrightarrow> (\<exists>l. logRow d i = Some l \<and> mirrors l r)) \<and>
     (\<forall>i l. logRow d i = Some l \<longrightarrow> row_ok l)"

definition live_ok :: "db \<Rightarrow> bool" where
  "live_ok d \<longleftrightarrow> (\<forall>i r. liveRow d i = Some r \<longrightarrow> r_status r \<in> {Submitted, Settled, Cancelled})"

definition store_inv :: "db \<Rightarrow> bool" where
  "store_inv d \<longleftrightarrow> store_mid d \<and> live_ok d"

text \<open>What an operation may do to a row's lifecycle columns, and to the mirror of every id.\<close>

definition row_moves :: "proposal_row \<Rightarrow> proposal_row \<Rightarrow> bool" where
  "row_moves l l' \<longleftrightarrow> status_edge (r_status l) (r_status l') \<and>
     (r_settlementTxHash l \<noteq> None \<longrightarrow> r_settlementTxHash l' = r_settlementTxHash l) \<and>
     (r_penaltyTxHash l \<noteq> None \<longrightarrow> r_penaltyTxHash l' = r_penaltyTxHash l)"

definition log_moves :: "db \<Rightarrow> db \<Rightarrow> bool" where
  "log_moves d d' \<longleftrightarrow>
     (\<forall>i l. logRow d i = Some l \<longrightarrow> (\<exists>l'. logRow d' i = Some l' \<and> row_moves l l'))"

lemma status_edge_refl [simp]: "status_edge s s"
  by (cases s) auto

lemma status_edge_trans: "status_edge s t \<Longrightarrow> status_edge t u \<Longrightarrow> status_edge s u"
  by (cases s; cases t) auto

lemma row_moves_refl [simp]: "row_moves l l"
  by (simp add: row_moves_def)

lemma row_moves_trans: "row_moves l m \<Longrightarrow> row_moves m n \<Longrightarrow> row_moves l n"
  unfolding row_moves_def using status_edge_trans by metis

lemma log_moves_refl [simp]: "log_moves d d"
  by (auto simp: log_moves_def)

lemma log_moves_trans: "log_moves d e \<Longrightarrow> log_moves e f \<Longrightarrow> log_moves d f"
  unfolding log_moves_def using row_moves_trans by metis

lemma store_midD:
  assumes "store_mid d"
  shows "keys_ok d" "liveRow d i = Some r \<Longrightarrow> \<exists>l. logRow d i = Some l \<and> mirrors l r"
    "logRow d i = Some l \<Longrightarrow> row_ok l" "liveRow d i = Some r \<Longrightarrow> row_ok r"
proof -
  show "keys_ok d" "liveRow d i = Some r \<Longrightarrow> \<exists>l. logRow d i = Some l \<and> mirrors l r"
    "logRow d i = Some l \<Longrightarrow> row_ok l" using assms by (auto simp: store_mid_def)
  show "row_ok r" if r: "liveRow d i = Some r"
  proof -
    obtain l where "logRow d i = Some l" "mirrors l r"
      using assms r unfolding store_mid_def by blast
    moreover have "row_ok l" using assms calculation(1) by (auto simp: store_mid_def)
    ultimately show ?thesis by (simp add: mirrors_def row_ok_def)
  qed
qed

lemma sync_lifecycle [simp]:
  "r_status (sync_cols n l) = r_status n" "r_settlementTxHash (sync_cols n l) = r_settlementTxHash n"
  "r_penaltyTxHash (sync_cols n l) = r_penaltyTxHash n"
  by (simp_all add: sync_cols_def)

text \<open>An update of live rows that keeps them well formed and moves along an edge.\<close>

lemma update_moves:
  assumes mid: "store_mid d" and ids: "\<And>r. r_id (f r) = r_id r"
    and f: "\<And>i r. liveRow d i = Some r \<Longrightarrow> P r \<Longrightarrow> row_ok (f r) \<and> row_moves r (f r)"
  shows "store_mid (updateProposals P f d) \<and> log_moves d (updateProposals P f d)"
proof
  note live = liveRow_update [of f P d, OF ids] and log = logRow_update [OF store_midD(1) [OF mid] ids]
  have "\<exists>l. logRow (updateProposals P f d) i = Some l \<and> mirrors l r"
    if r: "liveRow (updateProposals P f d) i = Some r" for i r
  proof -
    obtain r0 where r0: "liveRow d i = Some r0" "r = (if P r0 then f r0 else r0)"
      using r live by auto
    obtain l where "logRow d i = Some l" "mirrors l r0" using store_midD(2) [OF mid r0(1)] by blast
    then show ?thesis using r0 by (auto simp: log mirrors_def)
  qed
  moreover have "row_ok l" if l: "logRow (updateProposals P f d) i = Some l" for i l
  proof (cases "liveRow d i")
    case None
    then show ?thesis using l store_midD(3) [OF mid] by (simp add: log)
  next
    case (Some r)
    then show ?thesis
      using l store_midD(3) [OF mid] f [OF Some] by (auto simp: log row_ok_def split: if_splits)
  qed
  ultimately show "store_mid (updateProposals P f d)"
    unfolding store_mid_def using keys_ok_update [OF store_midD(1) [OF mid] ids] by blast
  show "log_moves d (updateProposals P f d)"
    unfolding log_moves_def
  proof (intro allI impI)
    fix i l assume l: "logRow d i = Some l"
    show "\<exists>l'. logRow (updateProposals P f d) i = Some l' \<and> row_moves l l'"
    proof (cases "liveRow d i")
      case (Some r)
      have "mirrors l r" using store_midD(2) [OF mid Some] l by auto
      then show ?thesis using l Some f [OF Some] by (auto simp: log mirrors_def row_moves_def)
    qed (use l in \<open>simp add: log\<close>)
  qed
qed

lemma delete_moves:
  assumes "store_mid d"
  shows "store_mid (deleteProposals P d) \<and> log_moves d (deleteProposals P d)"
  using assms store_midD(1) [OF assms] keys_ok_delete
  by (auto simp: store_mid_def liveRow_delete log_moves_def split: option.splits if_splits)

text \<open>An update of log rows whose live row does not exist.\<close>

lemma log_update_moves:
  assumes mid: "store_mid d" and ids: "\<And>l. r_id (f l) = r_id l"
    and f: "\<And>i l. logRow d i = Some l \<Longrightarrow> P l \<Longrightarrow> row_ok (f l) \<and> row_moves l (f l) \<and>
        (liveRow d i = None \<or> mirrors (f l) l)"
  shows "store_mid (d\<lparr>proposalsLog := sql_update P f (proposalsLog d)\<rparr>) \<and>
    log_moves d (d\<lparr>proposalsLog := sql_update P f (proposalsLog d)\<rparr>)"
proof -
  let ?d = "d\<lparr>proposalsLog := sql_update P f (proposalsLog d)\<rparr>"
  have log: "logRow ?d i = map_option (\<lambda>l. if P l then f l else l) (logRow d i)" for i
    by (simp add: logRow_def find_update_key ids)
  have live: "liveRow ?d i = liveRow d i" for i by (simp add: liveRow_def)
  have "keys_ok ?d" using store_midD(1) [OF mid] ids by (simp add: keys_ok_def keys_sql_update)
  moreover have "\<exists>l. logRow ?d i = Some l \<and> mirrors l r" if r: "liveRow d i = Some r" for i r
  proof -
    obtain l where "logRow d i = Some l" "mirrors l r" using store_midD(2) [OF mid r] by blast
    then show ?thesis using f [of i l] r by (auto simp: log mirrors_def)
  qed
  moreover have "row_ok l" if "logRow ?d i = Some l" for i l
    using that f store_midD(3) [OF mid] by (auto simp: log split: if_splits)
  moreover have "log_moves d ?d" using f by (auto simp: log_moves_def log)
  ultimately show ?thesis by (auto simp: store_mid_def live)
qed

subsection \<open>Each operation\<close>

lemma insert_moves:
  assumes mid: "store_mid d" and live: "live_ok d" and fresh: "logRow d (c_id c) = None"
    and ins: "insertAsSubmitted now c b prices cap d = Some d'"
  shows "store_inv d' \<and> log_moves d d'"
proof -
  let ?r = "submittedRow now c b prices cap"
  have i: "insertProposal ?r d = Some d'" using ins by (simp add: insertAsSubmitted_def)
  have rid: "r_id ?r = c_id c" and ok: "row_ok ?r" and st: "r_status ?r = Submitted"
    by (simp_all add: submittedRow_def row_ok_def)
  note rows = liveRow_insert [OF i] logRow_insert [OF i]
  have "store_mid d'"
    unfolding store_mid_def
    using keys_ok_insert [OF store_midD(1) [OF mid] i] store_midD(2,3) [OF mid] fresh ok
    by (auto simp: rows rid mirrors_def)
  moreover have "live_ok d'" using live st by (auto simp: live_ok_def rows rid)
  moreover have "log_moves d d'" using fresh by (auto simp: log_moves_def rows rid)
  ultimately show ?thesis by (simp add: store_inv_def)
qed

lemma log_append_find:
  "find P (xs @ [x]) = (case find P xs of None \<Rightarrow> if P x then Some x else None | s \<Rightarrow> s)"
  by (induction xs) auto

lemma writeToLog_rows:
  "logRow (writeToLog now i p s reason params d) j =
     (case logRow d j of Some l \<Rightarrow> Some l | None \<Rightarrow>
        if j = i then Some (logRowOf now i p s reason params) else None)"
  "liveRow (writeToLog now i p s reason params d) j = liveRow d j"
  by (auto simp: writeToLog_def logRow_def liveRow_def log_append_find find_None_hit [symmetric]
      logRowOf_def split: option.splits)

lemma writeToLog_moves:
  assumes mid: "store_mid d" and live: "live_ok d" and s: "s \<noteq> Settled" "s \<noteq> SettleFailed"
  shows "store_inv (writeToLog now i p s reason params d) \<and>
    log_moves d (writeToLog now i p s reason params d)"
proof -
  let ?d = "writeToLog now i p s reason params d"
  have "keys_ok ?d"
    using store_midD(1) [OF mid] by (auto simp: writeToLog_def keys_ok_def sql_hit_def logRowOf_def)
  moreover have "row_ok (logRowOf now i p s reason params)" using s by (simp add: logRowOf_def row_ok_def)
  moreover have "\<exists>l. logRow ?d j = Some l \<and> mirrors l r" if "liveRow ?d j = Some r" for j r
    using store_midD(2) [OF mid, of j r] that by (auto simp: writeToLog_rows)
  moreover have "row_ok l" if "logRow ?d j = Some l" for j l
    using store_midD(3) [OF mid, of j l] that calculation(2)
    by (auto simp: writeToLog_rows split: option.splits if_splits)
  ultimately have "store_mid ?d" by (simp add: store_mid_def)
  moreover have "live_ok ?d" using live by (simp add: live_ok_def writeToLog_rows)
  ultimately show ?thesis by (simp add: store_inv_def log_moves_def writeToLog_rows)
qed

lemma outcomeTarget_SomeD:
  assumes "outcomeTarget from oc = Some (to, h)"
  shows "from = Submitted \<and> (to = Lost \<and> h = None \<and> oc = Abandoned \<or>
    to = Settled \<and> (\<exists>t. h = Some t \<and> oc = Succeeded t) \<or>
    to = SettleFailed \<and> (\<exists>t. h = Some t \<and> oc = Reverted t))"
  using assms by (cases oc) (auto split: if_splits)

lemma outcome_moves:
  assumes mid: "store_mid d" and live: "live_ok d" and hash: "hash_ok oc"
  shows "store_inv (snd (applySettlementOutcome now p oc d)) \<and>
    log_moves d (snd (applySettlementOutcome now p oc d))"
proof (cases "liveRow d (p_id p)")
  case None
  then show ?thesis using mid live by (simp add: applySettlementOutcome_def store_inv_def)
next
  case (Some locked)
  show ?thesis
  proof (cases "outcomeTarget (r_status locked) oc")
    case None
    then show ?thesis using mid live Some by (simp add: applySettlementOutcome_def store_inv_def)
  next
    case target: (Some th)
    obtain to h where th: "th = (to, h)" by (cases th)
    note tgt = outcomeTarget_SomeD [OF target [unfolded th]]
    let ?f = "outcomeSet now p oc to h"
    let ?g = "\<lambda>r. r\<lparr>r_status := Cancelled, r_statusChangedAt := now\<rparr>"
    define d1 where "d1 = updateProposals (\<lambda>r. r_id r = p_id p) ?f d"
    define cs where "cs = (if isSucceeded oc then filter (isSibling locked (p_id p)) (proposals d1) else [])"
    define d2 where "d2 = (if cs = [] then d1 else updateProposals (\<lambda>r. r_id r \<in> r_id ` set cs) ?g d1)"
    define d3 where "d3 = (if to = Lost \<or> to = SettleFailed
        then deleteProposals (\<lambda>r. r_id r = p_id p) d2 else d2)"
    have res: "snd (applySettlementOutcome now p oc d) = d3"
      using Some target th by (simp add: applySettlementOutcome_def Let_def d1_def d2_def d3_def cs_def)
    have f_id: "\<And>r. r_id (?f r) = r_id r" by (simp add: outcomeSet_def)
    have "row_ok (?f r) \<and> row_moves r (?f r)" if r: "liveRow d i = Some r" "r_id r = p_id p" for i r
    proof -
      have "i = p_id p" using liveRow_id [OF r(1)] r(2) by simp
      then have "r = locked" using r(1) Some by simp
      then have "r_status r = Submitted" using tgt by simp
      then show ?thesis
        using store_midD(4) [OF mid r(1)] tgt hash
        by (auto simp: row_ok_def row_moves_def outcomeSet_def)
    qed
    then have m1: "store_mid d1 \<and> log_moves d d1" unfolding d1_def
      by (intro update_moves [OF mid f_id]) auto
    have cs_ok: "r_status r = Submitted" if "r \<in> set cs" for r
      using that by (auto simp: cs_def isSibling_def split: if_splits)
    have keys1: "keys_ok d1" using m1 store_midD(1) by blast
    have "row_ok (?g r) \<and> row_moves r (?g r)" if r: "liveRow d1 i = Some r" "r_id r \<in> r_id ` set cs" for i r
    proof -
      obtain s where s: "s \<in> set cs" "r_id s = r_id r" using r(2) by auto
      have "s \<in> set (proposals d1)" using s(1) by (auto simp: cs_def split: if_splits)
      then have "liveRow d1 (r_id r) = Some s" using liveRow_in [OF keys1] s(2) by metis
      then have "s = r" using r(1) liveRow_id [OF r(1)] by simp
      then have "r_status r = Submitted" using cs_ok s(1) by simp
      moreover have "row_ok r" using m1 r(1) store_midD(4) by blast
      ultimately show ?thesis by (auto simp: row_ok_def row_moves_def)
    qed
    then have m2: "store_mid d2 \<and> log_moves d d2" unfolding d2_def
      using m1 update_moves [of d1 ?g "\<lambda>r. r_id r \<in> r_id ` set cs"] log_moves_trans by auto
    have m3: "store_mid d3 \<and> log_moves d d3" unfolding d3_def
      using m2 delete_moves [of d2] log_moves_trans by auto
    have "r_status r \<in> {Submitted, Settled, Cancelled}" if r3: "liveRow d3 i = Some r" for i r
    proof -
      have r2: "liveRow d2 i = Some r" and del: "to \<in> {Lost, SettleFailed} \<Longrightarrow> r_id r \<noteq> p_id p"
        using r3 m2 store_midD(1) [of d2]
        by (auto simp: d3_def liveRow_delete split: if_splits option.splits)
      obtain r1 where r1: "liveRow d1 i = Some r1" "r = r1 \<or> r = ?g r1"
        using r2 by (cases "cs = []") (auto simp: d2_def liveRow_update)
      obtain r0 where r0: "liveRow d i = Some r0" "r1 = (if r_id r0 = p_id p then ?f r0 else r0)"
        using r1(1) f_id by (auto simp: d1_def liveRow_update)
      have "r_status r0 \<in> {Submitted, Settled, Cancelled}" using live r0(1) by (simp add: live_ok_def)
      then show ?thesis using r0 r1 tgt del by (auto simp: outcomeSet_def split: if_splits)
    qed
    then show ?thesis using m3 res by (simp add: store_inv_def live_ok_def)
  qed
qed

lemma lost_moves:
  assumes mid: "store_mid d" and live: "live_ok d"
  shows "store_inv (snd (applyLostOutcome now i reason d)) \<and> log_moves d (snd (applyLostOutcome now i reason d))"
proof (cases "\<exists>r. liveRow d i = Some r \<and> r_status r = Submitted")
  case False
  then show ?thesis using mid live by (auto simp: applyLostOutcome_def store_inv_def split: option.split)
next
  case True
  then obtain locked where l: "liveRow d i = Some locked" "r_status locked = Submitted" by blast
  let ?f = "\<lambda>r. r\<lparr>r_status := Lost, r_rejectionReason := Some reason, r_statusChangedAt := now\<rparr>"
  let ?d1 = "updateProposals (\<lambda>r. r_id r = i) ?f d"
  have "row_ok (?f r) \<and> row_moves r (?f r)" if r: "liveRow d j = Some r" "r_id r = i" for j r
  proof -
    have "r = locked" using liveRow_id [OF r(1)] r l(1) by simp
    then show ?thesis using store_midD(4) [OF mid r(1)] l(2) by (auto simp: row_ok_def row_moves_def)
  qed
  then have m1: "store_mid ?d1 \<and> log_moves d ?d1" by (intro update_moves [OF mid]) auto
  let ?d2 = "deleteProposals (\<lambda>r. r_id r = i) ?d1"
  have m2: "store_mid ?d2 \<and> log_moves d ?d2" using m1 delete_moves log_moves_trans by blast
  have "live_ok ?d2"
    using live m1 store_midD(1) [of ?d1]
    by (auto simp: live_ok_def liveRow_delete liveRow_update split: option.splits if_splits)
  then show ?thesis using m2 l by (simp add: applyLostOutcome_def store_inv_def)
qed

lemma live_ok_log [simp]: "live_ok (d\<lparr>proposalsLog := t\<rparr>) = live_ok d"
  by (simp add: live_ok_def liveRow_def)

lemma no_live:
  assumes "store_mid d" "live_ok d" "logRow d i = Some l" "r_status l \<in> {Lost, SettleFailed}"
  shows "liveRow d i = None"
  using assms store_midD(2) [OF assms(1)]
  by (cases "liveRow d i") (fastforce simp: live_ok_def mirrors_def)+

lemma late_moves:
  assumes mid: "store_mid d" and live: "live_ok d"
  shows "store_inv (snd (applyLateLostCorrection now i oc d)) \<and>
    log_moves d (snd (applyLateLostCorrection now i oc d))"
proof (cases "lateTarget oc")
  case None
  then show ?thesis using mid live by (simp add: applyLateLostCorrection_def store_inv_def)
next
  case (Some th)
  obtain to h where th: "th = (to, h)" by (cases th)
  have to: "to \<in> {Settled, SettleFailed}" using Some th by (cases oc) auto
  let ?P = "\<lambda>l. r_id l = i \<and> r_status l = Lost"
  let ?f = "\<lambda>l. l\<lparr>r_status := to, r_settlementTxHash := Some (lower h), r_statusChangedAt := now\<rparr>"
  have m: "store_mid (d\<lparr>proposalsLog := sql_update ?P ?f (proposalsLog d)\<rparr>) \<and>
      log_moves d (d\<lparr>proposalsLog := sql_update ?P ?f (proposalsLog d)\<rparr>)"
  proof (rule log_update_moves [OF mid])
    fix j l assume l: "logRow d j = Some l" "?P l"
    then show "row_ok (?f l) \<and> row_moves l (?f l) \<and> (liveRow d j = None \<or> mirrors (?f l) l)"
      using store_midD(3) [OF mid l(1)] no_live [OF mid live l(1)] to
      by (auto simp: row_ok_def row_moves_def)
  qed simp
  show ?thesis
    using m mid live Some th
    by (cases "find ?P (proposalsLog d)") (auto simp: applyLateLostCorrection_def store_inv_def)
qed

lemma penalty_moves:
  assumes mid: "store_mid d" and live: "live_ok d"
  shows "store_inv (snd (recordPenalty now p amount h d)) \<and> log_moves d (snd (recordPenalty now p amount h d))"
proof -
  let ?P = "\<lambda>l. r_id l = p_id p \<and> r_status l = SettleFailed \<and> r_penaltyTxHash l = None"
  let ?f = "\<lambda>l. l\<lparr>r_penaltyTxHash := Some (lower h)\<rparr>"
  have m: "store_mid (d\<lparr>proposalsLog := sql_update ?P ?f (proposalsLog d)\<rparr>) \<and>
      log_moves d (d\<lparr>proposalsLog := sql_update ?P ?f (proposalsLog d)\<rparr>)"
  proof (rule log_update_moves [OF mid])
    fix j l assume l: "logRow d j = Some l" "?P l"
    then show "row_ok (?f l) \<and> row_moves l (?f l) \<and> (liveRow d j = None \<or> mirrors (?f l) l)"
      using store_midD(3) [OF mid l(1)] no_live [OF mid live l(1)]
      by (auto simp: row_ok_def row_moves_def)
  qed simp
  then show ?thesis using mid live by (simp add: recordPenalty_def Let_def store_inv_def)
qed

lemma redact_moves:
  assumes mid: "store_mid d" and live: "live_ok d"
  shows "store_inv (snd (redactOldLogEntries now secs d)) \<and> log_moves d (snd (redactOldLogEntries now secs d))"
proof -
  let ?f = "\<lambda>l. l\<lparr>r_interactions := [], r_simulationFailureParams := None\<rparr>"
  have "store_mid (snd (redactOldLogEntries now secs d)) \<and>
      log_moves d (snd (redactOldLogEntries now secs d))"
    unfolding redactOldLogEntries_def snd_conv
    by (rule log_update_moves [OF mid]) (use store_midD(3) [OF mid] in
      \<open>auto simp: row_ok_def row_moves_def mirrors_def\<close>)
  then show ?thesis using live by (simp add: store_inv_def redactOldLogEntries_def)
qed

lemma members_moves:
  assumes mid: "store_mid d" and live: "live_ok d"
    and fresh: "\<And>i l. i \<in> set ids \<Longrightarrow> logRow d i = Some l \<Longrightarrow> r_penaltyTxHash l = None"
  shows "store_inv (penalizeMembers h ids d) \<and> log_moves d (penalizeMembers h ids d)"
proof -
  let ?f = "\<lambda>r. r\<lparr>r_penaltyTxHash := Some (lower h)\<rparr>"
  define d1 where "d1 = updateProposals (\<lambda>r. r_id r \<in> set ids) ?f d"
  let ?d2 = "d1\<lparr>proposalsLog := sql_update (\<lambda>l. r_id l \<in> set ids) ?f (proposalsLog d1)\<rparr>"
  have "row_ok (?f r) \<and> row_moves r (?f r)" if r: "liveRow d i = Some r" "r_id r \<in> set ids" for i r
  proof -
    obtain l where l: "logRow d i = Some l" "mirrors l r" using store_midD(2) [OF mid r(1)] by blast
    have "r_penaltyTxHash l = None" using fresh [OF _ l(1)] r liveRow_id [OF r(1)] by simp
    then show ?thesis using l(2) store_midD(4) [OF mid r(1)] by (simp add: mirrors_def row_ok_def row_moves_def)
  qed
  then have m1: "store_mid d1 \<and> log_moves d d1" unfolding d1_def by (intro update_moves [OF mid]) auto
  have keys: "keys_ok d" using mid by (rule store_midD)
  have log1: "logRow d1 i = (case liveRow d i of
      Some r \<Rightarrow> if r_id r \<in> set ids then map_option (sync_cols (?f r)) (logRow d i) else logRow d i
    | None \<Rightarrow> logRow d i)" for i unfolding d1_def by (rule logRow_update [OF keys]) simp
  have live1: "liveRow d1 i = map_option (\<lambda>r. if r_id r \<in> set ids then ?f r else r) (liveRow d i)" for i
    unfolding d1_def by (rule liveRow_update) simp
  have upd: "row_ok (?f l) \<and> row_moves l (?f l) \<and> (liveRow d1 i = None \<or> mirrors (?f l) l)"
    if l: "logRow d1 i = Some l" "r_id l \<in> set ids" for i l
  proof (cases "liveRow d i")
    case None
    then have "logRow d i = Some l" using l(1) by (simp add: log1)
    moreover have "r_penaltyTxHash l = None" using fresh [OF _ calculation] l logRow_id [OF calculation] by simp
    ultimately show ?thesis using store_midD(3) [OF mid] None by (simp add: row_ok_def row_moves_def live1)
  next
    case (Some r)
    then have "i \<in> set ids" "r_id r \<in> set ids" using l logRow_id [OF l(1)] liveRow_id [OF Some] by auto
    then have "r_penaltyTxHash l = Some (lower h)" using l(1) Some by (auto simp: log1)
    moreover have "row_ok l" using m1 l(1) store_midD(3) by blast
    ultimately show ?thesis by (simp add: row_ok_def row_moves_def mirrors_def)
  qed
  have "store_mid ?d2 \<and> log_moves d1 ?d2"
    by (rule log_update_moves [where d = d1 and P = "\<lambda>l. r_id l \<in> set ids" and f = ?f,
        OF conjunct1 [OF m1] _ upd]) (simp, assumption, assumption)
  moreover have "live_ok d1"
    unfolding live_ok_def
  proof (intro allI impI)
    fix i r assume "liveRow d1 i = Some r"
    then obtain r0 where "liveRow d i = Some r0" "r_status r = r_status r0"
      unfolding live1 by (cases "liveRow d i") (auto split: if_splits)
    then show "r_status r \<in> {Submitted, Settled, Cancelled}" using live unfolding live_ok_def by metis
  qed
  moreover have "penalizeMembers h ids d = ?d2" by (simp only: penalizeMembers_def Let_def d1_def)
  moreover have "live_ok ?d2" using calculation(2) by (simp only: live_ok_log)
  ultimately show ?thesis
    using m1 log_moves_trans [of d d1 ?d2] by (simp only: store_inv_def simp_thms)
qed

lemma store_step_moves:
  assumes inv: "store_inv d" and step: "store_step d d'"
  shows "store_inv d' \<and> log_moves d d'"
proof -
  have mid: "store_mid d" and live: "live_ok d" using inv by (auto simp: store_inv_def)
  from step show ?thesis
  proof cases
    case (st_insert c now b prices cap)
    show ?thesis by (rule insert_moves [OF mid live st_insert])
  next
    case (st_log s now i p reason params)
    then show ?thesis using writeToLog_moves [OF mid live] by simp
  next
    case (st_outcome oc now p)
    then show ?thesis using outcome_moves [OF mid live] by simp
  next
    case (st_lost now i reason)
    then show ?thesis using lost_moves [OF mid live] by simp
  next
    case (st_late now i oc)
    then show ?thesis using late_moves [OF mid live] by simp
  next
    case (st_penalty now p amount h)
    then show ?thesis using penalty_moves [OF mid live] by simp
  next
    case (st_members ids h)
    show ?thesis unfolding st_members(1) by (rule members_moves [OF mid live st_members(2)])
  next
    case (st_redact now secs)
    then show ?thesis using redact_moves [OF mid live] by simp
  qed
qed

definition store_init :: "db \<Rightarrow> bool" where
  "store_init d \<longleftrightarrow> proposals d = [] \<and> proposalsLog d = []"

interpretation lifecycle: invariant_machine store_init store_step store_inv
proof
  fix d assume "store_init d"
  then show "store_inv d"
    by (simp add: store_init_def store_inv_def store_mid_def live_ok_def keys_ok_def liveRow_def logRow_def)
next
  fix d d' assume "store_inv d" "store_step d d'"
  then show "store_inv d'" by (simp add: store_step_moves)
qed

lemma path_moves:
  assumes "store_step\<^sup>*\<^sup>* d d'" "store_inv d"
  shows "store_inv d' \<and> log_moves d d'"
  using assms
  by (induction rule: rtranclp_induct) (auto intro: log_moves_trans dest: store_step_moves)


lemma reach_example:
  obtains d where "insertAsSubmitted 5 exampleCandidate ''9'' examplePrices (Some 1000) emptyDb = Some d"
    "reachable store_init store_step d"
proof -
  obtain d where d: "insertAsSubmitted 5 exampleCandidate ''9'' examplePrices (Some 1000) emptyDb = Some d"
    using insert_fresh [of emptyDb exampleCandidate 5 "''9''" examplePrices "Some 1000"] by auto
  have "reachable store_init store_step emptyDb" by (rule reach_init) (simp add: store_init_def emptyDb_def)
  then have "reachable store_init store_step d"
    by (rule reach_step) (rule st_insert [OF _ d], simp)
  with d that show thesis by blast
qed


end
