(* ===== verification/Debits.thy ===== *)
theory Debits
  imports Storage
begin

text \<open>
  The durable debit operations: their store (\<open>debit_operations\<close> in \<open>apps/byos/src/infra/storage.ts\<close>),
  the program a penalty worker runs under an operation's lease (\<open>durableDebit\<close> of
  \<open>infra/jobs/penalty.ts\<close>) and the manual resume. The escrow operator of \<open>blockchain/operator.ts\<close>
  signs, broadcasts and looks receipts up; those chain calls are an environment.

  \<open>durable_next\<close> is one database statement or one chain call of the program; \<open>durableDebit\<close> runs it
  to the end, and the step relation \<open>debit_step\<close> interleaves any number of workers, each of which
  may stop at any point, with time, failures, resumes and superseding notifications. The theorems
  are about that interleaving: whatever crashes and races happen, an operation has one transaction.
\<close>

section \<open>The store\<close>

record debit_operation =
  op_id :: int
  op_sourceKind :: string
  op_sourceId :: string
  op_subSolver :: string
  op_amount :: int
  op_reason :: string
  op_status :: debit_status
  op_rawTransaction :: "string option"
  op_transactionHash :: "string option"

record debit_input =
  di_sourceKind :: string
  di_sourceId :: string
  di_subSolver :: string
  di_amount :: int
  di_reason :: string

text \<open>\<open>None\<close> is an amount column that does not parse, which throws.\<close>

definition rowToDebitOperation :: "debit_row \<Rightarrow> debit_operation option" where
  "rowToDebitOperation r =
     map_option (\<lambda>amount. \<lparr>op_id = d_id r, op_sourceKind = d_sourceKind r, op_sourceId = d_sourceId r,
         op_subSolver = d_subSolver r, op_amount = amount, op_reason = d_reason r,
         op_status = d_status r, op_rawTransaction = d_rawTransaction r,
         op_transactionHash = d_transactionHash r\<rparr>)
       (BigInt (d_amount r))"

definition debitRow :: "db \<Rightarrow> int \<Rightarrow> debit_row option" where
  "debitRow d i = find (\<lambda>r. d_id r = i) (debitOperations d)"

definition updateDebits :: "(debit_row \<Rightarrow> bool) \<Rightarrow> (debit_row \<Rightarrow> debit_row) \<Rightarrow> db \<Rightarrow> db" where
  "updateDebits P f d = d\<lparr>debitOperations := sql_update P f (debitOperations d)\<rparr>"

definition newDebitRow :: "int \<Rightarrow> int \<Rightarrow> debit_input \<Rightarrow> debit_row" where
  "newDebitRow now i x =
     \<lparr>d_id = i, d_sourceKind = di_sourceKind x, d_sourceId = di_sourceId x,
      d_subSolver = lower (di_subSolver x), d_amount = bigint_str (di_amount x),
      d_reason = lower (di_reason x), d_status = Pending, d_leaseOwner = None,
      d_leaseExpiresAt = None, d_attemptCount = 0, d_lastError = None, d_nextRetryAt = None,
      d_rawTransaction = None, d_transactionHash = None, d_updatedAt = now\<rparr>"

definition sameSource :: "debit_input \<Rightarrow> debit_row \<Rightarrow> bool" where
  "sameSource x r \<longleftrightarrow> d_sourceKind r = di_sourceKind x \<and> d_sourceId r = di_sourceId x"

definition createDebitOperation :: "int \<Rightarrow> debit_input \<Rightarrow> db \<Rightarrow> debit_operation option \<times> db" where
  "createDebitOperation now x d =
     (let d' = (if sql_hit (sameSource x) (debitOperations d) then d
                else d\<lparr>debitOperations := debitOperations d @ [newDebitRow now (debitSeq d) x],
                       debitSeq := debitSeq d + 1\<rparr>)
      in (case find (sameSource x) (debitOperations d') of
            None \<Rightarrow> None | Some r \<Rightarrow> rowToDebitOperation r, d'))"

definition isOpen :: "debit_row \<Rightarrow> bool" where
  "isOpen r \<longleftrightarrow> d_status r = Pending \<or> d_status r = Broadcasting"

definition claimable :: "int \<Rightarrow> int \<Rightarrow> debit_row \<Rightarrow> bool" where
  "claimable now i r \<longleftrightarrow> d_id r = i \<and> isOpen r \<and>
     (case d_leaseExpiresAt r of None \<Rightarrow> True | Some e \<Rightarrow> e < now)"

definition lease :: "int \<Rightarrow> string \<Rightarrow> int \<Rightarrow> debit_row \<Rightarrow> debit_row" where
  "lease now own leaseSecs r =
     r\<lparr>d_leaseOwner := Some own, d_leaseExpiresAt := Some (now + leaseSecs * 1000), d_updatedAt := now\<rparr>"

text \<open>\<open>Some None\<close> is a lease that was not granted.\<close>

definition claimDebitOperation :: "int \<Rightarrow> int \<Rightarrow> string \<Rightarrow> int \<Rightarrow> db \<Rightarrow> debit_operation option option \<times> db" where
  "claimDebitOperation now i own leaseSecs d =
     (case find (claimable now i) (debitOperations d) of
        None \<Rightarrow> (Some None, d)
      | Some r \<Rightarrow> (map_option Some (rowToDebitOperation (lease now own leaseSecs r)),
                   updateDebits (claimable now i) (lease now own leaseSecs) d))"

definition owns :: "int \<Rightarrow> string \<Rightarrow> debit_row \<Rightarrow> bool" where
  "owns i own r \<longleftrightarrow> d_id r = i \<and> d_leaseOwner r = Some own"

definition persistSignedDebit :: "int \<Rightarrow> int \<Rightarrow> string \<Rightarrow> string \<Rightarrow> string \<Rightarrow> db \<Rightarrow> bool \<times> db" where
  "persistSignedDebit now i own rawTransaction transactionHash d =
     (let P = (\<lambda>r. owns i own r \<and> d_rawTransaction r = None) in
      (sql_hit P (debitOperations d),
       updateDebits P (\<lambda>r. r\<lparr>d_rawTransaction := Some (lower rawTransaction),
         d_transactionHash := Some (lower transactionHash), d_status := Broadcasting,
         d_updatedAt := now\<rparr>) d))"

definition completeDebitOperation :: "int \<Rightarrow> int \<Rightarrow> string \<Rightarrow> db \<Rightarrow> bool \<times> db" where
  "completeDebitOperation now i own d =
     (sql_hit (owns i own) (debitOperations d),
      updateDebits (owns i own) (\<lambda>r. r\<lparr>d_status := Completed, d_leaseOwner := None,
        d_leaseExpiresAt := None, d_nextRetryAt := None, d_updatedAt := now\<rparr>) d)"

definition failed :: "int \<Rightarrow> string \<Rightarrow> debit_row \<Rightarrow> debit_row" where
  "failed now err r =
     r\<lparr>d_attemptCount := d_attemptCount r + 1, d_lastError := Some err,
       d_status := (if 10 \<le> d_attemptCount r + 1 then NeedsReconciliation else Pending),
       d_nextRetryAt := (if 10 \<le> d_attemptCount r + 1 then None else Some now),
       d_leaseOwner := None, d_leaseExpiresAt := None, d_updatedAt := now\<rparr>"

definition recordDebitFailure :: "int \<Rightarrow> int \<Rightarrow> string \<Rightarrow> string \<Rightarrow> db \<Rightarrow> db" where
  "recordDebitFailure now i own err d = updateDebits (owns i own) (failed now err) d"

definition debitOperationStatus :: "int \<Rightarrow> db \<Rightarrow> debit_status option" where
  "debitOperationStatus i d = map_option d_status (debitRow d i)"

definition openDebitOperations :: "string \<Rightarrow> db \<Rightarrow> debit_operation list option" where
  "openDebitOperations kind d =
     those (map rowToDebitOperation (filter (\<lambda>r. d_sourceKind r = kind \<and> isOpen r) (debitOperations d)))"

definition RETRY_RECONCILIATION_REASON :: string where
  "RETRY_RECONCILIATION_REASON = ''Debit operation exhausted retries or requires review''"

text \<open>The pattern \<open>attempt:([1-9]\d*)\<close> of a source id, with its number when it is a safe integer.\<close>

definition attemptOfSourceId :: "string \<Rightarrow> int option" where
  "attemptOfSourceId s =
     (let digits = drop 8 s; n = Number (int (dec_val digits)) in
      if take 8 s = ''attempt:'' \<and> digits \<noteq> [] \<and> list_all is_digit digits \<and> hd digits \<noteq> CHR ''0'' \<and>
         isSafeInteger n
      then Some n else None)"

definition resumableAttempt :: "debit_row \<Rightarrow> attempt_row \<Rightarrow> bool" where
  "resumableAttempt operation a \<longleftrightarrow>
     a_status a = AttemptNeedsReconciliation \<and>
     a_reconciliationReason a = Some RETRY_RECONCILIATION_REASON \<and>
     a_outcome a = None \<and> a_startedAt a \<noteq> None \<and> a_abandonedAt a \<noteq> None \<and>
     a_amount a = Some (d_amount operation) \<and> a_subSolver a = d_subSolver operation"

definition attemptRow :: "db \<Rightarrow> int \<Rightarrow> attempt_row option" where
  "attemptRow d i = find (\<lambda>a. a_id a = i) (settlementAttempts d)"

definition resumed :: "int \<Rightarrow> debit_row \<Rightarrow> debit_row" where
  "resumed now r = r\<lparr>d_status := Pending, d_attemptCount := 0, d_lastError := None,
     d_nextRetryAt := Some now, d_leaseOwner := None, d_leaseExpiresAt := None, d_updatedAt := now\<rparr>"

definition resumeDebitOperation :: "int \<Rightarrow> int \<Rightarrow> db \<Rightarrow> bool \<times> db" where
  "resumeDebitOperation now i d =
     (case debitRow d i of
        None \<Rightarrow> (False, d)
      | Some operation \<Rightarrow>
          if d_status operation \<noteq> NeedsReconciliation then (False, d)
          else let d1 = updateDebits (\<lambda>r. d_id r = i \<and> d_status r = NeedsReconciliation) (resumed now) d in
            if d_sourceKind operation = ''non-settlement'' then
              (case attemptOfSourceId (d_sourceId operation) of
                 None \<Rightarrow> (False, d)
               | Some attemptId \<Rightarrow>
                   (case attemptRow d attemptId of
                      None \<Rightarrow> (False, d)
                    | Some a \<Rightarrow>
                        if \<not> resumableAttempt operation a then (False, d)
                        else (True, d1\<lparr>settlementAttempts := sql_update (\<lambda>a. a_id a = attemptId)
                          (\<lambda>a. a\<lparr>a_status := Eligible, a_reconciliationReason := None\<rparr>)
                          (settlementAttempts d1)\<rparr>)))
            else (True, d1))"

section \<open>The worker's program\<close>

datatype receipt = TxSucceeded | TxReverted

text \<open>
  The chain as one debit sees it: \<open>signDebit\<close> (\<open>None\<close> when it throws), the receipt lookup before and
  after the broadcast (\<open>None\<close> when there is none) and \<open>broadcastSignedDebit\<close> (\<open>None\<close> when it throws).
\<close>

record chain_env =
  env_sign :: "string \<Rightarrow> int \<Rightarrow> string \<Rightarrow> (string \<times> string) option"
  env_outcome :: "bool \<Rightarrow> string \<Rightarrow> receipt option"
  env_broadcast :: "string \<Rightarrow> string option"

record landed_debit =
  ld_hash :: string
  ld_operationId :: int
  ld_owner :: string

datatype pc =
  AtCreate debit_input
| AtClaim debit_input int
| AtSign debit_input debit_operation
| AtPersist int string string
| AtLookup int string string
| AtBroadcast int string string
| AtConfirm int string string
| AtFail int string
| Finished "landed_debit option"
| Threw

definition LEASE_SECS :: int where
  "LEASE_SECS = 60"

text \<open>One statement of \<open>durableDebit\<close>; the third component is what it sends to the network.\<close>

fun durable_next :: "chain_env \<Rightarrow> int \<Rightarrow> string \<Rightarrow> pc \<Rightarrow> db \<Rightarrow> pc \<times> db \<times> (int \<times> string) option" where
  "durable_next env now own (AtCreate x) d =
     (case createDebitOperation now x d of
        (None, d') \<Rightarrow> (Threw, d', None)
      | (Some op, d') \<Rightarrow> (AtClaim x (op_id op), d', None))"
| "durable_next env now own (AtClaim x i) d =
     (case claimDebitOperation now i own LEASE_SECS d of
        (None, d') \<Rightarrow> (Threw, d', None)
      | (Some None, d') \<Rightarrow> (Finished None, d', None)
      | (Some (Some claimed), d') \<Rightarrow>
          if falsy (op_rawTransaction claimed) \<or> falsy (op_transactionHash claimed)
          then (AtSign x claimed, d', None)
          else (AtLookup (op_id claimed) (the (op_rawTransaction claimed)) (the (op_transactionHash claimed)),
                d', None))"
| "durable_next env now own (AtSign x claimed) d =
     (case env_sign env (di_subSolver x) (op_amount claimed) (op_reason claimed) of
        None \<Rightarrow> (AtFail (op_id claimed) ''sign failed'', d, None)
      | Some (raw, h) \<Rightarrow> (AtPersist (op_id claimed) raw h, d, None))"
| "durable_next env now own (AtPersist i raw h) d =
     (case persistSignedDebit now i own raw h d of
        (False, d') \<Rightarrow> (Finished None, d', None)
      | (True, d') \<Rightarrow> (AtLookup i raw h, d', None))"
| "durable_next env now own (AtLookup i raw h) d =
     (case env_outcome env False h of
        Some TxSucceeded \<Rightarrow> (Finished (Some \<lparr>ld_hash = h, ld_operationId = i, ld_owner = own\<rparr>), d, None)
      | Some TxReverted \<Rightarrow> (AtFail i ''debit tx reverted'', d, None)
      | None \<Rightarrow> (AtBroadcast i raw h, d, None))"
| "durable_next env now own (AtBroadcast i raw h) d =
     (case env_broadcast env raw of
        None \<Rightarrow> (AtFail i ''broadcast failed'', d, Some (i, raw))
      | Some bh \<Rightarrow>
          if lower bh \<noteq> lower h then (AtFail i ''broadcast returned unexpected debit hash'', d, Some (i, raw))
          else (AtConfirm i raw h, d, Some (i, raw)))"
| "durable_next env now own (AtConfirm i raw h) d =
     (case env_outcome env True h of
        Some TxSucceeded \<Rightarrow> (Finished (Some \<lparr>ld_hash = h, ld_operationId = i, ld_owner = own\<rparr>), d, None)
      | Some TxReverted \<Rightarrow> (AtFail i ''debit tx reverted'', d, None)
      | None \<Rightarrow> (AtFail i ''debit tx outcome is not yet known'', d, None))"
| "durable_next env now own (AtFail i err) d = (Finished None, recordDebitFailure now i own err d, None)"
| "durable_next env now own (Finished r) d = (Finished r, d, None)"
| "durable_next env now own Threw d = (Threw, d, None)"

fun pc_rank :: "pc \<Rightarrow> nat" where
  "pc_rank (AtCreate x) = 8" | "pc_rank (AtClaim x i) = 7" | "pc_rank (AtSign x c) = 6"
| "pc_rank (AtPersist i r h) = 5" | "pc_rank (AtLookup i r h) = 4" | "pc_rank (AtBroadcast i r h) = 3"
| "pc_rank (AtConfirm i r h) = 2" | "pc_rank (AtFail i e) = 1" | "pc_rank (Finished r) = 0" | "pc_rank Threw = 0"

lemma pc_rank_next:
  "pc_rank c \<noteq> 0 \<Longrightarrow> pc_rank (fst (durable_next env now own c d)) < pc_rank c"
  by (cases c) (auto split: prod.splits option.splits if_splits bool.splits receipt.splits)

function run_debit :: "chain_env \<Rightarrow> int \<Rightarrow> string \<Rightarrow> pc \<Rightarrow> db \<Rightarrow> pc \<times> db" where
  "run_debit env now own c d =
     (if pc_rank c = 0 then (c, d)
      else let s = durable_next env now own c d in run_debit env now own (fst s) (fst (snd s)))"
  by pat_completeness auto
termination
  by (relation "measure (\<lambda>(env, now, own, c, d). pc_rank c)") (auto simp: pc_rank_next)

declare run_debit.simps [simp del]

text \<open>\<open>Inl\<close> is an exception before the \<open>try\<close> block.\<close>

definition durableDebit :: "chain_env \<Rightarrow> int \<Rightarrow> string \<Rightarrow> debit_input \<Rightarrow> db \<Rightarrow> (unit + landed_debit option) \<times> db" where
  "durableDebit env now own x d =
     (case run_debit env now own (AtCreate x) d of
        (Finished r, d') \<Rightarrow> (Inr r, d')
      | (_, d') \<Rightarrow> (Inl (), d'))"

text \<open>What a settlement outcome does to an abandonment debit (\<open>settlement-attempts.ts\<close>).\<close>

definition superseded :: "debit_row \<Rightarrow> debit_row" where
  "superseded r = r\<lparr>d_status := (if falsy (d_rawTransaction r) then DebitCancelled else NeedsReconciliation),
     d_lastError := Some ''Settlement outcome superseded abandonment'',
     d_leaseOwner := None, d_leaseExpiresAt := None\<rparr>"

section \<open>How a row may change\<close>

text \<open>
  The identity of an operation never changes, its charge neither, and its signed transaction is
  written once.
\<close>

definition evolves :: "debit_row \<Rightarrow> debit_row \<Rightarrow> bool" where
  "evolves r r' \<longleftrightarrow> d_id r' = d_id r \<and> d_sourceKind r' = d_sourceKind r \<and> d_sourceId r' = d_sourceId r \<and>
     d_subSolver r' = d_subSolver r \<and> d_amount r' = d_amount r \<and> d_reason r' = d_reason r \<and>
     (d_rawTransaction r \<noteq> None \<longrightarrow>
        d_rawTransaction r' = d_rawTransaction r \<and> d_transactionHash r' = d_transactionHash r)"

lemma evolves_refl [simp]: "evolves r r"
  by (simp add: evolves_def)

lemma evolves_trans: "evolves r s \<Longrightarrow> evolves s t \<Longrightarrow> evolves r t"
  by (auto simp: evolves_def)

definition debits_evolve :: "db \<Rightarrow> db \<Rightarrow> bool" where
  "debits_evolve d d' \<longleftrightarrow> (\<forall>i r. debitRow d i = Some r \<longrightarrow> (\<exists>r'. debitRow d' i = Some r' \<and> evolves r r'))"

lemma debits_evolve_refl [simp]: "debits_evolve d d"
  by (auto simp: debits_evolve_def)

definition debits_ok :: "db \<Rightarrow> bool" where
  "debits_ok d \<longleftrightarrow> distinct (map d_id (debitOperations d)) \<and>
     distinct (map (\<lambda>r. (d_sourceKind r, d_sourceId r)) (debitOperations d)) \<and>
     (\<forall>r \<in> set (debitOperations d). d_id r < debitSeq d)"

lemma updateDebits_row:
  "(\<And>r. d_id (f r) = d_id r) \<Longrightarrow>
   debitRow (updateDebits P f d) i = map_option (\<lambda>r. if P r then f r else r) (debitRow d i)"
  unfolding debitRow_def updateDebits_def by (simp add: find_sql_update)

lemma updateDebits_evolve:
  assumes "\<And>r. r \<in> set (debitOperations d) \<Longrightarrow> P r \<Longrightarrow> evolves r (f r)" "\<And>r. d_id (f r) = d_id r"
  shows "debits_evolve d (updateDebits P f d)"
  unfolding debits_evolve_def
proof (intro allI impI)
  fix i r assume r: "debitRow d i = Some r"
  then have "r \<in> set (debitOperations d)" by (auto simp: debitRow_def dest: find_SomeD)
  then have "evolves r (if P r then f r else r)" using assms(1) by simp
  then show "\<exists>r'. debitRow (updateDebits P f d) i = Some r' \<and> evolves r r'"
    using r assms(2) by (simp add: updateDebits_row)
qed

lemma updateDebits_ok:
  assumes "debits_ok d" "\<And>r. d_id (f r) = d_id r" "\<And>r. d_sourceKind (f r) = d_sourceKind r"
    "\<And>r. d_sourceId (f r) = d_sourceId r"
  shows "debits_ok (updateDebits P f d)"
  using assms keys_sql_update [of "\<lambda>r. (d_sourceKind r, d_sourceId r)" f P "debitOperations d"]
  by (auto simp: debits_ok_def updateDebits_def keys_sql_update set_sql_update)

lemma debitRow_in: "debits_ok d \<Longrightarrow> r \<in> set (debitOperations d) \<Longrightarrow> debitRow d (d_id r) = Some r"
  by (simp add: debits_ok_def debitRow_def find_key)

lemma debitRow_id: "debitRow d i = Some r \<Longrightarrow> d_id r = i \<and> r \<in> set (debitOperations d)"
  by (auto simp: debitRow_def dest: find_SomeD)

lemmas debit_row_updates = lease_def failed_def resumed_def superseded_def

lemma updates_evolve [simp]:
  "evolves r (lease now own secs r)" "evolves r (failed now err r)" "evolves r (resumed now r)"
  "evolves r (superseded r)"
  by (simp_all add: evolves_def debit_row_updates)

text \<open>Each statement keeps the keys and lets rows only evolve; this is the contract workers share.\<close>

definition sound_update :: "db \<Rightarrow> db \<Rightarrow> bool" where
  "sound_update d d' \<longleftrightarrow> (debits_ok d \<longrightarrow> debits_ok d') \<and> debits_evolve d d' \<and>
     (\<forall>r' \<in> set (debitOperations d'). d_rawTransaction r' \<noteq> None \<longrightarrow>
        (\<exists>r \<in> set (debitOperations d). d_id r = d_id r' \<and> evolves r r' \<and> d_rawTransaction r = d_rawTransaction r'
          \<and> d_transactionHash r = d_transactionHash r'))"

lemma sound_refl [simp]: "sound_update d d"
  by (auto simp: sound_update_def)

lemma sound_updateDebits:
  assumes "\<And>r. evolves r (f r) \<and> d_rawTransaction (f r) = d_rawTransaction r \<and>
      d_transactionHash (f r) = d_transactionHash r"
  shows "sound_update d (updateDebits P f d)"
  unfolding sound_update_def
proof (intro conjI impI ballI)
  have keys: "\<And>r. d_id (f r) = d_id r" "\<And>r. d_sourceKind (f r) = d_sourceKind r"
      "\<And>r. d_sourceId (f r) = d_sourceId r"
    using assms by (auto simp: evolves_def)
  show "debits_ok d \<Longrightarrow> debits_ok (updateDebits P f d)" using keys by (simp add: updateDebits_ok)
  show "debits_evolve d (updateDebits P f d)" using assms keys by (simp add: updateDebits_evolve)
  fix r' assume "r' \<in> set (debitOperations (updateDebits P f d))"
  then obtain r where "r \<in> set (debitOperations d)" "r' = (if P r then f r else r)"
    by (auto simp: updateDebits_def set_sql_update)
  then show "\<exists>r \<in> set (debitOperations d). d_id r = d_id r' \<and> evolves r r' \<and>
      d_rawTransaction r = d_rawTransaction r' \<and> d_transactionHash r = d_transactionHash r'"
    using assms [of r] keys by (intro bexI [of _ r]) auto
qed

lemma sound_same: "debitOperations d' = debitOperations d \<Longrightarrow> debitSeq d' = debitSeq d \<Longrightarrow> sound_update d d'"
  by (auto simp: sound_update_def debits_ok_def debits_evolve_def debitRow_def)

lemma sound_claim: "sound_update d (snd (claimDebitOperation now i own secs d))"
proof -
  have "sound_update d (updateDebits P (lease now own secs) d)" for P
    by (intro sound_updateDebits) (auto simp: lease_def evolves_def)
  then show ?thesis by (auto simp: claimDebitOperation_def split: option.split)
qed

lemma sound_complete: "sound_update d (snd (completeDebitOperation now i own d))"
  unfolding completeDebitOperation_def snd_conv by (intro sound_updateDebits) (auto simp: evolves_def)

lemma sound_failure: "sound_update d (recordDebitFailure now i own err d)"
  unfolding recordDebitFailure_def by (intro sound_updateDebits) (auto simp: failed_def evolves_def)

lemma sound_supersede: "sound_update d (updateDebits P superseded d)"
  by (intro sound_updateDebits) (auto simp: superseded_def evolves_def)

lemma sound_resume: "sound_update d (snd (resumeDebitOperation now i d))"
proof -
  have u: "sound_update d (updateDebits P (resumed now) d)" for P
    by (intro sound_updateDebits) (auto simp: resumed_def evolves_def)
  have "sound_update d ((updateDebits P (resumed now) d)\<lparr>settlementAttempts := t\<rparr>)" for P t
    using u [of P] by (auto simp: sound_update_def debits_ok_def debits_evolve_def debitRow_def)
  then show ?thesis using u by (auto simp: resumeDebitOperation_def Let_def split: option.splits if_splits)
qed

lemma create_cases:
  "snd (createDebitOperation now x d) = d \<and> sql_hit (sameSource x) (debitOperations d) \<or>
   snd (createDebitOperation now x d) = d\<lparr>debitOperations := debitOperations d @ [newDebitRow now (debitSeq d) x],
     debitSeq := debitSeq d + 1\<rparr> \<and> \<not> sql_hit (sameSource x) (debitOperations d)"
  by (simp add: createDebitOperation_def Let_def)

lemma sound_create: "sound_update d (snd (createDebitOperation now x d))"
  using create_cases [of now x d]
proof
  assume app: "snd (createDebitOperation now x d) = d\<lparr>debitOperations := debitOperations d @
      [newDebitRow now (debitSeq d) x], debitSeq := debitSeq d + 1\<rparr> \<and> \<not> sql_hit (sameSource x) (debitOperations d)"
  let ?d = "snd (createDebitOperation now x d)"
  have row: "debitRow ?d i = (case debitRow d i of None \<Rightarrow>
      if debitSeq d = i then Some (newDebitRow now (debitSeq d) x) else None | s \<Rightarrow> s)" for i
    using app by (auto simp: debitRow_def log_append_find newDebitRow_def split: option.split)
  have "debits_ok d \<Longrightarrow> debits_ok ?d"
    using app by (auto simp: debits_ok_def newDebitRow_def sql_hit_def sameSource_def)
  moreover have "debits_evolve d ?d" by (auto simp: debits_evolve_def row)
  moreover have "\<forall>r' \<in> set (debitOperations ?d). d_rawTransaction r' \<noteq> None \<longrightarrow> r' \<in> set (debitOperations d)"
    using app by (auto simp: newDebitRow_def)
  ultimately show ?thesis unfolding sound_update_def by (metis evolves_refl)
qed simp

section \<open>Workers in parallel\<close>

text \<open>
  The database, the clock, every worker's position with its lease identity, and everything ever
  sent to the network (operation id and bytes).
\<close>

record debit_system =
  ds_db :: db
  ds_now :: int
  ds_workers :: "nat \<Rightarrow> (string \<times> pc) option"
  ds_sent :: "(int \<times> string) list"

text \<open>
  \<open>signs s a r raw h\<close>: the operator may answer \<open>signDebit(s, a, r)\<close> with bytes \<open>raw\<close> of hash \<open>h\<close>; it
  need not answer the same twice (the account nonce and the fees move). \<open>payer\<close> is the sub-solver a
  source event charges: a proposal's, an attempt's, or the one named in a buffer batch key.
\<close>

inductive debit_step ::
  "(string \<Rightarrow> int \<Rightarrow> string \<Rightarrow> string \<Rightarrow> string \<Rightarrow> bool) \<Rightarrow> (string \<Rightarrow> string \<Rightarrow> string) \<Rightarrow>
   debit_system \<Rightarrow> debit_system \<Rightarrow> bool"
  for signs :: "string \<Rightarrow> int \<Rightarrow> string \<Rightarrow> string \<Rightarrow> string \<Rightarrow> bool" and payer :: "string \<Rightarrow> string \<Rightarrow> string" where
  ds_start: "lower (di_subSolver x) = payer (di_sourceKind x) (di_sourceId x) \<Longrightarrow>
    debit_step signs payer s (s\<lparr>ds_workers := (ds_workers s)(t \<mapsto> (own, AtCreate x))\<rparr>)"
| ds_run: "ds_workers s t = Some (own, c) \<Longrightarrow>
    (\<And>sb am re raw h. env_sign env sb am re = Some (raw, h) \<Longrightarrow> signs sb am re raw h) \<Longrightarrow>
    durable_next env (ds_now s) own c (ds_db s) = (c', d', sent) \<Longrightarrow>
    debit_step signs payer s (s\<lparr>ds_db := d', ds_workers := (ds_workers s)(t \<mapsto> (own, c')),
      ds_sent := (case sent of None \<Rightarrow> ds_sent s | Some e \<Rightarrow> e # ds_sent s)\<rparr>)"
| ds_crash: "debit_step signs payer s (s\<lparr>ds_workers := (ds_workers s)(t := None)\<rparr>)"
| ds_time: "ds_now s \<le> now' \<Longrightarrow> debit_step signs payer s (s\<lparr>ds_now := now'\<rparr>)"
| ds_complete: "debit_step signs payer s
    (s\<lparr>ds_db := snd (completeDebitOperation (ds_now s) i own (ds_db s))\<rparr>)"
| ds_resume: "debit_step signs payer s (s\<lparr>ds_db := snd (resumeDebitOperation (ds_now s) i (ds_db s))\<rparr>)"
| ds_supersede: "debit_step signs payer s
    (s\<lparr>ds_db := updateDebits (\<lambda>r. d_id r = i) superseded (ds_db s)\<rparr>)"
| ds_other: "debitOperations d' = debitOperations (ds_db s) \<Longrightarrow> debitSeq d' = debitSeq (ds_db s) \<Longrightarrow>
    debit_step signs payer s (s\<lparr>ds_db := d'\<rparr>)"

definition debit_init :: "debit_system \<Rightarrow> bool" where
  "debit_init s \<longleftrightarrow> debitOperations (ds_db s) = [] \<and> ds_sent s = [] \<and> (\<forall>t. ds_workers s t = None)"

text \<open>A row's transaction is one the operator signed for exactly this charge.\<close>

definition signed_for :: "(string \<Rightarrow> int \<Rightarrow> string \<Rightarrow> string \<Rightarrow> string \<Rightarrow> bool) \<Rightarrow> debit_row \<Rightarrow> string \<Rightarrow> string \<Rightarrow> bool" where
  "signed_for signs r raw h \<longleftrightarrow> (\<exists>sb am. signs sb am (d_reason r) raw h \<and>
     BigInt (d_amount r) = Some am \<and> lower sb = d_subSolver r)"

definition row_signed :: "(string \<Rightarrow> int \<Rightarrow> string \<Rightarrow> string \<Rightarrow> string \<Rightarrow> bool) \<Rightarrow> debit_row \<Rightarrow> bool" where
  "row_signed signs r \<longleftrightarrow> (\<forall>raw. d_rawTransaction r = Some raw \<longrightarrow>
     (\<exists>raw0 h0. signed_for signs r raw0 h0 \<and> raw = lower raw0 \<and> d_transactionHash r = Some (lower h0)))"

definition row_payer :: "(string \<Rightarrow> string \<Rightarrow> string) \<Rightarrow> debit_row \<Rightarrow> bool" where
  "row_payer payer r \<longleftrightarrow> d_subSolver r = payer (d_sourceKind r) (d_sourceId r)"

definition held :: "db \<Rightarrow> int \<Rightarrow> string \<Rightarrow> string \<Rightarrow> bool" where
  "held d i raw h \<longleftrightarrow> (\<exists>r. debitRow d i = Some r \<and> d_rawTransaction r = Some (lower raw) \<and>
     d_transactionHash r = Some (lower h))"

definition input_ok :: "(string \<Rightarrow> string \<Rightarrow> string) \<Rightarrow> debit_input \<Rightarrow> bool" where
  "input_ok payer x \<longleftrightarrow> lower (di_subSolver x) = payer (di_sourceKind x) (di_sourceId x)"

fun pc_ok :: "(string \<Rightarrow> int \<Rightarrow> string \<Rightarrow> string \<Rightarrow> string \<Rightarrow> bool) \<Rightarrow> (string \<Rightarrow> string \<Rightarrow> string) \<Rightarrow> db \<Rightarrow> pc \<Rightarrow> bool" where
  "pc_ok signs payer d (AtCreate x) \<longleftrightarrow> input_ok payer x"
| "pc_ok signs payer d (AtClaim x i) \<longleftrightarrow> input_ok payer x \<and> (\<exists>r. debitRow d i = Some r \<and> sameSource x r)"
| "pc_ok signs payer d (AtSign x op) \<longleftrightarrow> input_ok payer x \<and> (\<exists>r. debitRow d (op_id op) = Some r \<and> sameSource x r \<and>
     BigInt (d_amount r) = Some (op_amount op) \<and> d_reason r = op_reason op)"
| "pc_ok signs payer d (AtPersist i raw h) \<longleftrightarrow> (\<exists>r. debitRow d i = Some r \<and> signed_for signs r raw h)"
| "pc_ok signs payer d (AtLookup i raw h) \<longleftrightarrow> held d i raw h"
| "pc_ok signs payer d (AtBroadcast i raw h) \<longleftrightarrow> held d i raw h"
| "pc_ok signs payer d (AtConfirm i raw h) \<longleftrightarrow> held d i raw h"
| "pc_ok signs payer d (Finished (Some ld)) \<longleftrightarrow> (\<exists>raw. held d (ld_operationId ld) raw (ld_hash ld))"
| "pc_ok signs payer d (Finished None) \<longleftrightarrow> True"
| "pc_ok signs payer d (AtFail i e) \<longleftrightarrow> True"
| "pc_ok signs payer d Threw \<longleftrightarrow> True"

definition db_inv :: "(string \<Rightarrow> int \<Rightarrow> string \<Rightarrow> string \<Rightarrow> string \<Rightarrow> bool) \<Rightarrow> (string \<Rightarrow> string \<Rightarrow> string) \<Rightarrow> db \<Rightarrow> bool" where
  "db_inv signs payer d \<longleftrightarrow> debits_ok d \<and>
     (\<forall>r \<in> set (debitOperations d). row_signed signs r \<and> row_payer payer r)"

definition debit_inv :: "(string \<Rightarrow> int \<Rightarrow> string \<Rightarrow> string \<Rightarrow> string \<Rightarrow> bool) \<Rightarrow> (string \<Rightarrow> string \<Rightarrow> string) \<Rightarrow>
    debit_system \<Rightarrow> bool" where
  "debit_inv signs payer s \<longleftrightarrow> db_inv signs payer (ds_db s) \<and>
     (\<forall>t own c. ds_workers s t = Some (own, c) \<longrightarrow> pc_ok signs payer (ds_db s) c) \<and>
     (\<forall>(i, raw) \<in> set (ds_sent s). \<exists>h. held (ds_db s) i raw h)"

lemma signed_for_evolves: "evolves r r' \<Longrightarrow> signed_for signs r' raw h = signed_for signs r raw h"
  by (auto simp: signed_for_def evolves_def)

lemma held_evolve: "held d i raw h \<Longrightarrow> debits_evolve d d' \<Longrightarrow> held d' i raw h"
  by (fastforce simp: held_def debits_evolve_def evolves_def)

lemma sameSource_evolves: "evolves r r' \<Longrightarrow> sameSource x r' = sameSource x r"
  by (simp add: evolves_def sameSource_def)

lemma pc_ok_evolve:
  assumes pc: "pc_ok signs payer d c" and ev: "debits_evolve d d'"
  shows "pc_ok signs payer d' c"
proof (cases c)
  case (AtClaim x i)
  then show ?thesis using pc ev sameSource_evolves by (fastforce simp: debits_evolve_def)
next
  case (AtSign x op)
  then show ?thesis using pc ev by (fastforce simp: debits_evolve_def evolves_def sameSource_def)
next
  case (AtPersist i raw h)
  then show ?thesis using pc ev signed_for_evolves by (fastforce simp: debits_evolve_def)
next
  case (Finished r)
  then show ?thesis using pc held_evolve [OF _ ev] by (cases r) auto
qed (use pc held_evolve [OF _ ev] in auto)

text \<open>A statement that writes no transaction keeps the rows' invariant.\<close>

lemma db_inv_sound:
  assumes inv: "db_inv signs payer d" and sound: "sound_update d d'"
    and payers: "\<And>r. r \<in> set (debitOperations d') \<Longrightarrow> row_payer payer r"
  shows "db_inv signs payer d'"
proof -
  have "row_signed signs r'" if mem: "r' \<in> set (debitOperations d')" for r'
  proof (cases "d_rawTransaction r'")
    case (Some raw)
    then obtain r where "r \<in> set (debitOperations d)" "evolves r r'"
        "d_rawTransaction r = d_rawTransaction r'" "d_transactionHash r = d_transactionHash r'"
      using sound mem unfolding sound_update_def by blast
    then show ?thesis using inv signed_for_evolves [of r r'] by (auto simp: db_inv_def row_signed_def)
  qed (simp add: row_signed_def)
  then show ?thesis using inv sound payers by (auto simp: db_inv_def sound_update_def)
qed

lemma payer_updateDebits:
  assumes "\<And>r. r \<in> set (debitOperations d) \<Longrightarrow> row_payer payer r" "\<And>r. evolves r (f r)"
    "r \<in> set (debitOperations (updateDebits P f d))"
  shows "row_payer payer r"
proof -
  obtain r0 where r0: "r0 \<in> set (debitOperations d)" "r = (if P r0 then f r0 else r0)"
    using assms(3) by (auto simp: updateDebits_def set_sql_update)
  then show ?thesis using assms(1) [OF r0(1)] assms(2) [of r0] by (auto simp: row_payer_def evolves_def)
qed

definition payers :: "(string \<Rightarrow> string \<Rightarrow> string) \<Rightarrow> db \<Rightarrow> bool" where
  "payers payer d \<longleftrightarrow> (\<forall>r \<in> set (debitOperations d). row_payer payer r)"

lemma payers_update: "payers payer d \<Longrightarrow> (\<And>r. evolves r (f r)) \<Longrightarrow> payers payer (updateDebits P f d)"
  unfolding payers_def using payer_updateDebits by blast

lemma payers_create: "payers payer d \<Longrightarrow> input_ok payer x \<Longrightarrow> payers payer (snd (createDebitOperation now x d))"
  using create_cases [of now x d]
  by (auto simp: payers_def newDebitRow_def row_payer_def input_ok_def)

lemma payers_statements:
  assumes "payers payer d"
  shows "payers payer (snd (claimDebitOperation now i own secs d))"
    "payers payer (snd (completeDebitOperation now i own d))"
    "payers payer (recordDebitFailure now i own err d)"
    "payers payer (updateDebits P superseded d)"
    "payers payer (snd (resumeDebitOperation now i d))"
    "payers payer (snd (persistSignedDebit now i own raw h d))"
proof -
  note u = payers_update [OF assms]
  show "payers payer (snd (claimDebitOperation now i own secs d))"
    using assms u [of "lease now own secs"] by (auto simp: claimDebitOperation_def split: option.split)
  show "payers payer (snd (completeDebitOperation now i own d))"
    unfolding completeDebitOperation_def snd_conv by (rule u) (simp add: evolves_def)
  show "payers payer (recordDebitFailure now i own err d)" "payers payer (updateDebits P superseded d)"
    unfolding recordDebitFailure_def by (rule u, simp)+
  have r: "payers payer (updateDebits Q (resumed now) d)" for Q by (rule u) simp
  have "payers payer (updateDebits Q (resumed now) d\<lparr>settlementAttempts := t\<rparr>)" for Q t
    using r [of Q] by (simp add: payers_def)
  then show "payers payer (snd (resumeDebitOperation now i d))"
    using assms r by (auto simp: resumeDebitOperation_def Let_def split: option.split)
  have "row_payer payer r" if "r \<in> set (debitOperations (snd (persistSignedDebit now i own raw h d)))" for r
    using assms that by (auto simp: persistSignedDebit_def Let_def updateDebits_def set_sql_update payers_def row_payer_def)
  then show "payers payer (snd (persistSignedDebit now i own raw h d))" by (simp add: payers_def)
qed

lemma db_inv_payers: "db_inv signs payer d \<Longrightarrow> payers payer d"
  by (simp add: db_inv_def payers_def)

lemmas db_inv_soundI = db_inv_sound [OF _ _ payers_def [THEN iffD1, THEN bspec]]

lemma create_found:
  assumes ok: "debits_ok d" and eq: "createDebitOperation now x d = (Some op, d')"
  shows "\<exists>r. debitRow d' (op_id op) = Some r \<and> sameSource x r"
proof -
  have d': "d' = snd (createDebitOperation now x d)" using eq by simp
  have ok': "debits_ok d'" using sound_create [of d now x] ok d' by (simp add: sound_update_def)
  obtain r where r: "find (sameSource x) (debitOperations d') = Some r" "rowToDebitOperation r = Some op"
    using eq by (auto simp: createDebitOperation_def Let_def split: option.splits)
  then have "r \<in> set (debitOperations d')" "sameSource x r" "op_id op = d_id r"
    by (auto dest: find_SomeD simp: rowToDebitOperation_def)
  then show ?thesis using debitRow_in [OF ok'] by metis
qed

lemma claim_found:
  assumes ok: "debits_ok d" and eq: "claimDebitOperation now i own secs d = (Some (Some op), d')"
  shows "\<exists>r. debitRow d i = Some r \<and> debitRow d' i = Some (lease now own secs r) \<and> op_id op = i \<and>
    BigInt (d_amount r) = Some (op_amount op) \<and> op_reason op = d_reason r \<and>
    op_rawTransaction op = d_rawTransaction r \<and> op_transactionHash op = d_transactionHash r"
proof -
  obtain r where r: "find (claimable now i) (debitOperations d) = Some r"
      "rowToDebitOperation (lease now own secs r) = Some op"
      "d' = updateDebits (claimable now i) (lease now own secs) d"
    using eq by (auto simp: claimDebitOperation_def split: option.splits)
  have mem: "r \<in> set (debitOperations d)" and c: "claimable now i r" using find_SomeD [OF r(1)] by auto
  have row: "debitRow d i = Some r" using debitRow_in [OF ok mem] c by (simp add: claimable_def)
  have "debitRow d' i = Some (lease now own secs r)"
    using row c by (simp add: r(3) updateDebits_row lease_def)
  then show ?thesis using row r(2) c by (auto simp: rowToDebitOperation_def lease_def claimable_def)
qed

lemma persist_held:
  assumes ok: "debits_ok d" and row: "debitRow d i = Some r" and eq: "persistSignedDebit now i own raw h d = (True, d')"
  shows "held d' i raw h"
proof -
  have "sql_hit (\<lambda>r. owns i own r \<and> d_rawTransaction r = None) (debitOperations d)"
    using eq by (simp add: persistSignedDebit_def Let_def)
  then obtain r' where "r' \<in> set (debitOperations d)" "owns i own r'" "d_rawTransaction r' = None"
    by (auto simp: sql_hit_def)
  then have "r' = r" "owns i own r" "d_rawTransaction r = None"
    using debitRow_in [OF ok] row by (auto simp: owns_def)
  then show ?thesis using eq row
    by (auto simp: held_def Let_def persistSignedDebit_def updateDebits_row)
qed

lemma persist_evolve: "debits_evolve d (snd (persistSignedDebit now i own raw h d))"
  unfolding persistSignedDebit_def Let_def snd_conv
  by (rule updateDebits_evolve) (auto simp: evolves_def)

lemma persist_inv:
  assumes inv: "db_inv signs payer d" and pc: "debitRow d i = Some r" "signed_for signs r raw h"
  shows "db_inv signs payer (snd (persistSignedDebit now i own raw h d))"
proof -
  let ?P = "\<lambda>r. owns i own r \<and> d_rawTransaction r = None"
  let ?f = "\<lambda>r. r\<lparr>d_rawTransaction := Some (lower raw), d_transactionHash := Some (lower h),
      d_status := Broadcasting, d_updatedAt := now\<rparr>"
  have ok: "debits_ok d" using inv by (simp add: db_inv_def)
  have d': "snd (persistSignedDebit now i own raw h d) = updateDebits ?P ?f d"
    by (simp add: persistSignedDebit_def Let_def)
  have "row_signed signs r'" if r': "r' \<in> set (debitOperations (updateDebits ?P ?f d))" for r'
  proof -
    obtain r0 where r0: "r0 \<in> set (debitOperations d)" "r' = (if ?P r0 then ?f r0 else r0)"
      using r' by (auto simp: updateDebits_def set_sql_update)
    show ?thesis
    proof (cases "?P r0")
      case True
      then have "r0 = r" using debitRow_in [OF ok r0(1)] pc(1) by (simp add: owns_def)
      then show ?thesis using pc(2) r0 True by (auto simp: row_signed_def signed_for_def)
    next
      case False
      have "r' = r0" unfolding r0(2) by (rule if_not_P [OF False])
      then show ?thesis using inv r0(1) by (simp add: db_inv_def)
    qed
  qed
  moreover have "debits_ok (updateDebits ?P ?f d)" using ok by (rule updateDebits_ok) simp_all
  ultimately show ?thesis
    using payers_statements(6) [OF db_inv_payers [OF inv], of now i own raw h]
    unfolding d' by (auto simp: db_inv_def payers_def)
qed

text \<open>One statement of the program keeps the invariant, whatever the chain answers.\<close>

lemma next_inv:
  assumes inv: "db_inv signs payer d" and pc: "pc_ok signs payer d c"
    and sig: "\<And>sb am re raw h. env_sign env sb am re = Some (raw, h) \<Longrightarrow> signs sb am re raw h"
    and nxt: "durable_next env now own c d = (c', d', sent)"
  shows "db_inv signs payer d' \<and> debits_evolve d d' \<and> pc_ok signs payer d' c' \<and>
    (\<forall>i raw. sent = Some (i, raw) \<longrightarrow> (\<exists>h. held d' i raw h))"
proof -
  have ok: "debits_ok d" using inv by (simp add: db_inv_def)
  note pay = db_inv_payers [OF inv]
  have same: "db_inv signs payer d \<and> debits_evolve d d" using inv by simp
  show ?thesis
  proof (cases c)
    case (AtCreate x)
    obtain res d1 where eq: "createDebitOperation now x d = (res, d1)" by fastforce
    have x: "input_ok payer x" using pc AtCreate by simp
    have "sound_update d d1" "payers payer d1"
      using sound_create [of d now x] payers_create [OF pay x, of now] eq by auto
    then have snd: "db_inv signs payer d1 \<and> debits_evolve d d1"
      using db_inv_soundI [OF inv] by (auto simp: sound_update_def)
    show ?thesis
      using nxt AtCreate snd create_found [OF ok, of now x] x eq by (cases res) auto
  next
    case (AtClaim x i)
    obtain res d1 where eq: "claimDebitOperation now i own LEASE_SECS d = (res, d1)" by fastforce
    have "sound_update d d1" "payers payer d1"
      using sound_claim [of d now i own LEASE_SECS] payers_statements(1) [OF pay, of now i own LEASE_SECS] eq
      by auto
    then have snd: "db_inv signs payer d1 \<and> debits_evolve d d1"
      using db_inv_soundI [OF inv] by (auto simp: sound_update_def)
    consider "res = None \<or> res = Some None" | op where "res = Some (Some op)" by (metis option.exhaust)
    then show ?thesis
    proof cases
      case 1
      then show ?thesis using nxt AtClaim snd eq by auto
    next
      case (2 op)
      note eq = eq [unfolded 2]
      obtain r where r: "debitRow d i = Some r" "debitRow d1 i = Some (lease now own LEASE_SECS r)"
          "op_id op = i" "BigInt (d_amount r) = Some (op_amount op)" "op_reason op = d_reason r"
          "op_rawTransaction op = d_rawTransaction r" "op_transactionHash op = d_transactionHash r"
        using claim_found [OF ok eq] by blast
      have src: "input_ok payer x" "sameSource x r" using pc AtClaim r(1) by auto
      show ?thesis
      proof (cases "falsy (op_rawTransaction op) \<or> falsy (op_transactionHash op)")
        case True
        then have "c' = AtSign x op" "d' = d1" "sent = None" using nxt AtClaim eq by auto
        then show ?thesis using snd src r by (auto simp: lease_def sameSource_def)
      next
        case False
        then obtain raw h where rh: "d_rawTransaction r = Some raw" "d_transactionHash r = Some h"
          using r(6,7) by (auto simp: falsy_def)
        have "row_signed signs r"
          using inv debitRow_id [OF r(1)] by (auto simp: db_inv_def)
        then have "lower raw = raw" "lower h = h" using rh by (auto simp: row_signed_def)
        then have "held d1 i raw h" using r(2) rh by (simp add: held_def lease_def)
        moreover have "c' = AtLookup i raw h" "d' = d1" "sent = None"
          using nxt AtClaim eq False r rh by auto
        ultimately show ?thesis using snd by simp
      qed
    qed
  next
    case (AtSign x op)
    then obtain r where r: "debitRow d (op_id op) = Some r" "sameSource x r" "input_ok payer x"
        "BigInt (d_amount r) = Some (op_amount op)" "d_reason r = op_reason op" using pc by auto
    have "row_payer payer r" using inv debitRow_id [OF r(1)] by (auto simp: db_inv_def)
    then have sub: "lower (di_subSolver x) = d_subSolver r"
      using r(2,3) by (simp add: row_payer_def sameSource_def input_ok_def)
    show ?thesis
    proof (cases "env_sign env (di_subSolver x) (op_amount op) (op_reason op)")
      case None
      then show ?thesis using nxt AtSign same by auto
    next
      case (Some rh)
      obtain raw h where rh: "rh = (raw, h)" by (cases rh)
      have "signed_for signs r raw h"
        using sig [OF Some [unfolded rh]] r sub unfolding signed_for_def by metis
      then show ?thesis using nxt AtSign Some rh r(1) same by auto
    qed
  next
    case (AtPersist i raw h)
    then obtain r where r: "debitRow d i = Some r" "signed_for signs r raw h" using pc by auto
    obtain res d1 where eq: "persistSignedDebit now i own raw h d = (res, d1)" by fastforce
    have snd: "db_inv signs payer d1 \<and> debits_evolve d d1"
      using persist_inv [OF inv r, of now own]
        persist_evolve [of d now i own raw h] eq by simp
    show ?thesis
      using nxt AtPersist snd persist_held [OF ok r(1), of now own raw h d1] eq by (cases res) auto
  next
    case (AtFail i err)
    have "db_inv signs payer (recordDebitFailure now i own err d) \<and>
        debits_evolve d (recordDebitFailure now i own err d)"
      using db_inv_soundI [OF inv sound_failure payers_statements(3) [OF pay]] sound_failure
      by (simp add: sound_update_def)
    then show ?thesis using nxt AtFail by auto
  next
    case (AtLookup i raw h)
    then have "held d i raw h" using pc by simp
    then show ?thesis using nxt AtLookup same
      by (auto simp: intro: exI [of _ raw] split: option.splits receipt.splits)
  next
    case (AtBroadcast i raw h)
    then have "held d i raw h" using pc by simp
    then show ?thesis using nxt AtBroadcast same by (auto split: option.splits if_splits)
  next
    case (AtConfirm i raw h)
    then have "held d i raw h" using pc by simp
    then show ?thesis using nxt AtConfirm same
      by (auto intro: exI [of _ raw] split: option.splits receipt.splits)
  qed (use nxt pc same in auto)
qed

text \<open>A step that changes only the database, soundly.\<close>

lemma db_step_inv:
  assumes inv: "debit_inv signs payer s" and sound: "sound_update (ds_db s) d'" and pay: "payers payer d'"
  shows "debit_inv signs payer (s\<lparr>ds_db := d'\<rparr>)"
proof -
  have "db_inv signs payer d'" using db_inv_soundI [OF _ sound pay] inv by (simp add: debit_inv_def)
  moreover have "debits_evolve (ds_db s) d'" using sound by (simp add: sound_update_def)
  ultimately show ?thesis
    using inv pc_ok_evolve held_evolve unfolding debit_inv_def by fastforce
qed

interpretation debits: invariant_machine debit_init "debit_step signs payer" "debit_inv signs payer"
  for signs payer
proof
  fix s assume "debit_init s"
  then show "debit_inv signs payer s"
    by (simp add: debit_init_def debit_inv_def db_inv_def debits_ok_def)
next
  fix s s' assume inv: "debit_inv signs payer s" and step: "debit_step signs payer s s'"
  have dbi: "db_inv signs payer (ds_db s)" using inv by (simp add: debit_inv_def)
  note pay = db_inv_payers [OF dbi]
  from step show "debit_inv signs payer s'"
  proof cases
    case (ds_start x t own)
    then show ?thesis using inv by (auto simp: debit_inv_def input_ok_def)
  next
    case (ds_run t own c env c' d' sent)
    have pc: "pc_ok signs payer (ds_db s) c" using inv ds_run(2) by (auto simp: debit_inv_def)
    note n = next_inv [OF dbi pc ds_run(3,4)]
    then show ?thesis
      using inv ds_run(1) pc_ok_evolve [of signs payer "ds_db s" _ d'] held_evolve [of "ds_db s" _ _ _ d']
      unfolding debit_inv_def by (auto split: option.splits) blast+
  next
    case (ds_crash t)
    then show ?thesis using inv by (auto simp: debit_inv_def)
  next
    case (ds_time now')
    then show ?thesis using inv by (auto simp: debit_inv_def)
  next
    case (ds_complete i own)
    then show ?thesis using db_step_inv [OF inv sound_complete payers_statements(2) [OF pay]] by simp
  next
    case (ds_resume i)
    then show ?thesis using db_step_inv [OF inv sound_resume payers_statements(5) [OF pay]] by simp
  next
    case (ds_supersede i)
    then show ?thesis using db_step_inv [OF inv sound_supersede payers_statements(4) [OF pay]] by simp
  next
    case (ds_other d')
    then show ?thesis using db_step_inv [OF inv sound_same, of d'] pay by (simp add: payers_def)
  qed
qed

section \<open>One event, one transaction\<close>

lemma same_source_same_row:
  assumes "debits_ok d" "debitRow d i = Some r" "debitRow d j = Some r'"
    "d_sourceKind r = d_sourceKind r'" "d_sourceId r = d_sourceId r'"
  shows "i = j \<and> r = r'"
proof -
  have "r = r'"
    using keys_inj [of "\<lambda>r. (d_sourceKind r, d_sourceId r)" "debitOperations d" r r'] assms
      debitRow_id [OF assms(2)] debitRow_id [OF assms(3)] by (simp add: debits_ok_def)
  then show ?thesis using debitRow_id [OF assms(2)] debitRow_id [OF assms(3)] by simp
qed

text \<open>
  C3. However many workers run, crash, lose their lease, retry or are resumed, a chargeable event is
  charged by one transaction at most: any two transmissions for operations of the same source event
  are of the same operation and the same bytes (up to letter case), and those bytes were signed for
  exactly the sub-solver, the amount and the reason the operation recorded.
\<close>

theorem one_transaction_per_event:
  assumes reach: "reachable debit_init (debit_step signs payer) s"
    and sent: "(i, raw) \<in> set (ds_sent s)" "(j, raw') \<in> set (ds_sent s)"
    and rows: "debitRow (ds_db s) i = Some r" "debitRow (ds_db s) j = Some r'"
    and event: "d_sourceKind r = d_sourceKind r'" "d_sourceId r = d_sourceId r'"
  shows "i = j \<and> lower raw = lower raw' \<and>
    (\<exists>sb am signed h. signs sb am (d_reason r) signed h \<and> lower signed = lower raw \<and>
       BigInt (d_amount r) = Some am \<and> lower sb = payer (d_sourceKind r) (d_sourceId r))"
proof -
  have inv: "debit_inv signs payer s" using reach by (rule debits.reachable_inv)
  have ok: "debits_ok (ds_db s)" using inv by (simp add: debit_inv_def db_inv_def)
  have ij: "i = j" using same_source_same_row [OF ok rows event] by simp
  have "\<exists>h. held (ds_db s) i raw h" "\<exists>h. held (ds_db s) j raw' h"
    using inv sent by (auto simp: debit_inv_def)
  then have tx: "d_rawTransaction r = Some (lower raw)" "d_rawTransaction r = Some (lower raw')"
    using rows ij by (auto simp: held_def)
  have "row_signed signs r" "row_payer payer r"
    using inv debitRow_id [OF rows(1)] by (auto simp: debit_inv_def db_inv_def)
  then show ?thesis
    using ij tx by (fastforce simp: row_signed_def signed_for_def row_payer_def)
qed

text \<open>One worker on its own, for concrete runs.\<close>

fun solo :: "chain_env \<Rightarrow> string \<Rightarrow> nat \<Rightarrow> pc \<Rightarrow> db \<Rightarrow> (int \<times> string) list \<Rightarrow> pc \<times> db \<times> (int \<times> string) list" where
  "solo env own 0 c d l = (c, d, l)"
| "solo env own (Suc n) c d l = (case durable_next env 0 own c d of
     (c', d', sent) \<Rightarrow> solo env own n c' d' (case sent of None \<Rightarrow> l | Some e \<Rightarrow> e # l))"

lemma solo_reachable:
  assumes "reachable debit_init (debit_step signs payer) s" "ds_workers s t = Some (own, c)"
    "ds_now s = 0" "\<And>sb am re raw h. env_sign env sb am re = Some (raw, h) \<Longrightarrow> signs sb am re raw h"
  shows "\<exists>s'. reachable debit_init (debit_step signs payer) s' \<and>
    (ds_db s', ds_sent s') = snd (solo env own n c (ds_db s) (ds_sent s))"
  using assms
proof (induction n arbitrary: s c)
  case (Suc n)
  obtain c' d' sent where nxt: "durable_next env 0 own c (ds_db s) = (c', d', sent)" by (metis prod_cases3)
  let ?s = "s\<lparr>ds_db := d', ds_workers := (ds_workers s)(t \<mapsto> (own, c')),
      ds_sent := (case sent of None \<Rightarrow> ds_sent s | Some e \<Rightarrow> e # ds_sent s)\<rparr>"
  have "debit_step signs payer s ?s"
    using ds_run [of s t own c env signs c' d' sent payer] Suc.prems nxt by simp
  then have "reachable debit_init (debit_step signs payer) ?s" using Suc.prems(1) by (rule reach_step [rotated])
  then show ?case using Suc.IH [of ?s c'] Suc.prems nxt by simp
qed auto

definition exampleInput :: debit_input where
  "exampleInput = \<lparr>di_sourceKind = ''revert'', di_sourceId = ''proposal:7'', di_subSolver = ''0x5a'',
     di_amount = 5, di_reason = ''0xab''\<rparr>"

definition exampleEnv :: chain_env where
  "exampleEnv = \<lparr>env_sign = (\<lambda>s a r. Some (''0xaa'', ''0xbb'')),
     env_outcome = (\<lambda>after h. if after then Some TxSucceeded else None),
     env_broadcast = (\<lambda>raw. Some ''0xbb'')\<rparr>"

lemma example_run:
  obtains s where
    "reachable debit_init (debit_step (\<lambda>s a r raw h. raw = ''0xaa'') (\<lambda>k i. ''0x5a'')) s"
    "(ds_db s, ds_sent s) = snd (solo exampleEnv ''w'' 6 (AtCreate exampleInput) emptyDb [])"
proof -
  let ?signs = "\<lambda>s a r raw h. raw = ''0xaa''" and ?payer = "\<lambda>k i. ''0x5a''"
  let ?s0 = "\<lparr>ds_db = emptyDb, ds_now = 0, ds_workers = (\<lambda>t. None), ds_sent = []\<rparr>"
  let ?s1 = "?s0\<lparr>ds_workers := (ds_workers ?s0)(0 \<mapsto> (''w'', AtCreate exampleInput))\<rparr>"
  have "reachable debit_init (debit_step ?signs ?payer) ?s0"
    by (rule reach_init) (simp add: debit_init_def emptyDb_def)
  moreover have "lower ''0x5a'' = ''0x5a''" by code_simp
  ultimately have "reachable debit_init (debit_step ?signs ?payer) ?s1"
    by (elim reach_step) (rule ds_start, simp add: exampleInput_def)
  from solo_reachable [OF this, of 0 "''w''" "AtCreate exampleInput" exampleEnv 6] that
  show thesis by (auto simp: exampleEnv_def)
qed

theorem one_transaction_per_event_witness:
  "\<exists>s. reachable debit_init (debit_step (\<lambda>s a r raw h. raw = ''0xaa'') (\<lambda>k i. ''0x5a'')) s \<and>
     ds_sent s = [(1, ''0xaa'')] \<and> (\<exists>r. debitRow (ds_db s) 1 = Some r \<and> d_amount r = ''5'')"
proof -
  obtain s where s: "reachable debit_init (debit_step (\<lambda>s a r raw h. raw = ''0xaa'') (\<lambda>k i. ''0x5a'')) s"
    "(ds_db s, ds_sent s) = snd (solo exampleEnv ''w'' 6 (AtCreate exampleInput) emptyDb [])"
    by (rule example_run)
  have "snd (snd (solo exampleEnv ''w'' 6 (AtCreate exampleInput) emptyDb [])) = [(1, ''0xaa'')]"
    by code_simp
  then have sent: "ds_sent s = [(1, ''0xaa'')]" using s(2) by (metis snd_conv)
  have "map_option d_amount (debitRow (fst (snd (solo exampleEnv ''w'' 6 (AtCreate exampleInput) emptyDb []))) 1)
      = Some ''5''" by code_simp
  then have "map_option d_amount (debitRow (ds_db s) 1) = Some ''5''" using s(2) by (metis fst_conv)
  then obtain r where r: "debitRow (ds_db s) 1 = Some r" "d_amount r = ''5''" by auto
  have "(1, ''0xaa'') \<in> set (ds_sent s)" using sent by simp
  from one_transaction_per_event [OF s(1) this this r(1) r(1)] show ?thesis using s(1) sent r by blast
qed

section \<open>Retries and parking\<close>

definition budget_ok :: "debit_row \<Rightarrow> bool" where
  "budget_ok r \<longleftrightarrow> 0 \<le> d_attemptCount r \<and> (isOpen r \<longrightarrow> d_attemptCount r < 10) \<and>
     (d_leaseOwner r \<noteq> None \<longrightarrow> isOpen r)"

definition budgets :: "debit_system \<Rightarrow> bool" where
  "budgets s \<longleftrightarrow> (\<forall>r \<in> set (debitOperations (ds_db s)). budget_ok r)"

lemma budget_update:
  assumes "\<forall>r \<in> set (debitOperations d). budget_ok r" "\<And>r. budget_ok r \<Longrightarrow> P r \<Longrightarrow> budget_ok (f r)"
  shows "\<forall>r \<in> set (debitOperations (updateDebits P f d)). budget_ok r"
  using assms by (auto simp: updateDebits_def set_sql_update)

lemma budget_statements:
  assumes "\<forall>r \<in> set (debitOperations d). budget_ok r"
  shows "\<forall>r \<in> set (debitOperations (snd (createDebitOperation now x d))). budget_ok r"
    "\<forall>r \<in> set (debitOperations (snd (claimDebitOperation now i own secs d))). budget_ok r"
    "\<forall>r \<in> set (debitOperations (snd (persistSignedDebit now i own raw h d))). budget_ok r"
    "\<forall>r \<in> set (debitOperations (snd (completeDebitOperation now i own d))). budget_ok r"
    "\<forall>r \<in> set (debitOperations (recordDebitFailure now i own err d)). budget_ok r"
    "\<forall>r \<in> set (debitOperations (snd (resumeDebitOperation now i d))). budget_ok r"
    "\<forall>r \<in> set (debitOperations (updateDebits P superseded d)). budget_ok r"
proof -
  note u = budget_update [OF assms]
  show "\<forall>r \<in> set (debitOperations (snd (createDebitOperation now x d))). budget_ok r"
    using assms create_cases [of now x d] by (auto simp: newDebitRow_def budget_ok_def)
  have "\<forall>r \<in> set (debitOperations (updateDebits (claimable now i) (lease now own secs) d)). budget_ok r"
    by (rule u) (auto simp: budget_ok_def lease_def claimable_def isOpen_def)
  then show "\<forall>r \<in> set (debitOperations (snd (claimDebitOperation now i own secs d))). budget_ok r"
    using assms by (simp add: claimDebitOperation_def split: option.split)
  show "\<forall>r \<in> set (debitOperations (snd (persistSignedDebit now i own raw h d))). budget_ok r"
    unfolding persistSignedDebit_def Let_def snd_conv
    by (rule u) (auto simp: budget_ok_def owns_def isOpen_def)
  show "\<forall>r \<in> set (debitOperations (snd (completeDebitOperation now i own d))). budget_ok r"
    unfolding completeDebitOperation_def snd_conv
    by (rule u) (simp add: budget_ok_def isOpen_def)
  show "\<forall>r \<in> set (debitOperations (recordDebitFailure now i own err d)). budget_ok r"
    unfolding recordDebitFailure_def by (rule u) (auto simp: budget_ok_def isOpen_def failed_def)
  have r: "\<forall>r \<in> set (debitOperations (updateDebits Q (resumed now) d)). budget_ok r" for Q
    by (rule u) (simp add: budget_ok_def isOpen_def resumed_def)
  then show "\<forall>r \<in> set (debitOperations (snd (resumeDebitOperation now i d))). budget_ok r"
    using assms by (simp add: resumeDebitOperation_def Let_def split: option.split)
  show "\<forall>r \<in> set (debitOperations (updateDebits P superseded d)). budget_ok r"
    by (rule u) (simp add: budget_ok_def isOpen_def superseded_def)
qed

lemma budget_next:
  assumes "\<forall>r \<in> set (debitOperations d). budget_ok r" "durable_next env now own c d = (c', d', sent)"
  shows "\<forall>r \<in> set (debitOperations d'). budget_ok r"
proof (cases c)
  case (AtCreate x)
  then show ?thesis using assms(2) budget_statements(1) [OF assms(1), of now x] by (auto split: prod.splits option.splits)
next
  case (AtClaim x i)
  then show ?thesis using assms(2) budget_statements(2) [OF assms(1), of now i own LEASE_SECS]
    by (auto split: prod.splits option.splits if_splits)
next
  case (AtPersist i raw h)
  then show ?thesis using assms(2) budget_statements(3) [OF assms(1), of now i own raw h]
    by (auto split: prod.splits bool.splits)
next
  case (AtFail i err)
  then show ?thesis using assms(2) budget_statements(5) [OF assms(1), of now i own err] by auto
qed (use assms in \<open>auto split: option.splits receipt.splits if_splits\<close>)

interpretation retry_budget: invariant_machine debit_init "debit_step signs payer" budgets for signs payer
proof
  fix s assume "debit_init s"
  then show "budgets s" by (simp add: debit_init_def budgets_def)
next
  fix s s' assume inv: "budgets s" and step: "debit_step signs payer s s'"
  note b = budget_statements [OF inv [unfolded budgets_def]]
  from step show "budgets s'"
  proof cases
    case (ds_run t own c env c' d' sent)
    then show ?thesis using budget_next [OF inv [unfolded budgets_def]] by (simp add: budgets_def)
  qed (use inv b in \<open>simp_all add: budgets_def\<close>)
qed

lemma claim_open: "fst (claimDebitOperation now i own secs d) \<noteq> Some None \<Longrightarrow>
    \<exists>r \<in> set (debitOperations d). d_id r = i \<and> isOpen r"
  by (auto simp: claimDebitOperation_def claimable_def dest!: find_SomeD split: option.splits)

text \<open>
  Retries are bounded and parking holds: in every reachable state an operation open to workers
  has failed fewer than ten times since it was created or resumed, only open operations are leased,
  and an operation that is completed, cancelled or parked for reconciliation is granted to no worker.
\<close>

theorem retries_bounded:
  assumes "reachable debit_init (debit_step signs payer) s" "debitRow (ds_db s) i = Some r"
  shows "0 \<le> d_attemptCount r \<and> (isOpen r \<longrightarrow> d_attemptCount r < 10) \<and>
    (\<not> isOpen r \<longrightarrow> d_leaseOwner r = None \<and>
       (\<forall>now own secs. claimDebitOperation now i own secs (ds_db s) = (Some None, ds_db s)))"
proof -
  have inv: "debit_inv signs payer s" using assms(1) by (rule debits.reachable_inv)
  have "budgets s" using assms(1) by (rule retry_budget.reachable_inv)
  then have b: "budget_ok r" using debitRow_id [OF assms(2)] by (simp add: budgets_def)
  have "claimDebitOperation now i own secs (ds_db s) = (Some None, ds_db s)" if "\<not> isOpen r" for now own secs
  proof -
    have "find (claimable now i) (debitOperations (ds_db s)) = None"
    proof (rule ccontr)
      assume "find (claimable now i) (debitOperations (ds_db s)) \<noteq> None"
      then obtain r' where "r' \<in> set (debitOperations (ds_db s))" "claimable now i r'"
        by (auto dest: find_SomeD)
      then have "debitRow (ds_db s) i = Some r'" "isOpen r'"
        using inv debitRow_in by (auto simp: debit_inv_def db_inv_def claimable_def)
      then show False using assms(2) that by simp
    qed
    then show ?thesis by (simp add: claimDebitOperation_def)
  qed
  then show ?thesis using b by (auto simp: budget_ok_def)
qed

text \<open>A fresh operation, created and claimed.\<close>

lemma create_fresh:
  "\<not> sql_hit (sameSource x) (debitOperations d) \<Longrightarrow>
   \<exists>op d'. createDebitOperation now x d = (Some op, d') \<and> op_id op = debitSeq d \<and>
     d' = d\<lparr>debitOperations := debitOperations d @ [newDebitRow now (debitSeq d) x], debitSeq := debitSeq d + 1\<rparr>"
  by (simp add: createDebitOperation_def Let_def log_append_find find_None_hit [symmetric]
      rowToDebitOperation_def newDebitRow_def sameSource_def)

lemma find_last:
  "(\<forall>r \<in> set xs. \<not> P r) \<Longrightarrow> find P (xs @ [x]) = (if P x then Some x else None)"
  by (induction xs) auto

lemma update_last:
  "(\<forall>r \<in> set xs. \<not> P r) \<Longrightarrow> sql_update P f (xs @ [x]) = xs @ [if P x then f x else x]"
  by (induction xs) (auto simp: sql_update_def)

text \<open>
  C31. A new event is charged in one run when the chain cooperates: the operation is created, claimed,
  signed, persisted and broadcast, and the run reports the signed hash with its operation and owner;
  the row then holds exactly the signed bytes and hash under the worker's lease.
\<close>

theorem durable_debit_lands:
  assumes ok: "debits_ok d" and fresh: "\<not> sql_hit (sameSource x) (debitOperations d)"
    and sign: "env_sign env (di_subSolver x) (di_amount x) (lower (di_reason x)) = Some (raw, h)"
    and chain: "env_outcome env False h = None" "env_broadcast env raw = Some bh" "lower bh = lower h"
      "env_outcome env True h = Some TxSucceeded"
  shows "\<exists>d'. durableDebit env now own x d =
      (Inr (Some \<lparr>ld_hash = h, ld_operationId = debitSeq d, ld_owner = own\<rparr>), d') \<and>
    (\<exists>r. debitRow d' (debitSeq d) = Some r \<and> d_status r = Broadcasting \<and> d_leaseOwner r = Some own \<and>
       d_rawTransaction r = Some (lower raw) \<and> d_transactionHash r = Some (lower h) \<and>
       BigInt (d_amount r) = Some (di_amount x) \<and> d_subSolver r = lower (di_subSolver x))"
proof -
  let ?i = "debitSeq d" and ?xs = "debitOperations d"
  let ?n = "newDebitRow now ?i x"
  let ?l = "lease now own LEASE_SECS ?n"
  let ?p = "?l\<lparr>d_rawTransaction := Some (lower raw), d_transactionHash := Some (lower h),
      d_status := Broadcasting, d_updatedAt := now\<rparr>"
  define d1 where "d1 = d\<lparr>debitOperations := ?xs @ [?n], debitSeq := ?i + 1\<rparr>"
  define d2 where "d2 = d1\<lparr>debitOperations := ?xs @ [?l]\<rparr>"
  define d3 where "d3 = d1\<lparr>debitOperations := ?xs @ [?p]\<rparr>"
  have ids: "d_id r \<noteq> ?i" if "r \<in> set ?xs" for r using ok that by (auto simp: debits_ok_def)
  obtain op where op: "createDebitOperation now x d = (Some op, d1)" "op_id op = ?i"
    using create_fresh [OF fresh, of now] unfolding d1_def by blast
  have cl: "claimable now ?i ?n" by (simp add: claimable_def newDebitRow_def isOpen_def)
  have no: "\<forall>r \<in> set ?xs. \<not> claimable now ?i r" using ids by (simp add: claimable_def)
  obtain c where c: "rowToDebitOperation ?l = Some c" "op_id c = ?i" "op_amount c = di_amount x"
      "op_reason c = lower (di_reason x)" "op_rawTransaction c = None"
    by (simp add: rowToDebitOperation_def lease_def newDebitRow_def)
  have claim: "claimDebitOperation now ?i own LEASE_SECS d1 = (Some (Some c), d2)"
    using cl c(1) by (simp add: claimDebitOperation_def d1_def d2_def find_last [OF no] update_last [OF no]
        updateDebits_def)
  let ?P = "\<lambda>r. owns ?i own r \<and> d_rawTransaction r = None"
  have noP: "\<forall>r \<in> set ?xs. \<not> ?P r" using ids by (simp add: owns_def)
  have own: "?P ?l" by (simp add: owns_def lease_def newDebitRow_def)
  have hit: "sql_hit ?P (?xs @ [?l])" unfolding sql_hit_def using own by force
  have "sql_update ?P (\<lambda>r. r\<lparr>d_rawTransaction := Some (lower raw), d_transactionHash := Some (lower h),
      d_status := Broadcasting, d_updatedAt := now\<rparr>) (?xs @ [?l]) = ?xs @ [?p]"
    using own by (subst update_last [OF noP]) simp
  then have persist: "persistSignedDebit now ?i own raw h d2 = (True, d3)"
    using hit by (simp add: persistSignedDebit_def Let_def updateDebits_def d2_def d3_def)
  have "run_debit env now own (AtCreate x) d =
      (Finished (Some \<lparr>ld_hash = h, ld_operationId = ?i, ld_owner = own\<rparr>), d3)"
    by (simp add: run_debit.simps Let_def op claim c persist sign chain)
  then have run: "durableDebit env now own x d =
      (Inr (Some \<lparr>ld_hash = h, ld_operationId = ?i, ld_owner = own\<rparr>), d3)"
    by (simp add: durableDebit_def)
  have "\<forall>r \<in> set ?xs. \<not> d_id r = ?i" using ids by simp
  then have "debitRow d3 ?i = Some ?p"
    by (simp add: debitRow_def d3_def find_last lease_def newDebitRow_def)
  then show ?thesis using run by (simp add: lease_def newDebitRow_def)
qed

theorem retries_bounded_witness:
  "\<exists>s r. reachable debit_init (debit_step (\<lambda>s a r raw h. raw = ''0xaa'') (\<lambda>k i. ''0x5a'')) s \<and>
     debitRow (ds_db s) 1 = Some r \<and> isOpen r \<and> d_attemptCount r < 10"
proof -
  obtain s where s: "reachable debit_init (debit_step (\<lambda>s a r raw h. raw = ''0xaa'') (\<lambda>k i. ''0x5a'')) s"
    "(ds_db s, ds_sent s) = snd (solo exampleEnv ''w'' 6 (AtCreate exampleInput) emptyDb [])"
    by (rule example_run)
  have "map_option isOpen (debitRow (fst (snd (solo exampleEnv ''w'' 6 (AtCreate exampleInput) emptyDb []))) 1)
      = Some True" by code_simp
  then have "map_option isOpen (debitRow (ds_db s) 1) = Some True" using s(2) by (metis fst_conv)
  then obtain r where "debitRow (ds_db s) 1 = Some r" "isOpen r" by auto
  with retries_bounded [OF s(1) this(1)] s(1) show ?thesis by blast
qed

theorem durable_debit_lands_witness:
  "\<exists>d. durableDebit exampleEnv 0 ''w'' exampleInput emptyDb =
     (Inr (Some \<lparr>ld_hash = ''0xbb'', ld_operationId = 1, ld_owner = ''w''\<rparr>), d)"
  using durable_debit_lands [of emptyDb exampleInput exampleEnv "''0xaa''" "''0xbb''" "''0xbb''" 0 "''w''"]
  by (auto simp: emptyDb_def debits_ok_def sql_hit_def exampleEnv_def)

end
