(* ===== verification/Attempts.thy ===== *)
theory Attempts
  imports Debits
begin

text \<open>
  \<open>apps/byos/src/infra/settlement-attempts.ts\<close>: the evidence ledger of settlement attempts, which
  alone can authorise an abandonment charge, and the execution of such a charge under the attempt's
  row lock. A notification is recorded in one transaction; the \<open>CHECK\<close> constraint of the table is
  part of the model and its violation aborts the transaction (\<open>None\<close>). The advisory and row locks
  serialise the transactions, so each is one step.
\<close>

section \<open>Notifications\<close>

text \<open>\<open>notificationSchema\<close> of api/types.ts; a missing or null solution id is the empty list.\<close>

record notification =
  nt_auctionId :: "string option"
  nt_solutionIds :: "int list"
  nt_kind :: string
  nt_transaction :: "string option"

definition abandonmentKinds :: "string list" where
  "abandonmentKinds = [''cancelled'', ''expired'', ''fail'']"

definition POLICY_VERSION :: string where
  "POLICY_VERSION = ''confirmed-abandonment-v1''"

fun join :: "string \<Rightarrow> string list \<Rightarrow> string" where
  "join sep [] = []"
| "join sep [s] = s"
| "join sep (s # t # ts) = s @ sep @ join sep (t # ts)"

definition attemptKeyOf :: "int \<Rightarrow> int list \<Rightarrow> string" where
  "attemptKeyOf auctionId ids =
     ''auction:'' @ bigint_str auctionId @ '':solutions:'' @ join '','' (map bigint_str ids)"

text \<open>The auction and the ordered distinct solution ids, when both are well formed.\<close>

definition attribution :: "notification \<Rightarrow> (int \<times> int list) option" where
  "attribution n =
     (let ids = sort (remdups (nt_solutionIds n)) in
      case nt_auctionId n of
        None \<Rightarrow> None
      | Some a \<Rightarrow>
          let auctionId = Number (int (dec_val a)) in
          if decimalString a \<and> isSafeInteger auctionId \<and> ids \<noteq> [] \<and> list_all isSafeInteger ids
          then Some (auctionId, ids) else None)"

section \<open>Recording evidence\<close>

definition bidRows :: "int list \<Rightarrow> db \<Rightarrow> proposal_row list" where
  "bidRows ids d = by_id (filter (\<lambda>l. r_id l \<in> set ids) (proposalsLog d))"

text \<open>All ids are bids of one sub-solver in this auction; returns the first.\<close>

definition attributedBid :: "int \<Rightarrow> int list \<Rightarrow> proposal_row list \<Rightarrow> proposal_row option" where
  "attributedBid auctionId ids rows =
     (case rows of
        [] \<Rightarrow> None
      | bid # _ \<Rightarrow>
          if length rows = length ids \<and>
             list_all (\<lambda>r. r_auctionId r = Some auctionId \<and> r_subSolver r = r_subSolver bid \<and>
               r_clearingPrices r \<noteq> None) rows
          then Some bid else None)"

definition memberships :: "int list \<Rightarrow> db \<Rightarrow> member_row list" where
  "memberships ids d = filter (\<lambda>m. m_proposalId m \<in> set ids) (settlementAttemptMembers d)"

definition evidenceRow :: "int \<Rightarrow> string \<Rightarrow> notification \<Rightarrow> notification_row" where
  "evidenceRow attemptId key n =
     \<lparr>n_attemptId = attemptId, n_kind = nt_kind n,
      n_transactionHash = (case nt_transaction n of None \<Rightarrow> [] | Some h \<Rightarrow> lower h),
      n_solutionKey = key\<rparr>"

definition addEvidence :: "notification_row \<Rightarrow> db \<Rightarrow> db" where
  "addEvidence e d =
     (if e \<in> set (settlementNotifications d) then d
      else d\<lparr>settlementNotifications := settlementNotifications d @ [e]\<rparr>)"

definition updateAttempts :: "(attempt_row \<Rightarrow> bool) \<Rightarrow> (attempt_row \<Rightarrow> attempt_row) \<Rightarrow> db \<Rightarrow> db" where
  "updateAttempts P f d = d\<lparr>settlementAttempts := sql_update P f (settlementAttempts d)\<rparr>"

definition markConflict :: "string \<Rightarrow> notification \<Rightarrow> member_row \<Rightarrow> db \<Rightarrow> db" where
  "markConflict key n m d =
     updateAttempts (\<lambda>a. a_id a = m_attemptId m)
       (\<lambda>a. a\<lparr>a_status := AttemptNeedsReconciliation,
              a_reconciliationReason := Some ''Conflicting solution membership''\<rparr>)
       (addEvidence (evidenceRow (m_attemptId m) key n) d)"

definition legacyDebit :: "(string \<Rightarrow> string) \<Rightarrow> proposal_row \<Rightarrow> debit_row \<Rightarrow> bool" where
  "legacyDebit keccak bid r \<longleftrightarrow> d_sourceKind r = ''non-settlement'' \<and> take 8 (d_sourceId r) = ''penalty:'' \<and>
     d_subSolver r = r_subSolver bid \<and> d_reason r = keccak (r_orderUid bid) \<and> d_rawTransaction r \<noteq> None"

definition newAttempt :: "int \<Rightarrow> string \<Rightarrow> int \<Rightarrow> int list \<Rightarrow> proposal_row \<Rightarrow> bool \<Rightarrow> attempt_row" where
  "newAttempt i key auctionId ids bid legacyCharge =
     (let cap = r_settlementPenaltyCap bid;
          validCap = (case cap of None \<Rightarrow> False | Some c \<Rightarrow> decimalString c);
          review = (legacyCharge \<or> 1 < length ids \<or> \<not> validCap)
      in \<lparr>a_id = i, a_attemptKey = key, a_auctionId = auctionId, a_subSolver = r_subSolver bid,
          a_proposalId = r_id bid, a_orderUid = r_orderUid bid,
          a_penaltyCap = (if validCap then cap else None),
          a_amount = (if validCap then map_option bigint_str
             (map_option nonSettlementDebit (BigInt (the cap))) else None),
          a_policyVersion = POLICY_VERSION, a_startedAt = None, a_abandonedAt = None,
          a_abandonmentKind = None, a_outcome = None,
          a_status = (if review then AttemptNeedsReconciliation else AwaitingEvidence),
          a_reconciliationReason = (if \<not> review then None
            else if legacyCharge then Some ''Legacy abandonment debit requires review''
            else if 1 < length ids then Some ''Unexpected merged settlement''
            else Some ''Missing penalty cap snapshot''),
          a_penaltyTxHash = r_penaltyTxHash bid\<rparr>)"

text \<open>The attempt's debit operation.\<close>

definition attemptSourceId :: "int \<Rightarrow> string" where
  "attemptSourceId i = ''attempt:'' @ bigint_str i"

definition attemptOperation :: "int \<Rightarrow> db \<Rightarrow> debit_row option" where
  "attemptOperation i d =
     find (\<lambda>r. d_sourceKind r = ''non-settlement'' \<and> d_sourceId r = attemptSourceId i) (debitOperations d)"

definition hasTransaction :: "debit_row option \<Rightarrow> bool" where
  "hasTransaction operation = (case operation of None \<Rightarrow> False | Some r \<Rightarrow> \<not> falsy (d_rawTransaction r))"

text \<open>The attempt after a notification: what was observed, and the status given its debit operation.\<close>

definition observed :: "int \<Rightarrow> notification \<Rightarrow> attempt_row \<Rightarrow> attempt_row" where
  "observed now n a = a
     \<lparr>a_startedAt := (case a_startedAt a of Some t \<Rightarrow> Some t | None \<Rightarrow>
        if nt_kind n = ''settlementStarted'' then Some now else None),
      a_abandonedAt := (case a_abandonedAt a of Some t \<Rightarrow> Some t | None \<Rightarrow>
        if nt_kind n \<in> set abandonmentKinds then Some now else None),
      a_abandonmentKind := (case a_abandonmentKind a of Some k \<Rightarrow> Some k | None \<Rightarrow>
        if nt_kind n \<in> set abandonmentKinds then Some (nt_kind n) else None),
      a_outcome := (if (nt_kind n = ''success'' \<or> nt_kind n = ''revert'') \<and> \<not> falsy (nt_transaction n)
        then Some (nt_kind n) else a_outcome a)\<rparr>"

definition withEvidence :: "int \<Rightarrow> notification \<Rightarrow> debit_row option \<Rightarrow> attempt_row \<Rightarrow> attempt_row option" where
  "withEvidence now n operation a =
     (let a' = observed now n a in
      if a_outcome a' \<noteq> None then
        Some (if hasTransaction operation \<or> \<not> falsy (a_penaltyTxHash a)
          then a'\<lparr>a_status := AttemptNeedsReconciliation, a_reconciliationReason :=
              Some ''Settlement outcome conflicts with a signed or landed abandonment debit''\<rparr>
          else if a_status a \<noteq> AttemptNeedsReconciliation then a'\<lparr>a_status := AttemptCancelled\<rparr>
          else a')
      else if a_status a = AwaitingEvidence \<and> a_startedAt a' \<noteq> None \<and> a_abandonedAt a' \<noteq> None \<and>
              a_amount a \<noteq> None
      then map_option (\<lambda>v. a'\<lparr>a_status := (if 0 < v then Eligible else AttemptCancelled)\<rparr>)
             (BigInt (the (a_amount a)))
      else Some a')"

text \<open>The table's \<open>CHECK\<close> constraint.\<close>

definition eligibility_check :: "attempt_row \<Rightarrow> bool" where
  "eligibility_check a \<longleftrightarrow> a_status a \<noteq> Eligible \<or>
     (a_startedAt a \<noteq> None \<and> a_abandonedAt a \<noteq> None \<and>
      (\<exists>k \<in> set abandonmentKinds. a_abandonmentKind a = Some k) \<and> a_outcome a = None \<and>
      (case (a_amount a, a_penaltyCap a) of
         (Some am, Some cap) \<Rightarrow>
           (case (BigInt am, BigInt cap) of
              (Some v, Some c) \<Rightarrow> 0 < v \<and> v = c sdiv 10
            | _ \<Rightarrow> False)
       | _ \<Rightarrow> False))"

text \<open>The current attempt: the one under this key, or a new one with its members.\<close>

definition ensureAttempt :: "(string \<Rightarrow> string) \<Rightarrow> string \<Rightarrow> int \<Rightarrow> int list \<Rightarrow> proposal_row \<Rightarrow> db \<Rightarrow> attempt_row \<times> db" where
  "ensureAttempt keccak key auctionId ids bid d =
     (case find (\<lambda>a. a_attemptKey a = key) (settlementAttempts d) of
        Some a \<Rightarrow> (a, d)
      | None \<Rightarrow>
          let legacy = (r_penaltyTxHash bid \<noteq> None \<or> sql_hit (legacyDebit keccak bid) (debitOperations d));
              a = newAttempt (attemptSeq d) key auctionId ids bid legacy
          in (a, d\<lparr>settlementAttempts := settlementAttempts d @ [a], attemptSeq := attemptSeq d + 1,
                   settlementAttemptMembers := settlementAttemptMembers d @
                     map (\<lambda>i. \<lparr>m_attemptId = a_id a, m_proposalId = i\<rparr>) ids\<rparr>))"

text \<open>\<open>recordSettlementNotification\<close>: whether the notification is attributed, and the new tables.\<close>

definition recordSettlementNotification :: "(string \<Rightarrow> string) \<Rightarrow> int \<Rightarrow> notification \<Rightarrow> db \<Rightarrow> (bool \<times> db) option" where
  "recordSettlementNotification keccak now n d =
     (case attribution n of
        None \<Rightarrow> Some (False, d)
      | Some (auctionId, ids) \<Rightarrow>
          let key = attemptKeyOf auctionId ids in
          (case attributedBid auctionId ids (bidRows ids d) of
             None \<Rightarrow> Some (False, d)
           | Some bid \<Rightarrow>
               let ms = memberships ids d;
                   current = find (\<lambda>a. a_attemptKey a = key) (settlementAttempts d) in
               if \<exists>m \<in> set ms. Some (m_attemptId m) \<noteq> map_option a_id current
               then Some (False, fold (markConflict key n) ms d)
               else
                 let (a, d1) = ensureAttempt keccak key auctionId ids bid d;
                     d2 = addEvidence (evidenceRow (a_id a) key n) d1;
                     operation = attemptOperation (a_id a) d2 in
                 (case withEvidence now n operation a of
                    None \<Rightarrow> None
                  | Some a' \<Rightarrow>
                      let d3 = (case operation of
                            None \<Rightarrow> d2
                          | Some r \<Rightarrow>
                              if a_outcome a' \<noteq> None \<and> d_status r \<noteq> Completed
                              then updateDebits (\<lambda>x. d_id x = d_id r) superseded d2 else d2) in
                      if eligibility_check a'
                      then Some (True, updateAttempts (\<lambda>x. a_id x = a_id a) (\<lambda>x. a') d3)
                      else None)))"

section \<open>Executing a charge\<close>

record pending_penalty =
  pp_id :: int
  pp_proposalId :: int
  pp_subSolver :: string
  pp_orderUid :: string
  pp_penaltyCap :: int
  pp_amount :: int

text \<open>\<open>None\<close> is the error of an eligible attempt without a financial snapshot.\<close>

definition penaltyOf :: "attempt_row \<Rightarrow> pending_penalty option" where
  "penaltyOf a = do {
     am \<leftarrow> a_amount a;
     cap \<leftarrow> a_penaltyCap a;
     v \<leftarrow> BigInt am;
     c \<leftarrow> BigInt cap;
     Some \<lparr>pp_id = a_id a, pp_proposalId = a_proposalId a, pp_subSolver = a_subSolver a,
           pp_orderUid = a_orderUid a, pp_penaltyCap = c, pp_amount = v\<rparr>
   }"

definition eligibleNonSettlementPenalties :: "db \<Rightarrow> pending_penalty list option" where
  "eligibleNonSettlementPenalties d =
     those (map penaltyOf (sort_key a_id (filter (\<lambda>a. a_status a = Eligible) (settlementAttempts d))))"

definition setAttempt :: "int \<Rightarrow> (attempt_row \<Rightarrow> attempt_row) \<Rightarrow> db \<Rightarrow> db" where
  "setAttempt i f d = updateAttempts (\<lambda>a. a_id a = i) f d"

text \<open>
  \<open>executeNonSettlementPenalty\<close> with the debit program it runs inside the attempt's lock. The debit
  commits on its own; an exception rolls back only this transaction's writes (\<open>Inl\<close>).
\<close>

definition executeNonSettlementPenalty :: "int \<Rightarrow> int \<Rightarrow> (db \<Rightarrow> (unit + landed_debit option) \<times> db) \<Rightarrow> db \<Rightarrow>
    (unit + landed_debit option) \<times> db" where
  "executeNonSettlementPenalty now i debit d =
     (case attemptRow d i of
        None \<Rightarrow> (Inr None, d)
      | Some a \<Rightarrow>
          if a_status a \<noteq> Eligible then (Inr None, d)
          else (case debit d of
            (Inl e, d1) \<Rightarrow> (Inl e, d1)
          | (Inr None, d1) \<Rightarrow>
              (case attemptOperation i d1 of
                 None \<Rightarrow> (Inr None, d1)
               | Some operation \<Rightarrow>
                   if d_status operation = NeedsReconciliation
                   then (Inr None, setAttempt i (\<lambda>a. a\<lparr>a_status := AttemptNeedsReconciliation,
                      a_reconciliationReason := Some RETRY_RECONCILIATION_REASON\<rparr>) d1)
                   else (Inr None, d1))
          | (Inr (Some landed), d1) \<Rightarrow>
              let d2 = setAttempt i (\<lambda>a. a\<lparr>a_status := Debited, a_penaltyTxHash := Some (lower (ld_hash landed))\<rparr>) d1;
                  ids = map m_proposalId (filter (\<lambda>m. m_attemptId m = i) (settlementAttemptMembers d2));
                  d3 = penalizeMembers (ld_hash landed) ids d2;
                  done = completeDebitOperation now (ld_operationId landed) (ld_owner landed) d3 in
              if fst done then (Inr (Some landed), snd done) else (Inl (), d1)))"

section \<open>The evidence invariant\<close>

text \<open>
  \<open>live\<close> attempts can still lead to a charge; \<open>chargeable\<close> ones are eligible or parked by an
  exhausted debit, from where a manual resume makes them eligible again.
\<close>

definition chargeable :: "attempt_row \<Rightarrow> bool" where
  "chargeable a \<longleftrightarrow> a_status a = Eligible \<or>
     a_status a = AttemptNeedsReconciliation \<and> a_outcome a = None \<and>
     a_reconciliationReason a = Some RETRY_RECONCILIATION_REASON"

definition live :: "attempt_row \<Rightarrow> bool" where
  "live a \<longleftrightarrow> a_status a = AwaitingEvidence \<or> chargeable a"

definition evidenced :: "notification_row set \<Rightarrow> int \<Rightarrow> string \<Rightarrow> bool" where
  "evidenced E i k \<longleftrightarrow> (\<exists>n \<in> E. n_attemptId n = i \<and> n_kind n = k)"

definition landedOutcome :: "notification_row set \<Rightarrow> int \<Rightarrow> bool" where
  "landedOutcome E i \<longleftrightarrow> (\<exists>n \<in> E. n_attemptId n = i \<and> (n_kind n = ''success'' \<or> n_kind n = ''revert'') \<and>
     n_transactionHash n \<noteq> [])"

definition priced :: "attempt_row \<Rightarrow> bool" where
  "priced a \<longleftrightarrow> (\<forall>am. a_amount a = Some am \<longrightarrow> (\<exists>cap c. a_penaltyCap a = Some cap \<and> BigInt cap = Some c \<and>
     0 \<le> c \<and> BigInt am = Some (c sdiv 10)))"

definition positive :: "attempt_row \<Rightarrow> bool" where
  "positive a \<longleftrightarrow> (\<exists>am v. a_amount a = Some am \<and> BigInt am = Some v \<and> 0 < v)"

definition attempt_ok :: "notification_row set \<Rightarrow> attempt_row \<Rightarrow> bool" where
  "attempt_ok E a \<longleftrightarrow>
     (a_startedAt a \<noteq> None \<longrightarrow> evidenced E (a_id a) ''settlementStarted'') \<and>
     (a_abandonedAt a \<noteq> None \<longleftrightarrow> a_abandonmentKind a \<noteq> None) \<and>
     (\<forall>k. a_abandonmentKind a = Some k \<longrightarrow> k \<in> set abandonmentKinds \<and> evidenced E (a_id a) k) \<and>
     priced a \<and>
     (chargeable a \<longrightarrow> a_startedAt a \<noteq> None \<and> a_abandonedAt a \<noteq> None \<and> positive a) \<and>
     (live a \<longrightarrow> a_outcome a = None \<and> \<not> landedOutcome E (a_id a))"

lemmas attempt_defs = attempt_ok_def chargeable_def live_def

lemma evidenced_mono: "evidenced E i k \<Longrightarrow> E \<subseteq> E' \<Longrightarrow> evidenced E' i k"
  by (auto simp: evidenced_def)

lemma reason_texts:
  "''Conflicting solution membership'' \<noteq> RETRY_RECONCILIATION_REASON"
  "''Settlement outcome conflicts with a signed or landed abandonment debit'' \<noteq> RETRY_RECONCILIATION_REASON"
  "''Legacy abandonment debit requires review'' \<noteq> RETRY_RECONCILIATION_REASON"
  "''Unexpected merged settlement'' \<noteq> RETRY_RECONCILIATION_REASON"
  "''Missing penalty cap snapshot'' \<noteq> RETRY_RECONCILIATION_REASON"
  by (simp_all add: RETRY_RECONCILIATION_REASON_def)

lemma ok_dead:
  "attempt_ok E a \<Longrightarrow> E \<subseteq> E' \<Longrightarrow> \<not> live a' \<Longrightarrow> a_id a' = a_id a \<Longrightarrow> a_startedAt a' = a_startedAt a \<Longrightarrow>
   a_abandonedAt a' = a_abandonedAt a \<Longrightarrow> a_abandonmentKind a' = a_abandonmentKind a \<Longrightarrow>
   a_amount a' = a_amount a \<Longrightarrow> a_penaltyCap a' = a_penaltyCap a \<Longrightarrow> attempt_ok E' a'"
  by (auto simp: attempt_ok_def live_def priced_def intro: evidenced_mono)

lemma lower_Nil_iff [simp]: "lower s = [] \<longleftrightarrow> s = []"
  by (simp add: lower_def)

lemma landed_insert:
  "landedOutcome (insert (evidenceRow i key n) E) j \<longleftrightarrow> landedOutcome E j \<or>
   j = i \<and> (nt_kind n = ''success'' \<or> nt_kind n = ''revert'') \<and> \<not> falsy (nt_transaction n)"
  by (auto simp: landedOutcome_def evidenceRow_def falsy_def split: option.splits)

lemma evidenced_insert [simp]:
  "evidenced (insert (evidenceRow i key n) E) j k \<longleftrightarrow> evidenced E j k \<or> j = i \<and> k = nt_kind n"
  by (auto simp: evidenced_def evidenceRow_def)

lemma ok_other:
  "attempt_ok E a \<Longrightarrow> a_id a \<noteq> i \<Longrightarrow> attempt_ok (insert (evidenceRow i key n) E) a"
  by (auto simp: attempt_ok_def landed_insert)

text \<open>A notification's evidence and the status it leads to.\<close>

lemma observed_keeps [simp]:
  "a_id (observed now n a) = a_id a" "a_attemptKey (observed now n a) = a_attemptKey a"
  "a_amount (observed now n a) = a_amount a" "a_penaltyCap (observed now n a) = a_penaltyCap a"
  "a_proposalId (observed now n a) = a_proposalId a" "a_subSolver (observed now n a) = a_subSolver a"
  "a_penaltyTxHash (observed now n a) = a_penaltyTxHash a" "a_status (observed now n a) = a_status a"
  "a_reconciliationReason (observed now n a) = a_reconciliationReason a"
  "a_auctionId (observed now n a) = a_auctionId a" "a_orderUid (observed now n a) = a_orderUid a"
  by (simp_all add: observed_def)

lemma observed_fields:
  "a_startedAt (observed now n a) = (case a_startedAt a of Some t \<Rightarrow> Some t | None \<Rightarrow>
           if nt_kind n = ''settlementStarted'' then Some now else None)"
  "a_abandonedAt (observed now n a) = (case a_abandonedAt a of Some t \<Rightarrow> Some t | None \<Rightarrow>
           if nt_kind n \<in> set abandonmentKinds then Some now else None)"
  "a_abandonmentKind (observed now n a) = (case a_abandonmentKind a of Some k \<Rightarrow> Some k | None \<Rightarrow>
           if nt_kind n \<in> set abandonmentKinds then Some (nt_kind n) else None)"
  "a_outcome (observed now n a) = (if (nt_kind n = ''success'' \<or> nt_kind n = ''revert'') \<and>
           \<not> falsy (nt_transaction n) then Some (nt_kind n) else a_outcome a)"
  by (simp_all add: observed_def)

lemma withEvidence_cases:
  assumes "withEvidence now n operation a = Some a'"
  obtains reason st where "a' = (observed now n a)\<lparr>a_status := st, a_reconciliationReason := reason\<rparr>"
    "a_outcome a' \<noteq> None \<Longrightarrow> st = AttemptNeedsReconciliation \<or> st = AttemptCancelled"
    "a_outcome a' = None \<Longrightarrow> if a_status a = AwaitingEvidence \<and> a_startedAt a' \<noteq> None \<and>
         a_abandonedAt a' \<noteq> None \<and> a_amount a \<noteq> None
       then (\<exists>v. BigInt (the (a_amount a)) = Some v \<and> st = (if 0 < v then Eligible else AttemptCancelled))
       else st = a_status a \<and> reason = a_reconciliationReason a"
proof -
  let ?o = "observed now n a"
  let ?new = "a_status a = AwaitingEvidence \<and> a_startedAt ?o \<noteq> None \<and> a_abandonedAt ?o \<noteq> None \<and> a_amount a \<noteq> None"
  consider (outcome) "a_outcome ?o \<noteq> None" | (priced) "a_outcome ?o = None" "?new" | (same) "a_outcome ?o = None" "\<not> ?new"
    by blast
  then show thesis
  proof cases
    case outcome
    show thesis
    proof (cases "hasTransaction operation \<or> \<not> falsy (a_penaltyTxHash a)")
      case True
      then have eq: "a' = ?o\<lparr>a_status := AttemptNeedsReconciliation, a_reconciliationReason :=
          Some ''Settlement outcome conflicts with a signed or landed abandonment debit''\<rparr>"
        using assms outcome unfolding withEvidence_def Let_def by (simp only: if_True option.inject simp_thms)
      show thesis by (rule that [OF eq]) (use eq outcome in simp_all)
    next
      case False
      let ?st = "if a_status a \<noteq> AttemptNeedsReconciliation then AttemptCancelled else a_status a"
      have "a' = (if a_status a \<noteq> AttemptNeedsReconciliation then ?o\<lparr>a_status := AttemptCancelled\<rparr> else ?o)"
        using False assms outcome unfolding withEvidence_def Let_def by (simp only: if_True if_False option.inject simp_thms)
      then have eq: "a' = ?o\<lparr>a_status := ?st, a_reconciliationReason := a_reconciliationReason a\<rparr>" by simp
      show thesis by (rule that [OF eq]) (use eq outcome in simp_all)
    qed
  next
    case priced
    then obtain v where v: "BigInt (the (a_amount a)) = Some v"
        "a' = ?o\<lparr>a_status := (if 0 < v then Eligible else AttemptCancelled)\<rparr>"
      using assms unfolding withEvidence_def Let_def by auto
    then have eq: "a' = ?o\<lparr>a_status := (if 0 < v then Eligible else AttemptCancelled),
        a_reconciliationReason := a_reconciliationReason a\<rparr>" by simp
    show thesis by (rule that [OF eq]) (use eq v(1) priced in simp_all)
  next
    case same
    then have "a' = ?o" using assms unfolding withEvidence_def Let_def by (simp only: if_False simp_thms) simp
    then have eq: "a' = ?o\<lparr>a_status := a_status a, a_reconciliationReason := a_reconciliationReason a\<rparr>" by simp
    show thesis by (rule that [OF eq]) (use eq same in auto)
  qed
qed

lemma withEvidence_keeps:
  assumes "withEvidence now n operation a = Some a'"
  shows "a_id a' = a_id a" "a_attemptKey a' = a_attemptKey a" "a_amount a' = a_amount a"
    "a_penaltyCap a' = a_penaltyCap a" "a_proposalId a' = a_proposalId a" "a_subSolver a' = a_subSolver a"
    "a_penaltyTxHash a' = a_penaltyTxHash a"
proof -
  obtain st reason where "a' = (observed now n a)\<lparr>a_status := st, a_reconciliationReason := reason\<rparr>"
    by (rule withEvidence_cases [OF assms])
  then show "a_id a' = a_id a" "a_attemptKey a' = a_attemptKey a" "a_amount a' = a_amount a"
    "a_penaltyCap a' = a_penaltyCap a" "a_proposalId a' = a_proposalId a" "a_subSolver a' = a_subSolver a"
    "a_penaltyTxHash a' = a_penaltyTxHash a"
    by simp_all
qed

lemma ok_withEvidence:
  assumes ok: "attempt_ok E a" and we: "withEvidence now n operation a = Some a'"
  shows "attempt_ok (insert (evidenceRow (a_id a) key n) E) a'"
proof -
  let ?E = "insert (evidenceRow (a_id a) key n) E"
  obtain st reason where a': "a' = (observed now n a)\<lparr>a_status := st, a_reconciliationReason := reason\<rparr>"
    and out: "a_outcome a' \<noteq> None \<Longrightarrow> st = AttemptNeedsReconciliation \<or> st = AttemptCancelled"
    and none: "a_outcome a' = None \<Longrightarrow> if a_status a = AwaitingEvidence \<and> a_startedAt a' \<noteq> None \<and>
         a_abandonedAt a' \<noteq> None \<and> a_amount a \<noteq> None
       then (\<exists>v. BigInt (the (a_amount a)) = Some v \<and> st = (if 0 < v then Eligible else AttemptCancelled))
       else st = a_status a \<and> reason = a_reconciliationReason a"
    by (rule withEvidence_cases [OF we]) (rule that)
  have k: "a_id a' = a_id a" "a_amount a' = a_amount a" "a_penaltyCap a' = a_penaltyCap a" "a_status a' = st"
      "a_reconciliationReason a' = reason"
    by (simp_all add: a')
  have f: "a_startedAt a' = a_startedAt (observed now n a)" "a_abandonedAt a' = a_abandonedAt (observed now n a)"
      "a_abandonmentKind a' = a_abandonmentKind (observed now n a)" "a_outcome a' = a_outcome (observed now n a)"
    by (simp_all add: a')
  note f = f [unfolded observed_fields]
  have started: "a_startedAt a' \<noteq> None \<longrightarrow> evidenced ?E (a_id a') ''settlementStarted''"
    using ok f(1) k(1) by (auto simp: attempt_ok_def split: option.splits if_splits)
  have kinds: "a_abandonedAt a' \<noteq> None \<longleftrightarrow> a_abandonmentKind a' \<noteq> None"
    using ok f(2,3) by (auto simp: attempt_ok_def split: option.splits)
  have kind: "\<forall>x. a_abandonmentKind a' = Some x \<longrightarrow> x \<in> set abandonmentKinds \<and> evidenced ?E (a_id a') x"
    using ok f(3) k(1) by (auto simp: attempt_ok_def split: option.splits if_splits)
  have priced: "priced a'" using ok k(2,3) by (simp add: attempt_ok_def priced_def)
  show ?thesis
  proof (cases "a_outcome a' = None")
    case False
    then have "\<not> live a'" using out k(4) by (auto simp: live_def chargeable_def)
    then show ?thesis using started kinds kind priced by (simp add: attempt_ok_def live_def)
  next
    case True
    note st = none [OF True]
    have oa: "a_outcome a = None" using True f(4) by (simp split: if_splits)
    have live: "live a' \<Longrightarrow> live a"
      using st oa True k(4,5) by (auto simp: live_def chargeable_def split: if_splits)
    have landed: "landedOutcome ?E (a_id a') \<longleftrightarrow> landedOutcome E (a_id a)"
      using True f(4) k(1) by (auto simp: landed_insert split: if_splits)
    have charge: "chargeable a' \<longrightarrow> a_startedAt a' \<noteq> None \<and> a_abandonedAt a' \<noteq> None \<and> positive a'"
    proof (cases "chargeable a")
      case True
      then show ?thesis using ok f(1,2) k(2) by (auto simp: attempt_ok_def positive_def split: option.splits)
    next
      case no: False
      show ?thesis
      proof
        assume c: "chargeable a'"
        have new: "a_status a = AwaitingEvidence \<and> a_startedAt a' \<noteq> None \<and> a_abandonedAt a' \<noteq> None \<and> a_amount a \<noteq> None"
        proof (rule ccontr)
          assume "\<not> ?thesis"
          then have "st = a_status a" "reason = a_reconciliationReason a"
            using st by meson+
          then show False using c no oa True k(4,5) by (simp add: chargeable_def)
        qed
        then obtain v where v: "BigInt (the (a_amount a)) = Some v" "st = (if 0 < v then Eligible else AttemptCancelled)"
          using st by auto
        then have "0 < v" using c k(4) by (auto simp: chargeable_def split: if_splits)
        then show "a_startedAt a' \<noteq> None \<and> a_abandonedAt a' \<noteq> None \<and> positive a'"
          using new v(1) k(2) by (auto simp: positive_def)
      qed
    qed
    show ?thesis using started kinds kind priced charge landed live ok True
      by (simp add: attempt_ok_def)
  qed
qed

lemma withEvidence_live:
  assumes we: "withEvidence now n operation a = Some a'" and l: "live a'"
  shows "live a"
proof -
  obtain st reason where a': "a' = (observed now n a)\<lparr>a_status := st, a_reconciliationReason := reason\<rparr>"
    and out: "a_outcome a' \<noteq> None \<Longrightarrow> st = AttemptNeedsReconciliation \<or> st = AttemptCancelled"
    and none: "a_outcome a' = None \<Longrightarrow> if a_status a = AwaitingEvidence \<and> a_startedAt a' \<noteq> None \<and>
         a_abandonedAt a' \<noteq> None \<and> a_amount a \<noteq> None
       then (\<exists>v. BigInt (the (a_amount a)) = Some v \<and> st = (if 0 < v then Eligible else AttemptCancelled))
       else st = a_status a \<and> reason = a_reconciliationReason a"
    by (rule withEvidence_cases [OF we]) (rule that)
  have st: "a_status a' = st" "a_reconciliationReason a' = reason" by (simp_all add: a')
  have none': "a_outcome a' = None"
  proof (rule ccontr)
    assume "a_outcome a' \<noteq> None"
    from this out [OF this] show False using l st by (auto simp: live_def chargeable_def)
  qed
  then have "a_outcome a = None" by (simp add: a' observed_fields split: if_splits)
  then show ?thesis using none [OF none'] none' l st by (auto simp: live_def chargeable_def split: if_splits)
qed

lemma newAttempt_ok:
  assumes "\<not> (\<exists>n \<in> E. n_attemptId n = i)"
  shows "attempt_ok E (newAttempt i key auctionId ids bid legacyCharge)"
proof -
  let ?a = "newAttempt i key auctionId ids bid legacyCharge"
  have f: "a_startedAt ?a = None" "a_abandonedAt ?a = None" "a_abandonmentKind ?a = None" "a_outcome ?a = None"
      "a_id ?a = i"
    by (simp_all add: newAttempt_def Let_def)
  have "\<not> chargeable ?a"
    unfolding chargeable_def newAttempt_def Let_def by (simp add: RETRY_RECONCILIATION_REASON_def)
  moreover have "\<not> landedOutcome E i" using assms by (auto simp: landedOutcome_def)
  moreover have "priced ?a"
    unfolding priced_def
  proof (intro allI impI)
    fix am assume "a_amount ?a = Some am"
    then obtain cap where cap: "r_settlementPenaltyCap bid = Some cap" "decimalString cap"
        "am = the (map_option bigint_str (map_option nonSettlementDebit (BigInt cap)))" "a_penaltyCap ?a = Some cap"
      by (auto simp: newAttempt_def Let_def split: if_splits option.splits)
    then obtain c where "BigInt cap = Some c" "0 \<le> c" using decimalString_parses by blast
    then show "\<exists>cap c. a_penaltyCap ?a = Some cap \<and> BigInt cap = Some c \<and> 0 \<le> c \<and> BigInt am = Some (c sdiv 10)"
      using cap by (simp add: nonSettlementDebit_def)
  qed
  ultimately show ?thesis using f by (simp add: attempt_ok_def)
qed

lemma ok_check: "attempt_ok E a \<Longrightarrow> eligibility_check a"
proof (cases "a_status a = Eligible")
  case True
  assume ok: "attempt_ok E a"
  have ch: "chargeable a" "live a" using True by (simp_all add: chargeable_def live_def)
  obtain k where k: "a_abandonmentKind a = Some k" "k \<in> set abandonmentKinds"
    using ok ch by (auto simp: attempt_ok_def)
  obtain am v where v: "a_amount a = Some am" "BigInt am = Some v" "0 < v"
    using ok ch by (auto simp: attempt_ok_def positive_def)
  then obtain cap c where c: "a_penaltyCap a = Some cap" "BigInt cap = Some c" "v = c sdiv 10"
    using ok by (auto simp: attempt_ok_def priced_def)
  show ?thesis using ok ch k v c by (auto simp: eligibility_check_def attempt_ok_def)
qed (simp add: eligibility_check_def)

lemma withEvidence_total:
  "attempt_ok E a \<Longrightarrow> \<exists>a'. withEvidence now n operation a = Some a'"
  by (auto simp: withEvidence_def Let_def attempt_ok_def priced_def)

text \<open>The tables: keys, the evidence of every attempt, and one member for every live attempt.\<close>

definition membersOf :: "db \<Rightarrow> int \<Rightarrow> int list" where
  "membersOf d i = map m_proposalId (filter (\<lambda>m. m_attemptId m = i) (settlementAttemptMembers d))"

definition evidence :: "db \<Rightarrow> notification_row set" where
  "evidence d = set (settlementNotifications d)"

definition attempts_inv :: "db \<Rightarrow> bool" where
  "attempts_inv d \<longleftrightarrow>
     distinct (map a_id (settlementAttempts d)) \<and> distinct (map a_attemptKey (settlementAttempts d)) \<and>
     (\<forall>a \<in> set (settlementAttempts d). a_id a < attemptSeq d \<and> attempt_ok (evidence d) a \<and>
        a_proposalId a \<in> set (membersOf d (a_id a)) \<and>
        (live a \<longrightarrow> membersOf d (a_id a) = [a_proposalId a])) \<and>
     distinct (map m_proposalId (settlementAttemptMembers d)) \<and>
     (\<forall>m \<in> set (settlementAttemptMembers d). m_attemptId m < attemptSeq d) \<and>
     (\<forall>n \<in> evidence d. n_attemptId n < attemptSeq d)"

lemma inv_attempt:
  assumes "attempts_inv d" "a \<in> set (settlementAttempts d)"
  shows "attempt_ok (evidence d) a" "a_id a < attemptSeq d" "a_proposalId a \<in> set (membersOf d (a_id a))"
    "live a \<Longrightarrow> membersOf d (a_id a) = [a_proposalId a]"
  using assms by (auto simp: attempts_inv_def)

lemma inv_cong:
  "settlementAttempts d' = settlementAttempts d \<Longrightarrow> settlementAttemptMembers d' = settlementAttemptMembers d \<Longrightarrow>
   settlementNotifications d' = settlementNotifications d \<Longrightarrow> attemptSeq d' = attemptSeq d \<Longrightarrow>
   attempts_inv d' = attempts_inv d"
  by (simp add: attempts_inv_def evidence_def membersOf_def)

lemma evidence_add [simp]: "evidence (addEvidence e d) = insert e (evidence d)"
  by (auto simp: evidence_def addEvidence_def)

lemma tables_add [simp]:
  "settlementAttempts (addEvidence e d) = settlementAttempts d"
  "settlementAttemptMembers (addEvidence e d) = settlementAttemptMembers d"
  "attemptSeq (addEvidence e d) = attemptSeq d" "debitOperations (addEvidence e d) = debitOperations d"
  "membersOf (addEvidence e d) = membersOf d"
  by (simp_all add: addEvidence_def membersOf_def fun_eq_iff)

lemma tables_update [simp]:
  "settlementAttemptMembers (updateAttempts P f d) = settlementAttemptMembers d"
  "settlementNotifications (updateAttempts P f d) = settlementNotifications d"
  "attemptSeq (updateAttempts P f d) = attemptSeq d" "membersOf (updateAttempts P f d) = membersOf d"
  "evidence (updateAttempts P f d) = evidence d"
  by (simp_all add: updateAttempts_def membersOf_def evidence_def fun_eq_iff)

lemma tables_debits [simp]:
  "settlementAttempts (updateDebits P f d) = settlementAttempts d"
  "settlementAttemptMembers (updateDebits P f d) = settlementAttemptMembers d"
  "settlementNotifications (updateDebits P f d) = settlementNotifications d"
  "attemptSeq (updateDebits P f d) = attemptSeq d"
  by (simp_all add: updateDebits_def)

text \<open>Replacing one attempt by a sound one.\<close>

lemma inv_unique:
  "attempts_inv d \<Longrightarrow> a \<in> set (settlementAttempts d) \<Longrightarrow> x \<in> set (settlementAttempts d) \<Longrightarrow>
   a_id x = a_id a \<Longrightarrow> x = a"
  by (auto simp: attempts_inv_def dest: keys_inj)

lemma inv_replace:
  assumes inv: "attempts_inv d" and a: "a \<in> set (settlementAttempts d)"
    and tables: "settlementAttempts d1 = settlementAttempts d" "attemptSeq d1 = attemptSeq d"
      "settlementAttemptMembers d1 = settlementAttemptMembers d"
    and others: "\<And>x. x \<in> set (settlementAttempts d) \<Longrightarrow> a_id x \<noteq> a_id a \<Longrightarrow> attempt_ok (evidence d1) x"
    and ids: "\<And>n. n \<in> evidence d1 \<Longrightarrow> n_attemptId n < attemptSeq d"
    and keys: "a_id (f a) = a_id a" "a_attemptKey (f a) = a_attemptKey a" "a_proposalId (f a) = a_proposalId a"
    and ok: "attempt_ok (evidence d1) (f a)" and single: "live (f a) \<Longrightarrow> live a"
  shows "attempts_inv (updateAttempts (\<lambda>x. a_id x = a_id a) f d1)"
proof -
  let ?d = "updateAttempts (\<lambda>x. a_id x = a_id a) f d1"
  have members: "membersOf d1 = membersOf d" by (simp add: membersOf_def tables fun_eq_iff)
  have rows: "settlementAttempts ?d = map (\<lambda>x. if a_id x = a_id a then f a else x) (settlementAttempts d)"
    using inv_unique [OF inv a] by (auto simp: updateAttempts_def sql_update_def tables)
  have "map a_id (settlementAttempts ?d) = map a_id (settlementAttempts d)"
    "map a_attemptKey (settlementAttempts ?d) = map a_attemptKey (settlementAttempts d)"
    unfolding rows using keys inv_unique [OF inv a] by (auto simp: comp_def)
  moreover have "a_id x < attemptSeq d \<and> attempt_ok (evidence d1) x \<and>
      a_proposalId x \<in> set (membersOf d (a_id x)) \<and> (live x \<longrightarrow> membersOf d (a_id x) = [a_proposalId x])"
    if x: "x \<in> set (settlementAttempts ?d)" for x
  proof (cases "a_id x = a_id a")
    case True
    then have "x = f a" using x keys unfolding rows by auto
    then show ?thesis using inv_attempt [OF inv a] keys ok single by auto
  next
    case False
    then have "x \<in> set (settlementAttempts d)" using x keys unfolding rows by (auto split: if_splits)
    then show ?thesis using inv_attempt [OF inv, of x] others False by auto
  qed
  ultimately show ?thesis using inv ids by (simp add: attempts_inv_def tables members)
qed

lemma evidence_ids:
  "attempts_inv d \<Longrightarrow> i < attemptSeq d \<Longrightarrow> n' \<in> insert (evidenceRow i key n) (evidence d) \<Longrightarrow> n_attemptId n' < attemptSeq d"
  by (auto simp: attempts_inv_def evidenceRow_def)

text \<open>A conflicting membership freezes every attempt it touches.\<close>

lemma conflict_inv:
  assumes inv: "attempts_inv d" and i: "m_attemptId m < attemptSeq d"
  shows "attempts_inv (markConflict key n m d) \<and> attemptSeq (markConflict key n m d) = attemptSeq d"
proof (cases "\<exists>a \<in> set (settlementAttempts d). a_id a = m_attemptId m")
  case True
  then obtain a where a: "a \<in> set (settlementAttempts d)" "a_id a = m_attemptId m" by blast
  let ?f = "\<lambda>a. a\<lparr>a_status := AttemptNeedsReconciliation,
      a_reconciliationReason := Some ''Conflicting solution membership''\<rparr>"
  have dead: "\<not> live (?f a)" by (simp add: live_def chargeable_def reason_texts)
  have "attempts_inv (updateAttempts (\<lambda>x. a_id x = a_id a) ?f (addEvidence (evidenceRow (a_id a) key n) d))"
  proof (rule inv_replace [OF inv a(1)])
    show "attempt_ok (evidence (addEvidence (evidenceRow (a_id a) key n) d)) (?f a)"
      by (rule ok_dead [OF inv_attempt(1) [OF inv a(1)] _ dead]) auto
    show "n_attemptId n' < attemptSeq d" if "n' \<in> evidence (addEvidence (evidenceRow (a_id a) key n) d)" for n'
      using evidence_ids [OF inv] that i a(2) by simp
  qed (use dead inv_attempt(1) [OF inv] ok_other in auto)
  then show ?thesis using a(2) by (simp add: markConflict_def)
next
  case False
  let ?e = "evidenceRow (m_attemptId m) key n"
  have "settlementAttempts (markConflict key n m d) = settlementAttempts d"
    using False by (auto simp: markConflict_def updateAttempts_def sql_update_def intro!: map_idI)
  moreover have "evidence (markConflict key n m d) = insert ?e (evidence d)" by (simp add: markConflict_def)
  moreover have "\<forall>a \<in> set (settlementAttempts d). attempt_ok (insert ?e (evidence d)) a"
    using False inv_attempt(1) [OF inv] ok_other by blast
  ultimately show ?thesis using inv i evidence_ids [OF inv i]
    by (auto simp: attempts_inv_def markConflict_def)
qed

lemma conflicts_inv:
  "attempts_inv d \<Longrightarrow> \<forall>m \<in> set ms. m_attemptId m < attemptSeq d \<Longrightarrow> attempts_inv (fold (markConflict key n) ms d)"
  by (induction ms arbitrary: d) (use conflict_inv in auto)

lemma attribution_ids: "attribution n = Some (auctionId, ids) \<Longrightarrow> distinct ids \<and> ids \<noteq> []"
  by (auto simp: attribution_def Let_def split: option.splits if_splits)

lemma attributedBid_id:
  assumes "attributedBid auctionId ids (bidRows ids d) = Some bid"
  shows "r_id bid \<in> set ids"
proof -
  have "bid \<in> set (bidRows ids d)" using assms by (auto simp: attributedBid_def split: list.splits if_splits)
  then show ?thesis by (auto simp: bidRows_def by_id_def)
qed

lemma newAttempt_keys [simp]:
  "a_id (newAttempt i key auctionId ids bid l) = i" "a_attemptKey (newAttempt i key auctionId ids bid l) = key"
  "a_proposalId (newAttempt i key auctionId ids bid l) = r_id bid"
  by (simp_all add: newAttempt_def Let_def)

lemma newAttempt_single: "live (newAttempt i key auctionId ids bid l) \<Longrightarrow> length ids \<le> 1"
  unfolding live_def chargeable_def newAttempt_def Let_def
  by (simp add: RETRY_RECONCILIATION_REASON_def split: if_split_asm)

lemma create_attempt_inv:
  assumes inv: "attempts_inv d" and key: "find (\<lambda>a. a_attemptKey a = key) (settlementAttempts d) = None"
    and free: "memberships ids d = []" and ids: "distinct ids" "r_id bid \<in> set ids"
    and a: "a = newAttempt (attemptSeq d) key auctionId ids bid l"
    and d1: "d1 = d\<lparr>settlementAttempts := settlementAttempts d @ [a], attemptSeq := attemptSeq d + 1,
      settlementAttemptMembers := settlementAttemptMembers d @ map (\<lambda>i. \<lparr>m_attemptId = a_id a, m_proposalId = i\<rparr>) ids\<rparr>"
  shows "attempts_inv d1 \<and> a \<in> set (settlementAttempts d1)"
proof -
  let ?n = "attemptSeq d"
  have old: "m_attemptId m \<noteq> ?n" if "m \<in> set (settlementAttemptMembers d)" for m
    using inv that by (auto simp: attempts_inv_def)
  then have none: "filter (\<lambda>m. m_attemptId m = ?n) (settlementAttemptMembers d) = []"
    by (simp add: filter_empty_conv)
  have mem: "membersOf d1 i = (if i = ?n then ids else membersOf d i)" for i
    using none by (simp add: membersOf_def d1 a filter_map comp_def)
  have ev: "evidence d1 = evidence d" by (simp add: evidence_def d1)
  have rows: "a_id x < ?n + 1 \<and> attempt_ok (evidence d) x \<and> a_proposalId x \<in> set (membersOf d1 (a_id x)) \<and>
      (live x \<longrightarrow> membersOf d1 (a_id x) = [a_proposalId x])"
    if x: "x \<in> set (settlementAttempts d1)" for x
  proof (cases "x = a")
    case True
    have "\<not> (\<exists>n \<in> evidence d. n_attemptId n = ?n)" using inv by (force simp: attempts_inv_def)
    then have "attempt_ok (evidence d) a" unfolding a by (rule newAttempt_ok)
    moreover have "ids = [r_id bid]" if "live a"
      using newAttempt_single [OF that [unfolded a]] ids by (cases ids) auto
    ultimately show ?thesis using True ids(2) by (auto simp: a mem)
  next
    case False
    then have x: "x \<in> set (settlementAttempts d)" using x by (auto simp: d1)
    then show ?thesis using inv_attempt [OF inv x] by (auto simp: mem)
  qed
  have "distinct (map a_id (settlementAttempts d1))" "distinct (map a_attemptKey (settlementAttempts d1))"
    using inv key inv_attempt(2) [OF inv] by (force simp: d1 a attempts_inv_def find_None_iff)+
  moreover have "distinct (map m_proposalId (settlementAttemptMembers d1))"
    using inv free ids(1) by (auto simp: d1 comp_def attempts_inv_def memberships_def filter_empty_conv)
  moreover have "\<forall>m \<in> set (settlementAttemptMembers d1). m_attemptId m < ?n + 1"
    using inv by (auto simp: d1 a attempts_inv_def)
  moreover have "\<forall>n \<in> evidence d. n_attemptId n < ?n + 1" using inv by (auto simp: attempts_inv_def)
  ultimately show ?thesis using rows by (simp add: attempts_inv_def ev) (simp add: d1)
qed

lemma ensureAttempt_inv:
  assumes inv: "attempts_inv d" and ids: "distinct ids" "r_id bid \<in> set ids"
    and own: "\<not> (\<exists>m \<in> set (memberships ids d).
       Some (m_attemptId m) \<noteq> map_option a_id (find (\<lambda>a. a_attemptKey a = key) (settlementAttempts d)))"
    and eq: "ensureAttempt keccak key auctionId ids bid d = (a, d1)"
  shows "attempts_inv d1 \<and> a \<in> set (settlementAttempts d1)"
proof (cases "find (\<lambda>a. a_attemptKey a = key) (settlementAttempts d)")
  case None
  then have free: "memberships ids d = []" using own by (cases "memberships ids d") auto
  let ?l = "r_penaltyTxHash bid \<noteq> None \<or> sql_hit (legacyDebit keccak bid) (debitOperations d)"
  have "a = newAttempt (attemptSeq d) key auctionId ids bid ?l"
    "d1 = d\<lparr>settlementAttempts := settlementAttempts d @ [a], attemptSeq := attemptSeq d + 1,
      settlementAttemptMembers := settlementAttemptMembers d @ map (\<lambda>i. \<lparr>m_attemptId = a_id a, m_proposalId = i\<rparr>) ids\<rparr>"
    using eq None by (auto simp: ensureAttempt_def Let_def)
  then show ?thesis by (rule create_attempt_inv [OF inv None free ids])
next
  case (Some x)
  then show ?thesis using eq inv find_SomeD [OF Some] by (simp add: ensureAttempt_def)
qed

lemma record_inv:
  assumes inv: "attempts_inv d"
  shows "\<exists>b d'. recordSettlementNotification keccak now n d = Some (b, d') \<and> attempts_inv d'"
proof (cases "attribution n")
  case None
  then have "recordSettlementNotification keccak now n d = Some (False, d)"
    by (simp add: recordSettlementNotification_def)
  then show ?thesis using inv by blast
next
  case (Some p)
  then obtain auctionId ids where att: "attribution n = Some (auctionId, ids)" by (cases p) auto
  note att' = attribution_ids [OF att]
  let ?key = "attemptKeyOf auctionId ids"
  let ?conflict = "\<exists>m \<in> set (memberships ids d).
       Some (m_attemptId m) \<noteq> map_option a_id (find (\<lambda>a. a_attemptKey a = ?key) (settlementAttempts d))"
  consider (unattributed) "attributedBid auctionId ids (bidRows ids d) = None"
    | (conflict) bid where "attributedBid auctionId ids (bidRows ids d) = Some bid" "?conflict"
    | (own) bid where "attributedBid auctionId ids (bidRows ids d) = Some bid" "\<not> ?conflict"
    by fast
  then show ?thesis
  proof cases
    case unattributed
    then have "recordSettlementNotification keccak now n d = Some (False, d)"
      using att by (simp add: recordSettlementNotification_def)
    then show ?thesis using inv by blast
  next
    case conflict
    have "\<forall>m \<in> set (memberships ids d). m_attemptId m < attemptSeq d"
      using inv by (auto simp: attempts_inv_def memberships_def)
    moreover have "recordSettlementNotification keccak now n d =
        Some (False, fold (markConflict ?key n) (memberships ids d) d)"
      using conflict att by (simp add: recordSettlementNotification_def Let_def)
    ultimately show ?thesis using conflicts_inv [OF inv] by blast
  next
    case (own bid)
    obtain a d1 where en: "ensureAttempt keccak ?key auctionId ids bid d = (a, d1)" by fastforce
    have inv1: "attempts_inv d1" and a: "a \<in> set (settlementAttempts d1)"
      using ensureAttempt_inv [OF inv _ attributedBid_id [OF own(1)] own(2) en] att' by auto
    define e where "e = evidenceRow (a_id a) ?key n"
    define d2 where "d2 = addEvidence e d1"
    obtain a' where we: "withEvidence now n (attemptOperation (a_id a) d2) a = Some a'"
      using withEvidence_total [OF inv_attempt(1) [OF inv1 a]] by blast
    have ok: "attempt_ok (insert e (evidence d1)) a'"
      using ok_withEvidence [OF inv_attempt(1) [OF inv1 a] we] by (simp add: e_def)
    define d3 where "d3 = (case attemptOperation (a_id a) d2 of None \<Rightarrow> d2
        | Some r \<Rightarrow> if a_outcome a' \<noteq> None \<and> d_status r \<noteq> Completed
            then updateDebits (\<lambda>x. d_id x = d_id r) superseded d2 else d2)"
    have t: "settlementAttempts d3 = settlementAttempts d1" "attemptSeq d3 = attemptSeq d1"
        "settlementAttemptMembers d3 = settlementAttemptMembers d1" "evidence d3 = insert e (evidence d1)"
      by (auto simp: d3_def d2_def evidence_def [of "updateDebits P f d" for P f d] evidence_def [symmetric]
          split: option.split)
    have "attempts_inv (updateAttempts (\<lambda>x. a_id x = a_id a) (\<lambda>x. a') d3)"
    proof (rule inv_replace [OF inv1 a t(1-3)])
      show "attempt_ok (evidence d3) x" if "x \<in> set (settlementAttempts d1)" "a_id x \<noteq> a_id a" for x
        using ok_other [OF inv_attempt(1) [OF inv1 that(1)] that(2)] by (simp add: t e_def)
      show "n_attemptId n' < attemptSeq d1" if "n' \<in> evidence d3" for n'
        using evidence_ids [OF inv1 inv_attempt(2) [OF inv1 a]] that by (simp add: t e_def)
      show "live a" if "live a'"
        using that withEvidence_live [OF we] inv_attempt(1) [OF inv1 a] by simp
    qed (use ok withEvidence_keeps [OF we] in \<open>simp_all add: t\<close>)
    moreover have "recordSettlementNotification keccak now n d =
        Some (True, updateAttempts (\<lambda>x. a_id x = a_id a) (\<lambda>x. a') d3)"
      using own we ok_check [OF ok]
      by (simp add: recordSettlementNotification_def att en Let_def e_def [symmetric] d2_def [symmetric])
         (simp add: d3_def d2_def e_def split: option.split)
    ultimately show ?thesis by blast
  qed
qed

section \<open>Reachable ledgers\<close>

definition ledger_tables :: "db \<Rightarrow> attempt_row list \<times> member_row list \<times> notification_row list \<times> int" where
  "ledger_tables d = (settlementAttempts d, settlementAttemptMembers d, settlementNotifications d, attemptSeq d)"

lemma next_tables: "ledger_tables (fst (snd (durable_next env now own c d))) = ledger_tables d"
  by (cases c) (auto simp: ledger_tables_def createDebitOperation_def claimDebitOperation_def persistSignedDebit_def
      recordDebitFailure_def Let_def split: prod.splits option.splits if_splits bool.splits receipt.splits)

lemma run_tables: "ledger_tables (snd (run_debit env now own c d)) = ledger_tables d"
proof (induction env now own c d rule: run_debit.induct)
  case (1 env now own c d)
  then show ?case by (subst run_debit.simps) (simp add: Let_def next_tables)
qed

lemma durableDebit_tables: "ledger_tables (snd (durableDebit env now own x d)) = ledger_tables d"
proof -
  obtain c d' where run: "run_debit env now own (AtCreate x) d = (c, d')" by fastforce
  then show ?thesis using run_tables [of env now own "AtCreate x" d] by (cases c) (simp_all add: durableDebit_def)
qed

definition ledger_init :: "db \<Rightarrow> bool" where
  "ledger_init d \<longleftrightarrow> settlementAttempts d = [] \<and> settlementAttemptMembers d = [] \<and> settlementNotifications d = []"

text \<open>
  The transactions that write the ledger, in any order: notifications, penalty executions with any
  worker and any chain, manual resumes; the rest of the service writes other tables.
\<close>

inductive ledger_step :: "(string \<Rightarrow> string) \<Rightarrow> db \<Rightarrow> db \<Rightarrow> bool" for keccak :: "string \<Rightarrow> string" where
  lg_notify: "recordSettlementNotification keccak now n d = Some (b, d') \<Longrightarrow> ledger_step keccak d d'"
| lg_execute: "executeNonSettlementPenalty now i (durableDebit env now own x) d = (res, d') \<Longrightarrow>
    ledger_step keccak d d'"
| lg_resume: "resumeDebitOperation now i d = (ok, d') \<Longrightarrow> ledger_step keccak d d'"
| lg_other: "settlementAttempts d' = settlementAttempts d \<Longrightarrow>
    settlementAttemptMembers d' = settlementAttemptMembers d \<Longrightarrow>
    settlementNotifications d' = settlementNotifications d \<Longrightarrow> attemptSeq d' = attemptSeq d \<Longrightarrow>
    ledger_step keccak d d'"

lemma attemptRow_in: "attemptRow d i = Some a \<Longrightarrow> a \<in> set (settlementAttempts d) \<and> a_id a = i"
  by (auto simp: attemptRow_def dest: find_SomeD)

lemma setAttempt_inv:
  assumes inv: "attempts_inv d" and a: "attemptRow d i = Some a"
    and f: "a_id (f a) = a_id a" "a_attemptKey (f a) = a_attemptKey a" "a_proposalId (f a) = a_proposalId a"
    and ok: "attempt_ok (evidence d) (f a)" and single: "live (f a) \<Longrightarrow> live a"
  shows "attempts_inv (setAttempt i f d)"
proof -
  have a': "a \<in> set (settlementAttempts d)" "a_id a = i" using attemptRow_in [OF a] by auto
  have "attempts_inv (updateAttempts (\<lambda>x. a_id x = a_id a) f d)"
  proof (rule inv_replace [OF inv a'(1)])
    show "n_attemptId n < attemptSeq d" if "n \<in> evidence d" for n using inv that by (simp add: attempts_inv_def)
  qed (use inv_attempt(1) [OF inv] f ok single in auto)
  then show ?thesis using a'(2) by (simp add: setAttempt_def)
qed

lemma penalize_tables [simp]:
  "settlementAttempts (penalizeMembers h ids d) = settlementAttempts d"
  "settlementAttemptMembers (penalizeMembers h ids d) = settlementAttemptMembers d"
  "settlementNotifications (penalizeMembers h ids d) = settlementNotifications d"
  "attemptSeq (penalizeMembers h ids d) = attemptSeq d"
  "debitOperations (penalizeMembers h ids d) = debitOperations d"
  by (simp_all add: penalizeMembers_def updateProposals_def Let_def)

lemma complete_tables [simp]:
  "settlementAttempts (snd (completeDebitOperation now i own d)) = settlementAttempts d"
  "settlementAttemptMembers (snd (completeDebitOperation now i own d)) = settlementAttemptMembers d"
  "settlementNotifications (snd (completeDebitOperation now i own d)) = settlementNotifications d"
  "attemptSeq (snd (completeDebitOperation now i own d)) = attemptSeq d"
  by (simp_all add: completeDebitOperation_def)

lemma execute_inv:
  assumes inv: "attempts_inv d" and ex: "executeNonSettlementPenalty now i (durableDebit env now own x) d = (res, d')"
  shows "attempts_inv d'"
proof (cases "\<exists>a. attemptRow d i = Some a \<and> a_status a = Eligible")
  case False
  then have "d' = d" using ex by (auto simp: executeNonSettlementPenalty_def split: option.splits if_splits)
  then show ?thesis using inv by simp
next
  case True
  then obtain a where a: "attemptRow d i = Some a" "a_status a = Eligible" by blast
  obtain r d1 where run: "durableDebit env now own x d = (r, d1)" by fastforce
  then have t: "settlementAttempts d1 = settlementAttempts d" "settlementAttemptMembers d1 = settlementAttemptMembers d"
      "settlementNotifications d1 = settlementNotifications d" "attemptSeq d1 = attemptSeq d"
    using durableDebit_tables [of env now own x d] by (simp_all add: ledger_tables_def)
  have inv1: "attempts_inv d1" using inv inv_cong [OF t] by simp
  have a1: "attemptRow d1 i = Some a" using a by (simp add: attemptRow_def t)
  have ok: "attempt_ok (evidence d1) a" using inv_attempt(1) [OF inv1] attemptRow_in [OF a1] by blast
  have la: "live a" "chargeable a" using a by (simp_all add: live_def chargeable_def)
  have park: "attempts_inv (setAttempt i (\<lambda>a. a\<lparr>a_status := AttemptNeedsReconciliation,
      a_reconciliationReason := Some RETRY_RECONCILIATION_REASON\<rparr>) d1)"
    by (rule setAttempt_inv [OF inv1 a1]) (use ok la in \<open>auto simp: attempt_ok_def live_def priced_def positive_def\<close>)
  have debited: "attempts_inv (setAttempt i (\<lambda>a. a\<lparr>a_status := Debited, a_penaltyTxHash := h\<rparr>) d1)" for h
    by (rule setAttempt_inv [OF inv1 a1]) (use ok in \<open>auto simp: attempt_ok_def live_def chargeable_def priced_def\<close>)
  show ?thesis
  proof (cases r)
    case (Inl e)
    then show ?thesis using ex a run inv1 by (simp add: executeNonSettlementPenalty_def)
  next
    case (Inr l)
    show ?thesis
    proof (cases l)
      case None
      then show ?thesis using ex a run Inr inv1 park
        by (auto simp: executeNonSettlementPenalty_def split: option.splits if_splits)
    next
      case (Some landed)
      let ?d2 = "setAttempt i (\<lambda>a. a\<lparr>a_status := Debited, a_penaltyTxHash := Some (lower (ld_hash landed))\<rparr>) d1"
      have "attempts_inv (snd (completeDebitOperation now j own' (penalizeMembers h ids ?d2)))" for j own' h ids
        using debited inv_cong [of "snd (completeDebitOperation now j own' (penalizeMembers h ids ?d2))" ?d2] by simp
      then show ?thesis using ex a run Inr Some inv1
        by (auto simp: executeNonSettlementPenalty_def Let_def split: if_splits)
    qed
  qed
qed

lemma resume_inv:
  assumes inv: "attempts_inv d"
  shows "attempts_inv (snd (resumeDebitOperation now i d))"
proof (cases "fst (resumeDebitOperation now i d)")
  case False
  then show ?thesis using inv
    by (auto simp: resumeDebitOperation_def Let_def split: option.splits if_splits)
next
  case True
  let ?d1 = "updateDebits (\<lambda>r. d_id r = i \<and> d_status r = NeedsReconciliation) (resumed now) d"
  let ?f = "\<lambda>a. a\<lparr>a_status := Eligible, a_reconciliationReason := None\<rparr>"
  have inv1: "attempts_inv ?d1" using inv inv_cong [of ?d1 d] by simp
  consider "snd (resumeDebitOperation now i d) = ?d1"
    | operation j a where "attemptRow d j = Some a" "resumableAttempt operation a"
        "snd (resumeDebitOperation now i d) = setAttempt j ?f ?d1"
    using True by (auto simp: resumeDebitOperation_def Let_def setAttempt_def updateAttempts_def
        split: option.splits if_splits)
  then show ?thesis
  proof cases
    case 2
    have a1: "attemptRow ?d1 j = Some a" using 2(1) by (simp add: attemptRow_def)
    have ok: "attempt_ok (evidence ?d1) a" using inv_attempt(1) [OF inv1] attemptRow_in [OF a1] by blast
    have "chargeable a" "live a" using 2(2) by (auto simp: resumableAttempt_def chargeable_def live_def)
    then have "attempts_inv (setAttempt j ?f ?d1)"
      by (intro setAttempt_inv [OF inv1 a1]) (use ok in \<open>auto simp: attempt_ok_def live_def priced_def positive_def\<close>)
    then show ?thesis using 2(3) by simp
  qed (simp add: inv1)
qed

interpretation ledger: invariant_machine ledger_init "ledger_step keccak" attempts_inv for keccak
proof
  fix d assume "ledger_init d"
  then show "attempts_inv d" by (simp add: ledger_init_def attempts_inv_def evidence_def)
next
  fix d d' assume inv: "attempts_inv d" and "ledger_step keccak d d'"
  from this(2) show "attempts_inv d'"
  proof cases
    case (lg_notify now n b)
    then show ?thesis using record_inv [OF inv, of keccak now n] by auto
  next
    case lg_execute
    then show ?thesis using execute_inv [OF inv] by blast
  next
    case (lg_resume now i ok)
    then show ?thesis using resume_inv [OF inv, of now i] by simp
  next
    case lg_other
    then show ?thesis using inv inv_cong by blast
  qed
qed

lemma those_map_Some: "(\<And>x. x \<in> set xs \<Longrightarrow> \<exists>y. f x = Some y) \<Longrightarrow> \<exists>ys. those (map f xs) = Some ys"
  by (induction xs) force+

text \<open>
  C4. A penalty is charged only on complete evidence: in every reachable ledger an eligible attempt has
  a recorded start and a recorded abandonment, no recorded settlement outcome with a transaction, one
  member proposal only, and the amount is the positive tenth of its penalty cap snapshot.
\<close>

theorem charge_needs_evidence:
  assumes "reachable ledger_init (ledger_step keccak) d" "attemptRow d i = Some a" "a_status a = Eligible"
  shows "(\<exists>n \<in> set (settlementNotifications d). n_attemptId n = i \<and> n_kind n = ''settlementStarted'') \<and>
    (\<exists>n \<in> set (settlementNotifications d). n_attemptId n = i \<and> n_kind n \<in> set abandonmentKinds) \<and>
    (\<forall>n \<in> set (settlementNotifications d). n_attemptId n = i \<and> (n_kind n = ''success'' \<or> n_kind n = ''revert'')
       \<longrightarrow> n_transactionHash n = []) \<and>
    membersOf d i = [a_proposalId a] \<and>
    (\<exists>cap. penaltyOf a = Some \<lparr>pp_id = i, pp_proposalId = a_proposalId a, pp_subSolver = a_subSolver a,
       pp_orderUid = a_orderUid a, pp_penaltyCap = cap, pp_amount = nonSettlementDebit cap\<rparr> \<and>
       0 < nonSettlementDebit cap)"
proof -
  have inv: "attempts_inv d" using assms(1) by (rule ledger.reachable_inv)
  have a: "a \<in> set (settlementAttempts d)" "a_id a = i" using attemptRow_in [OF assms(2)] by auto
  have ch: "chargeable a" "live a" using assms(3) by (simp_all add: live_def chargeable_def)
  have ok: "attempt_ok (evidence d) a" using inv_attempt(1) [OF inv a(1)] .
  obtain k where k: "k \<in> set abandonmentKinds" "evidenced (evidence d) i k"
    using ok ch a(2) by (auto simp: attempt_ok_def)
  have st: "evidenced (evidence d) i ''settlementStarted''" "\<not> landedOutcome (evidence d) i"
    using ok ch a(2) by (auto simp: attempt_ok_def)
  obtain am v where v: "a_amount a = Some am" "BigInt am = Some v" "0 < v"
    using ok ch by (auto simp: attempt_ok_def positive_def)
  then obtain cap c where c: "a_penaltyCap a = Some cap" "BigInt cap = Some c" "v = nonSettlementDebit c"
    using ok by (auto simp: attempt_ok_def priced_def nonSettlementDebit_def)
  have p: "penaltyOf a = Some \<lparr>pp_id = i, pp_proposalId = a_proposalId a, pp_subSolver = a_subSolver a,
       pp_orderUid = a_orderUid a, pp_penaltyCap = c, pp_amount = nonSettlementDebit c\<rparr>"
    using v c a(2) by (simp add: penaltyOf_def)
  show ?thesis using k st p v c inv_attempt(4) [OF inv a(1) ch(2)] a(2)
    unfolding evidenced_def landedOutcome_def evidence_def by auto
qed

text \<open>
  C32. Recording a notification never aborts and never breaks the tables: from a reachable ledger the
  transaction commits, every attempt satisfies the eligibility constraint afterwards, attempt keys and
  member proposals stay unique, and an attempt already charged is not made chargeable again.
\<close>

theorem notification_never_aborts:
  assumes reach: "reachable ledger_init (ledger_step keccak) d"
  shows "\<exists>attributed d'. recordSettlementNotification keccak now n d = Some (attributed, d') \<and>
    (\<forall>a \<in> set (settlementAttempts d'). eligibility_check a) \<and>
    distinct (map a_attemptKey (settlementAttempts d')) \<and>
    distinct (map m_proposalId (settlementAttemptMembers d')) \<and>
    (\<exists>ps. eligibleNonSettlementPenalties d' = Some ps)"
proof -
  have "attempts_inv d" using reach by (rule ledger.reachable_inv)
  from record_inv [OF this, of keccak now n] obtain b d' where
    r: "recordSettlementNotification keccak now n d = Some (b, d')" and inv: "attempts_inv d'" by blast
  have "\<exists>p. penaltyOf a = Some p" if a: "a \<in> set (settlementAttempts d')" "a_status a = Eligible" for a
  proof -
    have "attempt_ok (evidence d') a" "chargeable a"
      using inv_attempt(1) [OF inv a(1)] a(2) by (simp_all add: chargeable_def)
    then show ?thesis by (auto simp: attempt_ok_def positive_def priced_def penaltyOf_def)
  qed
  then have "\<exists>ps. eligibleNonSettlementPenalties d' = Some ps"
    unfolding eligibleNonSettlementPenalties_def by (intro those_map_Some) auto
  then show ?thesis using r inv inv_attempt(1) [OF inv] ok_check by (auto simp: attempts_inv_def)
qed

text \<open>
  C30. A charge is executed once: when the execution reports a landed debit the attempt was eligible,
  it is charged afterwards with the debit's hash, its operation is completed, and executing the same
  attempt again with any worker does nothing.
\<close>

theorem penalty_executed_once:
  assumes ex: "executeNonSettlementPenalty now i debit d = (Inr (Some landed), d')"
    and keeps: "settlementAttempts (snd (debit d)) = settlementAttempts d"
  shows "\<exists>a a'. attemptRow d i = Some a \<and> a_status a = Eligible \<and> attemptRow d' i = Some a' \<and>
    a' = a\<lparr>a_status := Debited, a_penaltyTxHash := Some (lower (ld_hash landed))\<rparr> \<and>
    (\<exists>r \<in> set (debitOperations d'). d_id r = ld_operationId landed \<and> d_status r = Completed \<and> d_leaseOwner r = None) \<and>
    (\<forall>now' debit'. executeNonSettlementPenalty now' i debit' d' = (Inr None, d'))"
proof -
  obtain a where a: "attemptRow d i = Some a" "a_status a = Eligible"
    using ex by (auto simp: executeNonSettlementPenalty_def split: option.splits if_splits)
  obtain r d1 where run: "debit d = (r, d1)" by fastforce
  have r: "r = Inr (Some landed)"
    using ex a run by (auto simp: executeNonSettlementPenalty_def Let_def split: sum.splits option.splits if_splits)
  let ?f = "\<lambda>a. a\<lparr>a_status := Debited, a_penaltyTxHash := Some (lower (ld_hash landed))\<rparr>"
  obtain ids where dn: "sql_hit (owns (ld_operationId landed) (ld_owner landed)) (debitOperations d1)"
    "d' = snd (completeDebitOperation now (ld_operationId landed) (ld_owner landed)
       (penalizeMembers (ld_hash landed) ids (setAttempt i ?f d1)))"
    using ex a run r by (auto simp: executeNonSettlementPenalty_def Let_def completeDebitOperation_def
        setAttempt_def updateAttempts_def split: if_splits)
  have row: "attemptRow d' i = Some (?f a)"
    using a(1) keeps run attemptRow_in [OF a(1)]
    by (simp add: attemptRow_def dn(2) setAttempt_def updateAttempts_def find_sql_update)
  from dn(1) obtain x where "x \<in> set (debitOperations d1)" "owns (ld_operationId landed) (ld_owner landed) x"
    by (auto simp: sql_hit_def)
  then have x: "x\<lparr>d_status := Completed, d_leaseOwner := None, d_leaseExpiresAt := None, d_nextRetryAt := None,
      d_updatedAt := now\<rparr> \<in> set (debitOperations d')" "d_id x = ld_operationId landed"
    by (auto simp: dn(2) completeDebitOperation_def updateDebits_def setAttempt_def updateAttempts_def
        set_sql_update owns_def intro!: bexI [of _ x])
  from x(1) have "\<exists>r \<in> set (debitOperations d'). d_id r = ld_operationId landed \<and> d_status r = Completed \<and> d_leaseOwner r = None"
    by (rule rev_bexI) (simp add: x(2))
  moreover have "executeNonSettlementPenalty now' i debit' d' = (Inr None, d')" for now' debit'
    using row by (simp add: executeNonSettlementPenalty_def)
  ultimately show ?thesis using a row by blast
qed

text \<open>The evidence for one attempt, in the order it arrives, before any debit exists for it.\<close>

fun replay :: "(int \<times> notification) list \<Rightarrow> attempt_row \<Rightarrow> attempt_row option" where
  "replay [] a = Some a"
| "replay ((now, n) # ns) a = Option.bind (withEvidence now n None a) (replay ns)"

definition landing :: "notification \<Rightarrow> bool" where
  "landing n \<longleftrightarrow> (nt_kind n = ''success'' \<or> nt_kind n = ''revert'') \<and> \<not> falsy (nt_transaction n)"

definition settled_status :: "bool \<Rightarrow> bool \<Rightarrow> bool \<Rightarrow> attempt_status" where
  "settled_status started abandoned landed =
     (if landed then AttemptCancelled else if started \<and> abandoned then Eligible else AwaitingEvidence)"

definition canonical :: "attempt_row \<Rightarrow> bool" where
  "canonical a \<longleftrightarrow> positive a \<and> falsy (a_penaltyTxHash a) \<and>
     a_status a = settled_status (a_startedAt a \<noteq> None) (a_abandonedAt a \<noteq> None) (a_outcome a \<noteq> None)"

lemma observed_some:
  "a_startedAt (observed now n a) \<noteq> None \<longleftrightarrow> a_startedAt a \<noteq> None \<or> nt_kind n = ''settlementStarted''"
  "a_abandonedAt (observed now n a) \<noteq> None \<longleftrightarrow> a_abandonedAt a \<noteq> None \<or> nt_kind n \<in> set abandonmentKinds"
  "a_outcome (observed now n a) \<noteq> None \<longleftrightarrow> a_outcome a \<noteq> None \<or> landing n"
  by (auto simp: observed_fields landing_def split: option.splits)

lemma canonical_step:
  assumes "canonical a"
  shows "\<exists>a'. withEvidence now n None a = Some a' \<and> canonical a' \<and>
    (a_startedAt a' \<noteq> None \<longleftrightarrow> a_startedAt a \<noteq> None \<or> nt_kind n = ''settlementStarted'') \<and>
    (a_abandonedAt a' \<noteq> None \<longleftrightarrow> a_abandonedAt a \<noteq> None \<or> nt_kind n \<in> set abandonmentKinds) \<and>
    (a_outcome a' \<noteq> None \<longleftrightarrow> a_outcome a \<noteq> None \<or> landing n)"
proof -
  let ?o = "observed now n a"
  obtain am v where v: "a_amount a = Some am" "BigInt am = Some v" "0 < v"
    using assms by (auto simp: canonical_def positive_def)
  have f: "falsy (a_penaltyTxHash a)" "a_status a = settled_status (a_startedAt a \<noteq> None) (a_abandonedAt a \<noteq> None) (a_outcome a \<noteq> None)"
    using assms by (simp_all add: canonical_def)
  then have nr: "a_status a \<noteq> AttemptNeedsReconciliation" by (simp add: settled_status_def)
  define st where "st = settled_status (a_startedAt ?o \<noteq> None) (a_abandonedAt ?o \<noteq> None) (a_outcome ?o \<noteq> None)"
  have we: "withEvidence now n None a = Some (?o\<lparr>a_status := st\<rparr>)"
  proof (cases "a_outcome ?o = None")
    case False
    then show ?thesis using f nr by (simp add: withEvidence_def Let_def hasTransaction_def st_def settled_status_def)
  next
    case True
    then have none: "a_outcome a = None" using observed_some(3) [of now n a] by blast
    show ?thesis
    proof (cases "a_status a = AwaitingEvidence \<and> a_startedAt ?o \<noteq> None \<and> a_abandonedAt ?o \<noteq> None")
      case new: True
      then show ?thesis using True v by (simp add: withEvidence_def Let_def st_def settled_status_def)
    next
      case False
      have "st = a_status a"
        using False f(2) none True observed_some(1,2) [of now n a] unfolding st_def settled_status_def by (auto split: if_splits)
      then have "?o\<lparr>a_status := st\<rparr> = ?o" by (simp add: observed_def)
      then show ?thesis using True False by (auto simp: withEvidence_def Let_def)
    qed
  qed
  have "positive (?o\<lparr>a_status := st\<rparr>)" using v by (auto simp: positive_def)
  then have "canonical (?o\<lparr>a_status := st\<rparr>)" using f(1) by (simp add: canonical_def st_def)
  then show ?thesis using we observed_some [of now n a] by auto
qed


section \<open>A concrete ledger\<close>

definition exampleLedger :: db where
  "exampleLedger = emptyDb\<lparr>proposalsLog := [submittedRow 5 exampleCandidate ''9'' examplePrices (Some 1000)]\<rparr>"

definition exampleNotice :: "string \<Rightarrow> notification" where
  "exampleNotice k = \<lparr>nt_auctionId = Some ''1'', nt_solutionIds = [7], nt_kind = k, nt_transaction = None\<rparr>"

definition exampleRun :: "(bool \<times> db) option" where
  "exampleRun = Option.bind (recordSettlementNotification id 10 (exampleNotice ''settlementStarted'') exampleLedger)
     (\<lambda>(b, d). recordSettlementNotification id 20 (exampleNotice ''expired'') d)"

lemma example_ledger:
  obtains d where "reachable ledger_init (ledger_step id) d" "exampleRun = Some (True, d)"
proof -
  have "map_option fst exampleRun = Some True" by code_simp
  then obtain d where d: "exampleRun = Some (True, d)" by auto
  then obtain b d1 where d1: "recordSettlementNotification id 10 (exampleNotice ''settlementStarted'') exampleLedger = Some (b, d1)"
    "recordSettlementNotification id 20 (exampleNotice ''expired'') d1 = Some (True, d)"
    by (auto simp: exampleRun_def bind_eq_Some_conv)
  have "reachable ledger_init (ledger_step id) exampleLedger"
    by (rule reach_init) (simp add: ledger_init_def exampleLedger_def emptyDb_def)
  then have "reachable ledger_init (ledger_step id) d1" by (rule reach_step) (rule lg_notify [OF d1(1)])
  then have "reachable ledger_init (ledger_step id) d" by (rule reach_step) (rule lg_notify [OF d1(2)])
  then show thesis using d that by blast
qed

lemma example_attempt:
  assumes "exampleRun = Some (True, d)"
  shows "\<exists>a. attemptRow d 1 = Some a \<and> a_status a = Eligible \<and> a_amount a = Some ''100''"
proof -
  have "map_option (\<lambda>(b, d). map_option (\<lambda>a. (a_status a, a_amount a)) (attemptRow d 1)) exampleRun =
      Some (Some (Eligible, Some ''100''))" by code_simp
  then show ?thesis unfolding assms by auto
qed

theorem charge_needs_evidence_witness:
  "\<exists>d a. attemptRow d 1 = Some a \<and> membersOf d 1 = [a_proposalId a] \<and>
     (\<exists>n \<in> set (settlementNotifications d). n_attemptId n = 1 \<and> n_kind n = ''settlementStarted'')"
proof -
  obtain d where d: "reachable ledger_init (ledger_step id) d" "exampleRun = Some (True, d)" by (rule example_ledger)
  obtain a where "attemptRow d 1 = Some a" "a_status a = Eligible" using example_attempt [OF d(2)] by blast
  with charge_needs_evidence [OF d(1) this] show ?thesis by blast
qed

theorem notification_never_aborts_witness:
  "\<exists>d d'. recordSettlementNotification id 30 (exampleNotice ''fail'') d = Some (True, d') \<and>
     (\<forall>a \<in> set (settlementAttempts d'). eligibility_check a)"
proof -
  obtain d where d: "reachable ledger_init (ledger_step id) d" "exampleRun = Some (True, d)" by (rule example_ledger)
  from notification_never_aborts [OF d(1), of 30 "exampleNotice ''fail''"] obtain b d' where
    r: "recordSettlementNotification id 30 (exampleNotice ''fail'') d = Some (b, d')"
    "\<forall>a \<in> set (settlementAttempts d'). eligibility_check a" by blast
  have "map_option fst (Option.bind exampleRun (\<lambda>(b, d). recordSettlementNotification id 30 (exampleNotice ''fail'') d))
      = Some True" by code_simp
  then have "b = True" unfolding d(2) using r(1) by simp
  then show ?thesis using r by blast
qed

definition exampleCharge :: debit_input where
  "exampleCharge = \<lparr>di_sourceKind = ''non-settlement'', di_sourceId = attemptSourceId 1,
     di_subSolver = ''0x5a'', di_amount = 100, di_reason = ''0xc3''\<rparr>"

theorem penalty_executed_once_witness:
  "\<exists>d a'. exampleRun = Some (True, d) \<and>
     attemptRow (snd (executeNonSettlementPenalty 30 1 (durableDebit exampleEnv 30 ''w'' exampleCharge) d)) 1 = Some a' \<and>
     a_status a' = Debited \<and> a_penaltyTxHash a' = Some ''0xbb''"
proof -
  obtain d where d: "exampleRun = Some (True, d)" by (rule example_ledger)
  let ?go = "executeNonSettlementPenalty 30 1 (durableDebit exampleEnv 30 ''w'' exampleCharge)"
  have "map_option (\<lambda>(b, d). fst (?go d)) exampleRun =
      Some (Inr (Some \<lparr>ld_hash = ''0xbb'', ld_operationId = 1, ld_owner = ''w''\<rparr>))" by code_simp
  then have "fst (?go d) = Inr (Some \<lparr>ld_hash = ''0xbb'', ld_operationId = 1, ld_owner = ''w''\<rparr>)"
    unfolding d by simp
  then obtain d' where go: "?go d = (Inr (Some \<lparr>ld_hash = ''0xbb'', ld_operationId = 1, ld_owner = ''w''\<rparr>), d')"
    by (metis prod.collapse)
  have "settlementAttempts (snd (durableDebit exampleEnv 30 ''w'' exampleCharge d)) = settlementAttempts d"
    using durableDebit_tables [of exampleEnv 30 "''w''" exampleCharge d] by (simp add: ledger_tables_def)
  from penalty_executed_once [OF go this] obtain a' where
    "attemptRow d' 1 = Some a'" "a_status a' = Debited" "a_penaltyTxHash a' = Some (lower ''0xbb'')" by auto
  moreover have "lower ''0xbb'' = ''0xbb''" by code_simp
  ultimately show ?thesis using d go by auto
qed


end
