(* ===== verification/Penalty_Worker.thy ===== *)
theory Penalty_Worker
  imports Attempts
begin

text \<open>
  The penalty worker (\<open>apps/byos/src/infra/jobs/penalty.ts\<close>) and the buffer ledger it charges from
  (\<open>buffer_entries\<close> in \<open>infra/storage.ts\<close>). A tick charges reverted settlements, then eligible
  abandonments, then the sub-solvers whose uncleared buffer balance is over the threshold.

  The escrow operator and the receipt readers are parameters of the tick. A statement's only failure
  is a text column that does not parse; \<open>for_each\<close> is the \<open>for ... of\<close> loop that a thrown exception
  leaves. One tick sees one time.
\<close>

section \<open>The buffer ledger\<close>

definition bufferEntryExistsForProposal :: "db \<Rightarrow> int \<Rightarrow> bool" where
  "bufferEntryExistsForProposal d i \<longleftrightarrow> (\<exists>b \<in> set (bufferEntries d). b_proposalId b = i)"

record buffer_input =
  bi_subSolver :: string
  bi_proposalId :: int
  bi_orderUid :: string
  bi_buyToken :: string
  bi_delta :: string
  bi_gap :: string
  bi_nativeTokenAmount :: string

definition newBufferRow :: "int \<Rightarrow> int \<Rightarrow> buffer_input \<Rightarrow> buffer_row" where
  "newBufferRow now i e =
     \<lparr>b_id = i, b_subSolver = lower (bi_subSolver e), b_proposalId = bi_proposalId e,
      b_orderUid = lower (bi_orderUid e), b_delta = bi_delta e, b_gap = bi_gap e,
      b_buyToken = lower (bi_buyToken e), b_nativeTokenAmount = bi_nativeTokenAmount e,
      b_cleared = False, b_clearTxHash = None, b_createdAt = now\<rparr>"

definition insertBufferEntry :: "int \<Rightarrow> buffer_input \<Rightarrow> db \<Rightarrow> int \<times> db" where
  "insertBufferEntry now e d =
     (bufferSeq d, d\<lparr>bufferEntries := bufferEntries d @ [newBufferRow now (bufferSeq d) e],
        bufferSeq := bufferSeq d + 1\<rparr>)"

definition unclearedBufferSubSolvers :: "db \<Rightarrow> string list" where
  "unclearedBufferSubSolvers d = remdups (map b_subSolver (filter (\<lambda>b. \<not> b_cleared b) (bufferEntries d)))"

text \<open>\<open>None\<close> is an amount the database cannot cast.\<close>

definition outstandingBufferBalance :: "string \<Rightarrow> db \<Rightarrow> int option" where
  "outstandingBufferBalance subSolver d = sumBigInts (map b_nativeTokenAmount (unclearedRows subSolver d))"

definition unclearedBufferEntries :: "string \<Rightarrow> db \<Rightarrow> buffer_row list" where
  "unclearedBufferEntries subSolver d = sort_key b_createdAt (unclearedRows subSolver d)"

definition updateBuffers :: "(buffer_row \<Rightarrow> bool) \<Rightarrow> (buffer_row \<Rightarrow> buffer_row) \<Rightarrow> db \<Rightarrow> nat \<times> db" where
  "updateBuffers P f d =
     (length (filter P (bufferEntries d)), d\<lparr>bufferEntries := sql_update P f (bufferEntries d)\<rparr>)"

definition inFlight :: "buffer_row \<Rightarrow> buffer_row" where
  "inFlight b = b\<lparr>b_cleared := True, b_clearTxHash := None\<rparr>"

text \<open>The ids are optional; an empty list marks nothing.\<close>

definition markBufferEntriesInFlight :: "string \<Rightarrow> int list option \<Rightarrow> db \<Rightarrow> nat \<times> db" where
  "markBufferEntriesInFlight subSolver entryIds d =
     (if entryIds = Some [] then (0, d)
      else updateBuffers (\<lambda>b. b_subSolver b = lower subSolver \<and> \<not> b_cleared b \<and>
        (case entryIds of None \<Rightarrow> True | Some ids \<Rightarrow> b_id b \<in> set ids)) inFlight d)"

definition finalizeBufferEntries :: "string \<Rightarrow> int list \<Rightarrow> string \<Rightarrow> db \<Rightarrow> nat \<times> db" where
  "finalizeBufferEntries subSolver entryIds clearTxHash d =
     (if entryIds = [] then (0, d)
      else updateBuffers (\<lambda>b. b_subSolver b = lower subSolver \<and> b_cleared b \<and> b_id b \<in> set entryIds \<and>
        b_clearTxHash b = None) (\<lambda>b. b\<lparr>b_clearTxHash := Some (lower clearTxHash)\<rparr>) d)"

definition revertInFlightBufferEntries :: "string \<Rightarrow> db \<Rightarrow> nat \<times> db" where
  "revertInFlightBufferEntries subSolver d =
     updateBuffers (\<lambda>b. b_subSolver b = lower subSolver \<and> b_cleared b \<and> b_clearTxHash b = None)
       (\<lambda>b. b\<lparr>b_cleared := False\<rparr>) d"

definition clearBufferEntries :: "string \<Rightarrow> string \<Rightarrow> db \<Rightarrow> nat \<times> db" where
  "clearBufferEntries subSolver clearTxHash d =
     updateBuffers (\<lambda>b. b_subSolver b = lower subSolver \<and> \<not> b_cleared b)
       (\<lambda>b. b\<lparr>b_cleared := True, b_clearTxHash := Some (lower clearTxHash)\<rparr>) d"

section \<open>The worker\<close>

record penalty_env =
  pe_now :: int
  pe_workerId :: string
  pe_minCollateral :: int
  pe_chain :: "string \<Rightarrow> string \<Rightarrow> chain_env"
  pe_settlementCost :: "string \<Rightarrow> int option"
  pe_executedDelta :: "string \<Rightarrow> string \<Rightarrow> int option"
  pe_keccak :: "string \<Rightarrow> string"

record worker_state =
  ws_db :: db
  ws_attempts :: "(int, int) jsmap"
  ws_events :: "audit_event list"

definition MAX_DEBIT_ATTEMPTS :: int where
  "MAX_DEBIT_ATTEMPTS = 10"

definition nonSettlementReason :: "(string \<Rightarrow> string) \<Rightarrow> string \<Rightarrow> string" where
  "nonSettlementReason keccak orderUid = keccak orderUid"

definition attemptsOf :: "worker_state \<Rightarrow> int \<Rightarrow> int" where
  "attemptsOf s k = (case jm_get (ws_attempts s) k of None \<Rightarrow> 0 | Some n \<Rightarrow> n)"

definition noteDebitFailure :: "int \<Rightarrow> worker_state \<Rightarrow> worker_state" where
  "noteDebitFailure k s = s\<lparr>ws_attempts := jm_set k (attemptsOf s k + 1) (ws_attempts s)\<rparr>"

definition forgetFailures :: "int \<Rightarrow> worker_state \<Rightarrow> worker_state" where
  "forgetFailures k s = s\<lparr>ws_attempts := jm_delete k (ws_attempts s)\<rparr>"

definition emit :: "audit_event \<Rightarrow> worker_state \<Rightarrow> worker_state" where
  "emit e s = s\<lparr>ws_events := ws_events s @ [e]\<rparr>"

definition withDb :: "db \<Rightarrow> worker_state \<Rightarrow> worker_state" where
  "withDb d s = s\<lparr>ws_db := d\<rparr>"

definition charge :: "penalty_env \<Rightarrow> debit_input \<Rightarrow> db \<Rightarrow> (unit + landed_debit option) \<times> db" where
  "charge env x = durableDebit (pe_chain env (di_sourceKind x) (di_sourceId x)) (pe_now env) (pe_workerId env) x"

definition completeLanded :: "penalty_env \<Rightarrow> landed_debit \<Rightarrow> db \<Rightarrow> db" where
  "completeLanded env landed d =
     snd (completeDebitOperation (pe_now env) (ld_operationId landed) (ld_owner landed) d)"

subsection \<open>Reverted settlements\<close>

definition revertCharge :: "proposal \<Rightarrow> string \<Rightarrow> int \<Rightarrow> debit_input" where
  "revertCharge p settlementTx amount =
     \<lparr>di_sourceKind = ''revert'', di_sourceId = ''proposal:'' @ bigint_str (p_id p),
      di_subSolver = p_subSolver p, di_amount = amount, di_reason = settlementTx\<rparr>"

definition revertStep :: "penalty_env \<Rightarrow> proposal \<Rightarrow> worker_state \<Rightarrow> bool \<times> worker_state" where
  "revertStep env p s =
     (if MAX_DEBIT_ATTEMPTS \<le> attemptsOf s (p_id p) then (True, s)
      else if falsy (p_settlementTxHash p) then (True, s)
      else case pe_settlementCost env (the (p_settlementTxHash p)) of
        None \<Rightarrow> (True, noteDebitFailure (p_id p) s)
      | Some cost \<Rightarrow>
          let cL = (case p_settlementPenaltyCap p of None \<Rightarrow> pe_minCollateral env | Some c \<Rightarrow> c);
              amount = revertDebit cost cL in
          (case charge env (revertCharge p (the (p_settlementTxHash p)) amount) (ws_db s) of
             (Inl _, d1) \<Rightarrow> (False, withDb d1 s)
           | (Inr None, d1) \<Rightarrow> (True, withDb d1 s)
           | (Inr (Some landed), d1) \<Rightarrow>
               (case recordPenalty (pe_now env) p amount (ld_hash landed) d1 of
                  (Inr e, d2) \<Rightarrow> (True, emit e (forgetFailures (p_id p) (withDb (completeLanded env landed d2) s)))
                | (Inl _, d2) \<Rightarrow> (True, forgetFailures (p_id p) (withDb (completeLanded env landed d2) s)))))"

definition runRevertDebits :: "penalty_env \<Rightarrow> worker_state \<Rightarrow> bool \<times> worker_state" where
  "runRevertDebits env s = for_each (revertStep env) (snapshotSettleFailedFromLog (ws_db s)) s"

subsection \<open>Abandonments\<close>

definition abandonmentCharge :: "penalty_env \<Rightarrow> pending_penalty \<Rightarrow> debit_input" where
  "abandonmentCharge env pp =
     \<lparr>di_sourceKind = ''non-settlement'', di_sourceId = attemptSourceId (pp_id pp),
      di_subSolver = pp_subSolver pp, di_amount = pp_amount pp,
      di_reason = nonSettlementReason (pe_keccak env) (pp_orderUid pp)\<rparr>"

definition nonSettlementStep :: "penalty_env \<Rightarrow> pending_penalty \<Rightarrow> worker_state \<Rightarrow> bool \<times> worker_state" where
  "nonSettlementStep env pp s =
     (case executeNonSettlementPenalty (pe_now env) (pp_id pp) (charge env (abandonmentCharge env pp)) (ws_db s) of
        (Inl _, d1) \<Rightarrow> (True, withDb d1 s)
      | (Inr None, d1) \<Rightarrow> (True, withDb d1 s)
      | (Inr (Some landed), d1) \<Rightarrow>
          (True, emit (pe_now env, NonSettlementDebited (pp_proposalId pp) (pp_subSolver pp) (pp_orderUid pp)
             (pp_amount pp) (ld_hash landed)) (withDb d1 s)))"

definition runNonSettlementDebits :: "penalty_env \<Rightarrow> worker_state \<Rightarrow> bool \<times> worker_state" where
  "runNonSettlementDebits env s =
     (case eligibleNonSettlementPenalties (ws_db s) of
        None \<Rightarrow> (True, s)
      | Some pending \<Rightarrow> for_each (nonSettlementStep env) pending s)"

subsection \<open>Buffer debits\<close>

text \<open>\<open>/^subsolver:(0x[0-9a-f]{40}):entries:([1-9][0-9]*(?:,[1-9][0-9]*)*)$/\<close>\<close>

fun split_on :: "char \<Rightarrow> string \<Rightarrow> string list" where
  "split_on c [] = [[]]"
| "split_on c (x # xs) = (if x = c then [] # split_on c xs
     else (case split_on c xs of [] \<Rightarrow> [[x]] | p # ps \<Rightarrow> (x # p) # ps))"

definition positiveDecimal :: "string \<Rightarrow> bool" where
  "positiveDecimal s \<longleftrightarrow> s \<noteq> [] \<and> list_all is_digit s \<and> hd s \<noteq> CHR ''0''"

definition bufferBatchFromSourceId :: "string \<Rightarrow> (string \<times> int list) option" where
  "bufferBatchFromSourceId s =
     (let subSolver = take 42 (drop 10 s);
          encoded = drop 61 s;
          parts = split_on CHR '','' encoded;
          entryIds = map (\<lambda>t. Number (int (dec_val t))) parts in
      if take 10 s = ''subsolver:'' \<and> addressString subSolver \<and> lower subSolver = subSolver \<and>
         take 9 (drop 52 s) = '':entries:'' \<and> list_all positiveDecimal parts \<and> list_all isSafeInteger entryIds
      then Some (subSolver, entryIds) else None)"

definition bufferSourceId :: "string \<Rightarrow> int list \<Rightarrow> string" where
  "bufferSourceId subSolver entryIds =
     ''subsolver:'' @ lower subSolver @ '':entries:'' @ join '','' (map bigint_str entryIds)"

definition bufferEntryOf :: "proposal \<Rightarrow> int \<Rightarrow> int \<Rightarrow> buffer_input" where
  "bufferEntryOf p delta refPrice =
     (let gap = p_quoteBuyAmount p - delta;
          nativeAmount = bufferDebit (if gap < 0 then - gap else gap) refPrice in
      \<lparr>bi_subSolver = p_subSolver p, bi_proposalId = p_id p, bi_orderUid = p_orderUid p,
       bi_buyToken = p_buyToken p, bi_delta = bigint_str delta, bi_gap = bigint_str gap,
       bi_nativeTokenAmount = bigint_str (if gap < 0 then - nativeAmount else nativeAmount)\<rparr>)"

text \<open>The ledger entry of one settled proposal; the second state component is \<open>affectedSubSolvers\<close>.\<close>

definition recordStep :: "penalty_env \<Rightarrow> proposal \<Rightarrow> worker_state \<times> string list \<Rightarrow> bool \<times> worker_state \<times> string list" where
  "recordStep env p = (\<lambda>(s, affected).
     if MAX_DEBIT_ATTEMPTS \<le> attemptsOf s (p_id p) then (True, s, affected)
     else if bufferEntryExistsForProposal (ws_db s) (p_id p) then (True, s, affected)
     else if falsy (p_settlementTxHash p) then (True, s, affected)
     else case pe_executedDelta env (the (p_settlementTxHash p)) (p_orderUidHash p) of
       None \<Rightarrow> (True, noteDebitFailure (p_id p) s, affected)
     | Some delta \<Rightarrow>
         if falsy (p_buyTokenRefPrice p) \<or> p_buyTokenRefPrice p = Some ''0''
         then (True, forgetFailures (p_id p) s, affected)
         else (case BigInt (the (p_buyTokenRefPrice p)) of
             None \<Rightarrow> (False, s, affected)
           | Some refPrice \<Rightarrow>
               (True, forgetFailures (p_id p)
                  (withDb (snd (insertBufferEntry (pe_now env) (bufferEntryOf p delta refPrice) (ws_db s))) s),
                js_add (p_subSolver p) affected)))"

definition recoverStep :: "penalty_env \<Rightarrow> debit_operation \<Rightarrow> worker_state \<Rightarrow> bool \<times> worker_state" where
  "recoverStep env op s =
     (case bufferBatchFromSourceId (op_sourceId op) of
        None \<Rightarrow> (True, s)
      | Some (subSolver, entryIds) \<Rightarrow>
          let d1 = snd (markBufferEntriesInFlight subSolver (Some entryIds) (ws_db s));
              x = \<lparr>di_sourceKind = op_sourceKind op, di_sourceId = op_sourceId op,
                   di_subSolver = op_subSolver op, di_amount = op_amount op, di_reason = op_reason op\<rparr> in
          (case charge env x d1 of
             (Inl _, d2) \<Rightarrow> (False, withDb d2 s)
           | (Inr None, d2) \<Rightarrow> (True, withDb d2 s)
           | (Inr (Some landed), d2) \<Rightarrow>
               (True, withDb (completeLanded env landed
                  (snd (finalizeBufferEntries subSolver entryIds (ld_hash landed) d2))) s)))"

definition bufferCharge :: "penalty_env \<Rightarrow> string \<Rightarrow> int list \<Rightarrow> int \<Rightarrow> debit_input" where
  "bufferCharge env subSolver entryIds balance =
     \<lparr>di_sourceKind = ''buffer'', di_sourceId = bufferSourceId subSolver entryIds,
      di_subSolver = subSolver, di_amount = balance,
      di_reason = pe_keccak env (''0x'' @ drop 2 subSolver @ replicate 24 CHR ''0'')\<rparr>"

definition slashStep :: "penalty_env \<Rightarrow> string \<Rightarrow> worker_state \<Rightarrow> bool \<times> worker_state" where
  "slashStep env subSolver s =
     (case outstandingBufferBalance subSolver (ws_db s) of
        None \<Rightarrow> (True, s)
      | Some balance \<Rightarrow>
          if balance \<le> pe_minCollateral env sdiv 5 then (True, s)
          else
            let entryIds = map b_id (unclearedBufferEntries subSolver (ws_db s));
                x = bufferCharge env subSolver entryIds balance in
            (case createDebitOperation (pe_now env) x (ws_db s) of
               (None, d1) \<Rightarrow> (False, withDb d1 s)
             | (Some _, d1) \<Rightarrow>
                 let (entryCount, d2) = markBufferEntriesInFlight subSolver (Some entryIds) d1 in
                 (case charge env x d2 of
                    (Inl _, d3) \<Rightarrow> (False, withDb d3 s)
                  | (Inr None, d3) \<Rightarrow> (True, withDb d3 s)
                  | (Inr (Some landed), d3) \<Rightarrow>
                      (True, emit (pe_now env, BufferDebited subSolver balance (ld_hash landed) (int entryCount))
                         (withDb (completeLanded env landed
                            (snd (finalizeBufferEntries subSolver entryIds (ld_hash landed) d3))) s)))))"

definition runBufferDebits :: "penalty_env \<Rightarrow> worker_state \<Rightarrow> bool \<times> worker_state" where
  "runBufferDebits env s =
     (let pending = filter (\<lambda>p. p_minBuyAmount p < p_quoteBuyAmount p) (snapshotByStatuses [Settled] (ws_db s)) in
      case for_each (recordStep env) pending (s, []) of
        (False, s1, _) \<Rightarrow> (False, s1)
      | (True, s1, recorded) \<Rightarrow>
          let affected = fold js_add (unclearedBufferSubSolvers (ws_db s1)) recorded in
          (case openDebitOperations ''buffer'' (ws_db s1) of
             None \<Rightarrow> (False, s1)
           | Some ops \<Rightarrow>
               (case for_each (recoverStep env) ops s1 of
                  (False, s2) \<Rightarrow> (False, s2)
                | (True, s2) \<Rightarrow> for_each (slashStep env) affected s2)))"

text \<open>The worker's job: the three passes, the later ones only when the earlier did not throw.\<close>

definition penaltyTick :: "penalty_env \<Rightarrow> worker_state \<Rightarrow> bool \<times> worker_state" where
  "penaltyTick env s =
     (case runRevertDebits env s of
        (False, s1) \<Rightarrow> (False, s1)
      | (True, s1) \<Rightarrow>
          (case runNonSettlementDebits env s1 of
             (False, s2) \<Rightarrow> (False, s2)
           | (True, s2) \<Rightarrow> runBufferDebits env s2))"

section \<open>The batch key\<close>

lemma split_on_none: "CHR '','' \<notin> set s \<Longrightarrow> split_on CHR '','' s = [s]"
  by (induction s) auto

lemma split_on_append: "c \<notin> set s \<Longrightarrow> split_on c (s @ c # t) = s # split_on c t"
  by (induction s) auto

lemma split_join:
  "ss \<noteq> [] \<Longrightarrow> \<forall>s \<in> set ss. CHR '','' \<notin> set s \<Longrightarrow> split_on CHR '','' (join '','' ss) = ss"
  by (induction "'',''" ss rule: join.induct) (auto simp: split_on_none split_on_append)

lemma digits_no_comma: "list_all is_digit s \<Longrightarrow> CHR '','' \<notin> set s"
  by (auto simp: list_all_iff is_digit_def)

lemma nat_str_hd: "0 < n \<Longrightarrow> hd (nat_str n) \<noteq> CHR ''0''"
proof (induction n rule: nat_str.induct)
  case (1 n)
  show ?case
  proof (cases "n < 10")
    case True
    have "of_char (digit_char n) \<noteq> (of_char CHR ''0'' :: nat)"
      using 1(2) True by (simp add: of_char_digit_char)
    then show ?thesis using True by (subst nat_str.simps) (auto simp del: of_char_eq_iff)
  next
    case False
    then show ?thesis using 1 by (subst nat_str.simps) (simp add: hd_append)
  qed
qed

lemma positive_str:
  assumes "1 \<le> i"
  shows "positiveDecimal (bigint_str i)" "int (dec_val (bigint_str i)) = i"
  using assms nat_str_hd [of "nat i"] by (simp_all add: bigint_str_nonneg positiveDecimal_def nat_str_digits)

lemma base_val_lower: "base_val (lower_char c) = base_val c"
proof (cases "65 \<le> (of_char c :: nat) \<and> (of_char c :: nat) \<le> 90")
  case True
  then have "(of_char (lower_char c) :: nat) = of_char c + 32" by (simp add: lower_char_def)
  then show ?thesis using True by (simp add: base_val_def Let_def)
next
  case False
  then have "lower_char c = c" unfolding lower_char_def by (rule if_not_P)
  then show ?thesis by simp
qed

lemma address_lower: "addressString s \<Longrightarrow> addressString (lower s)"
proof -
  assume a: "addressString s"
  have "is_hex_digit (lower_char c)" if "is_hex_digit c" for c
    using that by (simp add: is_hex_digit_def base_val_lower)
  moreover have "map lower_char ''0x'' = ''0x''" by code_simp
  ultimately show ?thesis using a
    by (auto simp: addressString_def has_0x_def lower_def drop_map take_map list_all_iff)
qed

text \<open>
  The source key of a buffer debit names its batch: for an address and a non-empty list of row ids
  the worker that recovers the operation reads back exactly the sub-solver and the entries that the
  worker that created it charged for.
\<close>

theorem buffer_batch_round_trip:
  assumes "addressString subSolver" "entryIds \<noteq> []" "\<forall>i \<in> set entryIds. 1 \<le> i \<and> isSafeInteger i"
  shows "bufferBatchFromSourceId (bufferSourceId subSolver entryIds) = Some (lower subSolver, entryIds)"
proof -
  have len: "length (lower subSolver) = 42"
    using assms(1) by (auto simp: addressString_def has_0x_def lower_def split: list.splits)
  have low: "addressString (lower subSolver)" using assms(1) by (rule address_lower)
  let ?parts = "map bigint_str entryIds"
  have s: "bufferSourceId subSolver entryIds = ''subsolver:'' @ (lower subSolver @ ('':entries:'' @ join '','' ?parts))"
    by (simp add: bufferSourceId_def)
  have d10: "drop 10 (bufferSourceId subSolver entryIds) = lower subSolver @ ('':entries:'' @ join '','' ?parts)"
    "take 10 (bufferSourceId subSolver entryIds) = ''subsolver:''"
    unfolding s by simp_all
  have d52: "drop 52 (bufferSourceId subSolver entryIds) = '':entries:'' @ join '','' ?parts"
  proof -
    have "drop 52 (bufferSourceId subSolver entryIds) = drop 42 (drop 10 (bufferSourceId subSolver entryIds))" by simp
    then show ?thesis unfolding d10(1) using len by simp
  qed
  have d61: "drop 61 (bufferSourceId subSolver entryIds) = join '','' ?parts"
    using d52 drop_drop [of 9 52 "bufferSourceId subSolver entryIds"] by simp
  have parts: "split_on CHR '','' (join '','' ?parts) = ?parts"
    using assms(2,3) positive_str(1) by (intro split_join) (auto simp: positiveDecimal_def digits_no_comma)
  have ids: "map (\<lambda>t. Number (int (dec_val t))) ?parts = entryIds"
    using assms(3) positive_str(2) by (simp add: map_idI)
  have "list_all positiveDecimal ?parts" "list_all isSafeInteger entryIds"
    using assms(3) positive_str(1) by (auto simp: list_all_iff)
  then show ?thesis
    unfolding bufferBatchFromSourceId_def Let_def d10 d52 d61 parts ids using len low by simp
qed

theorem buffer_batch_round_trip_witness:
  "bufferBatchFromSourceId (bufferSourceId ''0x52908400098527886E0F7030069857D2E4169EE7'' [3, 12]) =
     Some (''0x52908400098527886e0f7030069857d2e4169ee7'', [3, 12])"
proof -
  have "addressString ''0x52908400098527886E0F7030069857D2E4169EE7''"
    "lower ''0x52908400098527886E0F7030069857D2E4169EE7'' = ''0x52908400098527886e0f7030069857d2e4169ee7''"
    by code_simp+
  then show ?thesis
    using buffer_batch_round_trip [of "''0x52908400098527886E0F7030069857D2E4169EE7''" "[3, 12]"]
    by (simp add: isSafeInteger_def)
qed

section \<open>The buffer ledger under the worker\<close>

text \<open>Entries are written once: what is cleared stays cleared, and a clearing hash is final.\<close>

definition entry_moves :: "buffer_row \<Rightarrow> buffer_row \<Rightarrow> bool" where
  "entry_moves b b' \<longleftrightarrow> (\<exists>c h. b' = b\<lparr>b_cleared := c, b_clearTxHash := h\<rparr>) \<and>
     (b_cleared b \<longrightarrow> b_cleared b') \<and> (b_clearTxHash b \<noteq> None \<longrightarrow> b_clearTxHash b' = b_clearTxHash b)"

definition buffers_ok :: "db \<Rightarrow> bool" where
  "buffers_ok d \<longleftrightarrow> distinct (map b_id (bufferEntries d)) \<and> distinct (map b_proposalId (bufferEntries d)) \<and>
     (\<forall>b \<in> set (bufferEntries d). b_id b < bufferSeq d \<and> (\<not> b_cleared b \<longrightarrow> b_clearTxHash b = None))"

definition buffers_grow :: "db \<Rightarrow> db \<Rightarrow> bool" where
  "buffers_grow d d' \<longleftrightarrow> (buffers_ok d \<longrightarrow> buffers_ok d' \<and>
     (\<forall>b \<in> set (bufferEntries d). \<exists>b' \<in> set (bufferEntries d'). entry_moves b b'))"

lemma entry_moves_refl [simp]: "entry_moves b b"
  unfolding entry_moves_def by (metis buffer_row.surjective buffer_row.update_convs(9,10))

lemma entry_moves_trans: "entry_moves a b \<Longrightarrow> entry_moves b c \<Longrightarrow> entry_moves a c"
  by (auto simp: entry_moves_def) (metis buffer_row.surjective buffer_row.update_convs(9,10))+

lemma buffers_grow_refl [simp]: "buffers_grow d d"
  unfolding buffers_grow_def by (meson entry_moves_refl)

lemma buffers_grow_trans: "buffers_grow d e \<Longrightarrow> buffers_grow e f \<Longrightarrow> buffers_grow d f"
  unfolding buffers_grow_def by (meson entry_moves_trans)

lemma buffers_grow_same:
  "bufferEntries d' = bufferEntries d \<Longrightarrow> bufferSeq d' = bufferSeq d \<Longrightarrow> buffers_grow d d'"
  unfolding buffers_grow_def buffers_ok_def by (metis entry_moves_refl)

lemma buffers_grow_update:
  assumes "\<And>b. b \<in> set (bufferEntries d) \<Longrightarrow> P b \<Longrightarrow> buffers_ok d \<Longrightarrow>
    entry_moves b (f b) \<and> (\<not> b_cleared (f b) \<longrightarrow> b_clearTxHash (f b) = None)"
  shows "buffers_grow d (snd (updateBuffers P f d))"
  unfolding buffers_grow_def
proof
  assume ok: "buffers_ok d"
  define g where "g b = (if P b then f b else b)" for b
  have es: "bufferEntries (snd (updateBuffers P f d)) = map g (bufferEntries d)"
    by (simp add: updateBuffers_def sql_update_def g_def)
  have g: "entry_moves b (g b)" "\<not> b_cleared (g b) \<Longrightarrow> b_clearTxHash (g b) = None"
    if "b \<in> set (bufferEntries d)" for b
    using assms [OF that _ ok] ok that by (auto simp: buffers_ok_def g_def split: if_splits)
  have keys: "b_id (g b) = b_id b" "b_proposalId (g b) = b_proposalId b" if "b \<in> set (bufferEntries d)" for b
    using g(1) [OF that] by (auto simp: entry_moves_def)
  have "map b_id (map g (bufferEntries d)) = map b_id (bufferEntries d)"
    "map b_proposalId (map g (bufferEntries d)) = map b_proposalId (bufferEntries d)"
    using keys by auto
  moreover have "b_id b < bufferSeq d \<and> (\<not> b_cleared b \<longrightarrow> b_clearTxHash b = None)"
    if "b \<in> set (map g (bufferEntries d))" for b
    using that ok g(2) keys(1) by (auto simp: buffers_ok_def)
  moreover have "bufferSeq (snd (updateBuffers P f d)) = bufferSeq d" by (simp add: updateBuffers_def)
  ultimately have "buffers_ok (snd (updateBuffers P f d))"
    using ok unfolding buffers_ok_def es by (simp del: map_map)
  moreover have "\<forall>b \<in> set (bufferEntries d). \<exists>b' \<in> set (bufferEntries (snd (updateBuffers P f d))). entry_moves b b'"
    unfolding es using g(1) by (metis image_eqI set_map)
  ultimately show "buffers_ok (snd (updateBuffers P f d)) \<and>
    (\<forall>b \<in> set (bufferEntries d). \<exists>b' \<in> set (bufferEntries (snd (updateBuffers P f d))). entry_moves b b')" by blast
qed

lemma moves_mark: "\<not> b_cleared b \<Longrightarrow> b_clearTxHash b = None \<Longrightarrow> entry_moves b (inFlight b)"
  unfolding entry_moves_def inFlight_def by auto

lemma moves_finalize: "b_clearTxHash b = None \<Longrightarrow> entry_moves b (b\<lparr>b_clearTxHash := h\<rparr>)"
  unfolding entry_moves_def by simp (metis buffer_row.surjective buffer_row.update_convs(9,10))

lemma grow_mark: "buffers_grow d (snd (markBufferEntriesInFlight s ids d))"
proof -
  have "buffers_grow d (snd (updateBuffers (\<lambda>b. b_subSolver b = lower s \<and> \<not> b_cleared b \<and> Q b) inFlight d))" for Q
    by (rule buffers_grow_update) (auto simp: buffers_ok_def inFlight_def intro!: moves_mark [unfolded inFlight_def])
  then show ?thesis by (simp add: markBufferEntriesInFlight_def)
qed

lemma grow_finalize: "buffers_grow d (snd (finalizeBufferEntries s ids h d))"
proof -
  have "buffers_grow d (snd (updateBuffers (\<lambda>b. b_subSolver b = lower s \<and> b_cleared b \<and> b_id b \<in> set ids \<and>
        b_clearTxHash b = None) (\<lambda>b. b\<lparr>b_clearTxHash := Some (lower h)\<rparr>) d))"
    by (rule buffers_grow_update) (auto intro!: moves_finalize)
  then show ?thesis by (simp add: finalizeBufferEntries_def)
qed

lemma grow_insert:
  assumes "\<not> bufferEntryExistsForProposal d (bi_proposalId e)"
  shows "buffers_grow d (snd (insertBufferEntry now e d))"
  unfolding buffers_grow_def
proof
  assume ok: "buffers_ok d"
  let ?d = "snd (insertBufferEntry now e d)"
  have "buffers_ok ?d"
    using ok assms by (force simp: buffers_ok_def insertBufferEntry_def newBufferRow_def bufferEntryExistsForProposal_def)
  moreover have "set (bufferEntries d) \<subseteq> set (bufferEntries ?d)" by (auto simp: insertBufferEntry_def)
  ultimately show "buffers_ok ?d \<and> (\<forall>b \<in> set (bufferEntries d). \<exists>b' \<in> set (bufferEntries ?d). entry_moves b b')"
    using entry_moves_refl by blast
qed

text \<open>The tables of the ledger are only written by its own statements.\<close>

definition buffer_tables :: "db \<Rightarrow> buffer_row list \<times> int" where
  "buffer_tables d = (bufferEntries d, bufferSeq d)"

lemma grow_tables: "buffer_tables d' = buffer_tables d \<Longrightarrow> buffers_grow d d'"
  by (rule buffers_grow_same) (simp_all add: buffer_tables_def)

lemma next_buffers: "buffer_tables (fst (snd (durable_next env now own c d))) = buffer_tables d"
  by (cases c) (auto simp: buffer_tables_def createDebitOperation_def claimDebitOperation_def persistSignedDebit_def
      recordDebitFailure_def updateDebits_def Let_def split: prod.splits option.splits if_splits bool.splits receipt.splits)

lemma run_buffers: "buffer_tables (snd (run_debit env now own c d)) = buffer_tables d"
proof (induction env now own c d rule: run_debit.induct)
  case (1 env now own c d)
  then show ?case by (subst run_debit.simps) (simp add: Let_def next_buffers)
qed

lemma charge_buffers: "buffer_tables (snd (charge env x d)) = buffer_tables d"
proof -
  let ?chain = "pe_chain env (di_sourceKind x) (di_sourceId x)"
  obtain c d' where run: "run_debit ?chain (pe_now env) (pe_workerId env) (AtCreate x) d = (c, d')" by fastforce
  then have "buffer_tables d' = buffer_tables d"
    using run_buffers [of ?chain "pe_now env" "pe_workerId env" "AtCreate x" d] by simp
  then show ?thesis using run by (cases c) (simp_all add: charge_def durableDebit_def)
qed

lemma other_buffers [simp]:
  "buffer_tables (completeLanded env l d) = buffer_tables d"
  "buffer_tables (snd (recordPenalty now p a h d)) = buffer_tables d"
  "buffer_tables (penalizeMembers h ids d) = buffer_tables d"
  "buffer_tables (setAttempt i f d) = buffer_tables d"
  "buffer_tables (snd (createDebitOperation now x d)) = buffer_tables d"
  by (simp_all add: buffer_tables_def completeLanded_def completeDebitOperation_def updateDebits_def Let_def
      recordPenalty_def penalizeMembers_def updateProposals_def setAttempt_def updateAttempts_def createDebitOperation_def)

lemma complete_buffers [simp]: "buffer_tables (snd (completeDebitOperation now i own d)) = buffer_tables d"
  by (simp add: buffer_tables_def completeDebitOperation_def updateDebits_def)

lemma execute_buffers:
  assumes "buffer_tables (snd (debit d)) = buffer_tables d"
  shows "buffer_tables (snd (executeNonSettlementPenalty now i debit d)) = buffer_tables d"
proof -
  obtain r d1 where "debit d = (r, d1)" by fastforce
  then show ?thesis using assms
    by (auto simp: executeNonSettlementPenalty_def Let_def split: option.splits sum.splits)
qed

definition grows :: "worker_state \<Rightarrow> worker_state \<Rightarrow> bool" where
  "grows s s' \<longleftrightarrow> buffers_grow (ws_db s) (ws_db s')"

lemma grows_refl [simp]: "grows s s"
  by (simp add: grows_def)

lemma grows_trans: "grows s t \<Longrightarrow> grows t u \<Longrightarrow> grows s u"
  unfolding grows_def by (rule buffers_grow_trans)

lemma worker_db [simp]:
  "ws_db (withDb d s) = d" "ws_db (emit e s) = ws_db s" "ws_db (forgetFailures k s) = ws_db s"
  "ws_db (noteDebitFailure k s) = ws_db s"
  by (simp_all add: withDb_def emit_def forgetFailures_def noteDebitFailure_def)

lemma buffers_afterD:
  "charge env x d = (r, d1) \<Longrightarrow> buffer_tables d1 = buffer_tables d"
  "recordPenalty now p a h d = (e, d1) \<Longrightarrow> buffer_tables d1 = buffer_tables d"
  "createDebitOperation now x d = (oo, d1) \<Longrightarrow> buffer_tables d1 = buffer_tables d"
  by (metis charge_buffers snd_conv) (metis other_buffers(2) snd_conv, metis other_buffers(5) snd_conv)

lemma executedD:
  "executeNonSettlementPenalty now i (charge env x) d = (r, d1) \<Longrightarrow> buffer_tables d1 = buffer_tables d"
  by (metis charge_buffers execute_buffers snd_conv)

lemma revert_grows: "grows s (snd (revertStep env p s))"
proof -
  have "buffer_tables (ws_db (snd (revertStep env p s))) = buffer_tables (ws_db s)"
    unfolding revertStep_def Let_def
    by (auto split: option.split prod.split sum.split dest!: buffers_afterD)
  then show ?thesis unfolding grows_def by (rule grow_tables)
qed

lemma nonSettlement_grows: "grows s (snd (nonSettlementStep env pp s))"
proof -
  have "buffer_tables (ws_db (snd (nonSettlementStep env pp s))) = buffer_tables (ws_db s)"
    unfolding nonSettlementStep_def by (auto split: option.split prod.split sum.split dest!: executedD)
  then show ?thesis unfolding grows_def by (rule grow_tables)
qed

lemma record_grows: "grows (fst sa) (fst (snd (recordStep env p sa)))"
proof (cases sa)
  case (Pair s affected)
  have "buffers_grow (ws_db s) (snd (insertBufferEntry now (bufferEntryOf p delta refPrice) (ws_db s)))"
    if "\<not> bufferEntryExistsForProposal (ws_db s) (p_id p)" for now delta refPrice
    using that by (intro grow_insert) (simp add: bufferEntryOf_def Let_def)
  then show ?thesis unfolding Pair recordStep_def grows_def by (simp split: option.split)
qed

lemma grow_charged:
  "buffers_grow d d1 \<Longrightarrow> charge env x d1 = (r, d2) \<Longrightarrow> buffers_grow d d2"
  using buffers_grow_trans grow_tables buffers_afterD(1) by blast

lemma grow_landed:
  "buffers_grow d d2 \<Longrightarrow> buffers_grow d (completeLanded env l (snd (finalizeBufferEntries sub ids h d2)))"
  using buffers_grow_trans grow_finalize grow_tables other_buffers(1) by metis

lemma recover_grows: "grows s (snd (recoverStep env op s))"
proof (cases "bufferBatchFromSourceId (op_sourceId op)")
  case (Some b)
  obtain sub ids where b: "b = (sub, ids)" by (cases b)
  define d1 where "d1 = snd (markBufferEntriesInFlight sub (Some ids) (ws_db s))"
  have d1: "buffers_grow (ws_db s) d1" unfolding d1_def by (rule grow_mark)
  define x where "x = \<lparr>di_sourceKind = op_sourceKind op, di_sourceId = op_sourceId op,
                   di_subSolver = op_subSolver op, di_amount = op_amount op, di_reason = op_reason op\<rparr>"
  obtain r d2 where ch: "charge env x d1 = (r, d2)" by fastforce
  have d2: "buffers_grow (ws_db s) d2" using grow_charged [OF d1 ch] .
  show ?thesis
    using d2 grow_landed [OF d2]
    by (auto simp: recoverStep_def Some b Let_def d1_def [symmetric] x_def [symmetric] ch grows_def
        split: sum.split option.split)
qed (simp add: recoverStep_def)

lemma slash_grows: "grows s (snd (slashStep env sub s))"
proof (cases "outstandingBufferBalance sub (ws_db s)")
  case (Some balance)
  define ids where "ids = map b_id (unclearedBufferEntries sub (ws_db s))"
  define x where "x = bufferCharge env sub ids balance"
  obtain op d1 where cr: "createDebitOperation (pe_now env) x (ws_db s) = (op, d1)" by fastforce
  obtain n d2 where mk: "markBufferEntriesInFlight sub (Some ids) d1 = (n, d2)" by fastforce
  obtain r d3 where ch: "charge env x d2 = (r, d3)" by fastforce
  have d1: "buffers_grow (ws_db s) d1" using buffers_afterD(3) [OF cr] by (rule grow_tables)
  have "buffers_grow (ws_db s) d2" using buffers_grow_trans [OF d1 grow_mark] mk by (metis snd_conv)
  then have d3: "buffers_grow (ws_db s) d3" using ch by (rule grow_charged)
  show ?thesis
    using d1 d3 grow_landed [OF d3]
    by (auto simp: slashStep_def Some Let_def ids_def [symmetric] x_def [symmetric] cr mk ch grows_def
        split: sum.split option.split)
qed (simp add: slashStep_def)

lemma loop_grows:
  "(\<And>x s. grows s (snd (step x s))) \<Longrightarrow> grows s (snd (for_each step xs s))"
  by (rule for_each_rel [where R = grows]) (auto intro: grows_trans)

lemma revert_pass_grows: "grows s (snd (runRevertDebits env s))"
  unfolding runRevertDebits_def by (rule loop_grows) (rule revert_grows)

lemma nonSettlement_pass_grows: "grows s (snd (runNonSettlementDebits env s))"
  unfolding runNonSettlementDebits_def
  by (cases "eligibleNonSettlementPenalties (ws_db s)") (simp_all add: loop_grows nonSettlement_grows)

lemma buffer_pass_grows: "grows s (snd (runBufferDebits env s))"
proof -
  define pending where "pending = filter (\<lambda>p. p_minBuyAmount p < p_quoteBuyAmount p) (snapshotByStatuses [Settled] (ws_db s))"
  obtain ok1 s1 recorded where r1: "for_each (recordStep env) pending (s, []) = (ok1, s1, recorded)"
    by (metis prod_cases3)
  have "grows s (fst (snd (for_each (recordStep env) pending (s, []))))"
    by (rule for_each_inv [where I = "\<lambda>b. grows s (fst b)"]) (auto intro: record_grows grows_trans)
  then have g1: "grows s s1" by (simp add: r1)
  show ?thesis
  proof (cases "ok1 \<and> (\<exists>ops. openDebitOperations ''buffer'' (ws_db s1) = Some ops)")
    case False
    then have "snd (runBufferDebits env s) = s1"
      by (auto simp: runBufferDebits_def pending_def [symmetric] r1 Let_def split: bool.split option.split)
    then show ?thesis using g1 by simp
  next
    case True
    then obtain ops where ok: "ok1" "openDebitOperations ''buffer'' (ws_db s1) = Some ops" by blast
    obtain ok2 s2 where r2: "for_each (recoverStep env) ops s1 = (ok2, s2)" by fastforce
    have "grows s1 (snd (for_each (recoverStep env) ops s1))" by (rule loop_grows) (rule recover_grows)
    then have g2: "grows s s2" using g1 grows_trans by (simp add: r2)
    have "grows s2 (snd (for_each (slashStep env) xs s2))" for xs by (rule loop_grows) (rule slash_grows)
    then have "grows s (snd (for_each (slashStep env) xs s2))" for xs using g2 grows_trans by blast
    then show ?thesis using g2 ok
      by (auto simp: runBufferDebits_def pending_def [symmetric] r1 r2 Let_def split: bool.split)
  qed
qed

text \<open>
  C29. A penalty tick never loses or rewrites a buffer debt, whatever the chain does: every entry of the
  ledger is still there with the same proposal, sub-solver and amounts, cleared entries stay cleared, a
  clearing transaction is final, and no proposal ever gets a second entry.
\<close>

theorem buffer_ledger_append_only:
  assumes "buffers_ok (ws_db s)"
  shows "buffers_ok (ws_db (snd (penaltyTick env s))) \<and>
    (\<forall>b \<in> set (bufferEntries (ws_db s)). \<exists>b' \<in> set (bufferEntries (ws_db (snd (penaltyTick env s)))).
       entry_moves b b')"
proof -
  obtain ok1 s1 where r1: "runRevertDebits env s = (ok1, s1)" by fastforce
  obtain ok2 s2 where r2: "runNonSettlementDebits env s1 = (ok2, s2)" by fastforce
  have g1: "grows s s1" using revert_pass_grows [of s env] r1 by simp
  have g2: "grows s s2" using g1 nonSettlement_pass_grows [of s1 env] r2 grows_trans by simp
  have "grows s (snd (penaltyTick env s))"
    using g1 g2 grows_trans [OF g2 buffer_pass_grows [of s2 env]]
    by (simp add: penaltyTick_def r1 r2 split: bool.split)
  then show ?thesis using assms by (simp add: grows_def buffers_grow_def)
qed

section \<open>What a slash charges\<close>

lemma marked_entries:
  "bufferEntries (snd (markBufferEntriesInFlight sub (Some (map b_id (unclearedBufferEntries sub d))) d)) =
     map (\<lambda>b. if b_subSolver b = lower sub \<and> \<not> b_cleared b then inFlight b else b) (bufferEntries d)"
  "fst (markBufferEntriesInFlight sub (Some (map b_id (unclearedBufferEntries sub d))) d) =
     length (unclearedRows sub d)"
proof -
  let ?ids = "map b_id (unclearedBufferEntries sub d)"
  let ?P = "\<lambda>b. b_subSolver b = lower sub \<and> \<not> b_cleared b"
  have ids: "b_id b \<in> set ?ids" if "b \<in> set (bufferEntries d)" "?P b" for b
    using that by (auto simp: unclearedBufferEntries_def unclearedRows_def)
  have "bufferEntries (snd (markBufferEntriesInFlight sub (Some ?ids) d)) =
      map (\<lambda>b. if ?P b then inFlight b else b) (bufferEntries d) \<and>
    fst (markBufferEntriesInFlight sub (Some ?ids) d) = length (unclearedRows sub d)"
  proof (cases "?ids = []")
    case True
    then have "unclearedRows sub d = []" by (simp add: unclearedBufferEntries_def sort_key_const length_0_conv [symmetric] del: length_0_conv)
    moreover from this have "\<forall>b \<in> set (bufferEntries d). \<not> ?P b" by (simp add: unclearedRows_def filter_empty_conv)
    ultimately show ?thesis using True by (auto simp: markBufferEntriesInFlight_def intro!: map_idI [symmetric])
  next
    case False
    let ?Q = "\<lambda>b. b_subSolver b = lower sub \<and> \<not> b_cleared b \<and> b_id b \<in> set ?ids"
    have "filter ?Q (bufferEntries d) = unclearedRows sub d"
      unfolding unclearedRows_def by (rule filter_cong) (use ids in auto)
    moreover have "map (\<lambda>b. if ?Q b then inFlight b else b) (bufferEntries d) =
        map (\<lambda>b. if ?P b then inFlight b else b) (bufferEntries d)"
      by (rule map_cong) (use ids in auto)
    ultimately show ?thesis using False
      by (simp add: markBufferEntriesInFlight_def updateBuffers_def sql_update_def)
  qed
  then show "bufferEntries (snd (markBufferEntriesInFlight sub (Some ?ids) d)) =
     map (\<lambda>b. if b_subSolver b = lower sub \<and> \<not> b_cleared b then inFlight b else b) (bufferEntries d)"
    "fst (markBufferEntriesInFlight sub (Some ?ids) d) = length (unclearedRows sub d)" by auto
qed

lemma uncleared_cong: "bufferEntries d' = bufferEntries d \<Longrightarrow> unclearedRows sub d' = unclearedRows sub d"
  by (simp add: unclearedRows_def)

text \<open>Charging an operation only moves its row along.\<close>

lemma debits_evolve_trans: "debits_evolve d e \<Longrightarrow> debits_evolve e f \<Longrightarrow> debits_evolve d f"
  unfolding debits_evolve_def by (meson evolves_trans)

lemma sound_evolve: "sound_update d d' \<Longrightarrow> debits_evolve d d'"
  by (simp add: sound_update_def)

lemma next_evolve: "debits_evolve d (fst (snd (durable_next env now own c d)))"
proof (cases c)
  case (AtCreate x)
  then show ?thesis using sound_create [of d now x, THEN sound_evolve] by (auto split: prod.split option.split)
next
  case (AtClaim x i)
  then show ?thesis using sound_claim [of d now i own LEASE_SECS, THEN sound_evolve]
    by (auto split: prod.split option.split)
next
  case (AtPersist i raw h)
  then show ?thesis using persist_evolve [of d now i own raw h] by (auto split: prod.split bool.split)
next
  case (AtFail i e)
  then show ?thesis using sound_failure [of d now i own e, THEN sound_evolve] by simp
qed (auto split: option.split prod.split receipt.split)

lemma run_evolve: "debits_evolve d (snd (run_debit env now own c d))"
proof (induction env now own c d rule: run_debit.induct)
  case (1 env now own c d)
  then show ?case using next_evolve [of d env now own c] debits_evolve_trans
    by (subst run_debit.simps) (auto simp: Let_def)
qed

lemma charge_evolve: "charge env x d = (r, d') \<Longrightarrow> debits_evolve d d'"
proof -
  let ?chain = "pe_chain env (di_sourceKind x) (di_sourceId x)"
  assume ch: "charge env x d = (r, d')"
  obtain c d2 where run: "run_debit ?chain (pe_now env) (pe_workerId env) (AtCreate x) d = (c, d2)" by fastforce
  then have "debits_evolve d d2" using run_evolve [of d ?chain "pe_now env" "pe_workerId env" "AtCreate x"] by simp
  then show ?thesis using ch run by (cases c) (simp_all add: charge_def durableDebit_def)
qed

lemma completeLanded_evolve: "debits_evolve d (completeLanded env l d)"
  unfolding completeLanded_def by (rule sound_evolve [OF sound_complete])

text \<open>The entries a slash of \<open>sub\<close> clears, with the hash it leaves on them.\<close>

definition slashed :: "string \<Rightarrow> string option \<Rightarrow> buffer_row list \<Rightarrow> buffer_row list" where
  "slashed sub h = map (\<lambda>b. if b_subSolver b = lower sub \<and> \<not> b_cleared b
     then b\<lparr>b_cleared := True, b_clearTxHash := h\<rparr> else b)"

lemma slashed_uncleared: "bufferEntries d = slashed sub h es \<Longrightarrow> unclearedRows sub d = []"
  by (auto simp: unclearedRows_def slashed_def filter_map filter_empty_conv)

lemma finalized_entries:
  assumes ok: "buffers_ok d" and es: "bufferEntries d3 = slashed sub None (bufferEntries d)"
    and ids: "ids = map b_id (unclearedBufferEntries sub d)"
  shows "bufferEntries (snd (finalizeBufferEntries sub ids h d3)) = slashed sub (Some (lower h)) (bufferEntries d)"
proof -
  let ?P = "\<lambda>b. b_subSolver b = lower sub \<and> \<not> b_cleared b"
  have mem: "b_id b \<in> set ids \<longleftrightarrow> ?P b" if b: "b \<in> set (bufferEntries d)" for b
  proof
    assume "b_id b \<in> set ids"
    then obtain b' where "b' \<in> set (bufferEntries d)" "?P b'" "b_id b' = b_id b"
      by (auto simp: ids unclearedBufferEntries_def unclearedRows_def)
    moreover have "b' = b" using ok b calculation by (auto simp: buffers_ok_def dest: keys_inj)
    ultimately show "?P b" by simp
  qed (use b in \<open>auto simp: ids unclearedBufferEntries_def unclearedRows_def\<close>)
  show ?thesis
  proof (cases "ids = []")
    case True
    then have "slashed sub k (bufferEntries d) = bufferEntries d" for k
      using mem by (auto simp: slashed_def intro!: map_idI)
    then show ?thesis using True es by (simp add: finalizeBufferEntries_def)
  next
    case False
    then show ?thesis using mem
      by (auto simp: finalizeBufferEntries_def updateBuffers_def es slashed_def sql_update_def)
  qed
qed


definition exampleBuffer :: buffer_row where
  "exampleBuffer = \<lparr>b_id = 1, b_subSolver = ''0x5a'', b_proposalId = 7, b_orderUid = ''0xc3'', b_delta = ''5'',
     b_gap = ''9'', b_buyToken = ''0xb2'', b_nativeTokenAmount = ''100'', b_cleared = False,
     b_clearTxHash = None, b_createdAt = 0\<rparr>"

definition examplePenaltyEnv :: penalty_env where
  "examplePenaltyEnv = \<lparr>pe_now = 5, pe_workerId = ''w'', pe_minCollateral = 100,
     pe_chain = (\<lambda>k i. exampleEnv), pe_settlementCost = (\<lambda>h. Some 3), pe_executedDelta = (\<lambda>h u. Some 4),
     pe_keccak = id\<rparr>"

definition exampleWorker :: worker_state where
  "exampleWorker = \<lparr>ws_db = emptyDb\<lparr>bufferEntries := [exampleBuffer], bufferSeq := 2\<rparr>, ws_attempts = [], ws_events = []\<rparr>"

lemma exampleWorker_ok: "buffers_ok (ws_db exampleWorker)" "debits_ok (ws_db exampleWorker)"
  by (simp_all add: exampleWorker_def buffers_ok_def debits_ok_def emptyDb_def exampleBuffer_def)

theorem buffer_ledger_append_only_witness:
  "buffers_ok (ws_db (snd (penaltyTick examplePenaltyEnv exampleWorker)))"
  using buffer_ledger_append_only [OF exampleWorker_ok(1)] by simp


section \<open>What a revert pass charges\<close>

definition only_debits :: "db \<Rightarrow> db \<Rightarrow> bool" where
  "only_debits d d' \<longleftrightarrow> (\<exists>ops n. d' = d\<lparr>debitOperations := ops, debitSeq := n\<rparr>)"

lemma only_debits_refl [simp]: "only_debits d d"
  unfolding only_debits_def
  by (rule exI [of _ "debitOperations d"], rule exI [of _ "debitSeq d"]) simp

lemma only_debits_trans: "only_debits d e \<Longrightarrow> only_debits e f \<Longrightarrow> only_debits d f"
  by (auto simp: only_debits_def) blast

lemma only_debits_update [simp]: "only_debits d (updateDebits P f d)"
  unfolding only_debits_def updateDebits_def
  by (rule exI [of _ "sql_update P f (debitOperations d)"], rule exI [of _ "debitSeq d"]) simp

lemma next_only_debits: "only_debits d (fst (snd (durable_next env now own c d)))"
proof (cases c)
  case (AtCreate x)
  have "only_debits d (snd (createDebitOperation now x d))"
    using create_cases [of now x d] by (auto simp: only_debits_def [of d "_\<lparr>debitSeq := _\<rparr>"]) blast
  then show ?thesis using AtCreate by (auto split: prod.split option.split)
next
  case (AtClaim x i)
  have "only_debits d (snd (claimDebitOperation now i own LEASE_SECS d))"
    by (simp add: claimDebitOperation_def split: option.split)
  then show ?thesis using AtClaim by (auto split: prod.split option.split)
next
  case (AtPersist i raw h)
  have "only_debits d (snd (persistSignedDebit now i own raw h d))" by (simp add: persistSignedDebit_def Let_def)
  then show ?thesis using AtPersist by (auto split: prod.split bool.split)
qed (auto simp: recordDebitFailure_def split: option.split prod.split receipt.split)

lemma run_only_debits: "only_debits d (snd (run_debit env now own c d))"
proof (induction env now own c d rule: run_debit.induct)
  case (1 env now own c d)
  then show ?case using next_only_debits [of d env now own c] only_debits_trans
    by (subst run_debit.simps) (auto simp: Let_def)
qed

lemma charge_only_debits: "charge env x d = (r, d') \<Longrightarrow> only_debits d d'"
proof -
  let ?chain = "pe_chain env (di_sourceKind x) (di_sourceId x)"
  assume ch: "charge env x d = (r, d')"
  obtain c d2 where run: "run_debit ?chain (pe_now env) (pe_workerId env) (AtCreate x) d = (c, d2)" by fastforce
  then have "only_debits d d2" using run_only_debits [of d ?chain "pe_now env" "pe_workerId env" "AtCreate x"] by simp
  then show ?thesis using ch run by (cases c) (auto simp: charge_def durableDebit_def)
qed

lemma charge_log: "charge env x d = (r, d') \<Longrightarrow> proposalsLog d' = proposalsLog d"
  by (drule charge_only_debits) (auto simp: only_debits_def)

text \<open>What one log row can do under the penalty worker: receive its penalty hash.\<close>

definition log_pen :: "db \<Rightarrow> db \<Rightarrow> bool" where
  "log_pen d d' \<longleftrightarrow> map r_id (proposalsLog d') = map r_id (proposalsLog d) \<and>
     (\<forall>i l. logRow d i = Some l \<and> r_penaltyTxHash l \<noteq> None \<longrightarrow> logRow d' i = Some l)"

lemma log_pen_refl [simp]: "log_pen d d"
  by (simp add: log_pen_def)

lemma log_pen_trans: "log_pen d e \<Longrightarrow> log_pen e f \<Longrightarrow> log_pen d f"
  by (auto simp: log_pen_def)

lemma log_pen_same: "proposalsLog d' = proposalsLog d \<Longrightarrow> log_pen d d'"
  by (simp add: log_pen_def logRow_def)

lemma recordPenalty_log:
  assumes keys: "distinct (map r_id (proposalsLog d))" and rec: "recordPenalty now p a h d = (Inr e, d')"
  shows "log_pen d d' \<and> (\<exists>l. logRow d' (p_id p) = Some l \<and> r_penaltyTxHash l = Some (lower h)) \<and>
    e = (now, Penalized (p_id p) (p_subSolver p) (p_orderUid p) a (p_settlementTxHash p) h)"
proof -
  let ?P = "\<lambda>l. r_id l = p_id p \<and> r_status l = SettleFailed \<and> r_penaltyTxHash l = None"
  let ?f = "\<lambda>l. l\<lparr>r_penaltyTxHash := Some (lower h)\<rparr>"
  have hit: "sql_hit ?P (proposalsLog d)" and d': "proposalsLog d' = sql_update ?P ?f (proposalsLog d)"
    and e: "e = (now, Penalized (p_id p) (p_subSolver p) (p_orderUid p) a (p_settlementTxHash p) h)"
    using rec by (auto simp: recordPenalty_def Let_def split: if_splits)
  obtain l where l: "l \<in> set (proposalsLog d)" "?P l" using hit by (auto simp: sql_hit_def)
  have row: "logRow d' i = map_option (\<lambda>r. if ?P r then ?f r else r) (logRow d i)" for i
    unfolding logRow_def d' by (rule find_sql_update) simp
  have "logRow d (p_id p) = Some l" using find_key [OF keys l(1)] l(2) by (simp add: logRow_def)
  then have "logRow d' (p_id p) = Some (?f l)" using row l(2) by simp
  moreover have "log_pen d d'" using row unfolding log_pen_def d' by (auto simp: keys_sql_update)
  ultimately show ?thesis using e by auto
qed

lemma completeLanded_log [simp]: "proposalsLog (completeLanded env l d) = proposalsLog d"
  by (simp add: completeLanded_def completeDebitOperation_def updateDebits_def)

text \<open>The event of one proposal's revert debit and the row it leaves.\<close>

definition revert_event :: "penalty_env \<Rightarrow> proposal \<Rightarrow> db \<Rightarrow> audit_event \<Rightarrow> bool" where
  "revert_event env p d e \<longleftrightarrow> (\<exists>cost h. pe_settlementCost env (the (p_settlementTxHash p)) = Some cost \<and>
     p_settlementTxHash p \<noteq> None \<and>
     e = (pe_now env, Penalized (p_id p) (p_subSolver p) (p_orderUid p)
            (revertDebit cost (case p_settlementPenaltyCap p of None \<Rightarrow> pe_minCollateral env | Some c \<Rightarrow> c))
            (p_settlementTxHash p) h) \<and>
     (\<exists>l. logRow d (p_id p) = Some l \<and> r_penaltyTxHash l = Some (lower h)))"

lemma revert_event_later: "revert_event env p d e \<Longrightarrow> log_pen d d' \<Longrightarrow> revert_event env p d' e"
  unfolding revert_event_def log_pen_def by (metis option.distinct(1))

lemma revertStep_cases:
  assumes keys: "distinct (map r_id (proposalsLog (ws_db s)))" and st: "revertStep env p s = (b, s')"
  shows "log_pen (ws_db s) (ws_db s') \<and>
    (ws_events s' = ws_events s \<or> (\<exists>e. ws_events s' = ws_events s @ [e] \<and> revert_event env p (ws_db s') e))"
proof (cases "MAX_DEBIT_ATTEMPTS \<le> attemptsOf s (p_id p) \<or> falsy (p_settlementTxHash p) \<or>
    pe_settlementCost env (the (p_settlementTxHash p)) = None")
  case True
  then show ?thesis using st by (auto simp: revertStep_def noteDebitFailure_def split: option.splits if_splits)
next
  case False
  then obtain cost where cost: "pe_settlementCost env (the (p_settlementTxHash p)) = Some cost" by auto
  define a where "a = revertDebit cost (case p_settlementPenaltyCap p of None \<Rightarrow> pe_minCollateral env | Some c \<Rightarrow> c)"
  obtain r d1 where ch: "charge env (revertCharge p (the (p_settlementTxHash p)) a) (ws_db s) = (r, d1)" by fastforce
  have log1: "proposalsLog d1 = proposalsLog (ws_db s)" using ch by (rule charge_log)
  have unf: "revertStep env p s = (case r of Inl _ \<Rightarrow> (False, withDb d1 s) | Inr None \<Rightarrow> (True, withDb d1 s)
      | Inr (Some landed) \<Rightarrow> (case recordPenalty (pe_now env) p a (ld_hash landed) d1 of
          (Inr e, d2) \<Rightarrow> (True, emit e (forgetFailures (p_id p) (withDb (completeLanded env landed d2) s)))
        | (Inl _, d2) \<Rightarrow> (True, forgetFailures (p_id p) (withDb (completeLanded env landed d2) s))))"
  proof -
    have f: "(MAX_DEBIT_ATTEMPTS \<le> attemptsOf s (p_id p)) = False" "falsy (p_settlementTxHash p) = False"
      using False by simp_all
    show ?thesis
      unfolding revertStep_def f if_False cost option.case Let_def a_def [symmetric] ch prod.case by (rule refl)
  qed
  show ?thesis
  proof (cases "\<exists>landed e d2. r = Inr (Some landed) \<and> recordPenalty (pe_now env) p a (ld_hash landed) d1 = (Inr e, d2)")
    case True
    then obtain landed e d2 where r: "r = Inr (Some landed)"
      "recordPenalty (pe_now env) p a (ld_hash landed) d1 = (Inr e, d2)" by blast
    have "distinct (map r_id (proposalsLog d1))" using keys log1 by simp
    note rec = recordPenalty_log [OF this r(2)]
    have s': "s' = emit e (forgetFailures (p_id p) (withDb (completeLanded env landed d2) s))"
      using st unf r by simp
    have same: "logRow (completeLanded env landed d2) i = logRow d2 i" for i by (simp add: logRow_def)
    have pen: "log_pen d2 (completeLanded env landed d2)" by (rule log_pen_same) simp
    have "log_pen (ws_db s) (ws_db s')"
      using log_pen_trans [OF log_pen_same [OF log1]] log_pen_trans [OF conjunct1 [OF rec] pen] by (simp add: s')
    moreover have "revert_event env p (ws_db s') e"
      using rec cost False by (auto simp: revert_event_def s' same a_def falsy_def)
    moreover have "ws_events s' = ws_events s @ [e]" by (simp add: s' emit_def forgetFailures_def withDb_def)
    ultimately show ?thesis by blast
  next
    case no: False
    have "proposalsLog (ws_db s') = proposalsLog (ws_db s) \<and> ws_events s' = ws_events s"
    proof (cases "\<exists>landed. r = Inr (Some landed)")
      case True
      then obtain landed where r: "r = Inr (Some landed)" by blast
      obtain e d2 where rec: "recordPenalty (pe_now env) p a (ld_hash landed) d1 = (e, d2)" by fastforce
      then obtain err where e: "e = Inl err" using no r by (cases e) auto
      then have "d2 = d1" using rec by (auto simp: recordPenalty_def Let_def split: if_splits)
      then show ?thesis using st unf r rec e log1 by (auto simp: forgetFailures_def withDb_def)
    next
      case False
      then have "s' = withDb d1 s" using st unf by (auto split: sum.splits option.splits)
      then show ?thesis using log1 by (simp add: withDb_def)
    qed
    then show ?thesis by (simp add: log_pen_same)
  qed
qed

lemma revert_loop:
  assumes "distinct (map r_id (proposalsLog (ws_db s)))" "distinct (map p_id ps)"
  shows "log_pen (ws_db s) (ws_db (snd (for_each (revertStep env) ps s))) \<and>
    (\<exists>evs qs. ws_events (snd (for_each (revertStep env) ps s)) = ws_events s @ evs \<and>
       set qs \<subseteq> set ps \<and> distinct (map p_id qs) \<and>
       list_all2 (\<lambda>q e. revert_event env q (ws_db (snd (for_each (revertStep env) ps s))) e) qs evs)"
  using assms
proof (induction ps arbitrary: s)
  case Nil
  show ?case by (auto intro!: exI [of _ "[]"])
next
  case (Cons p ps)
  obtain b s1 where st: "revertStep env p s = (b, s1)" by fastforce
  note c = revertStep_cases [OF Cons.prems(1) st]
  define t where "t = snd (for_each (revertStep env) (p # ps) s)"
  obtain evs qs where t: "log_pen (ws_db s1) (ws_db t)" "ws_events t = ws_events s1 @ evs" "set qs \<subseteq> set ps"
    "distinct (map p_id qs)" "list_all2 (\<lambda>q e. revert_event env q (ws_db t) e) qs evs"
  proof (cases b)
    case True
    have "distinct (map r_id (proposalsLog (ws_db s1)))" using c Cons.prems(1) by (simp add: log_pen_def)
    from Cons.IH [OF this] Cons.prems(2) show thesis using that True by (auto simp: t_def st)
  next
    case False
    then show thesis using that [of "[]" "[]"] by (simp add: t_def st)
  qed
  have "log_pen (ws_db s) (ws_db t)" using c t(1) log_pen_trans by blast
  moreover have "\<exists>evs qs. ws_events t = ws_events s @ evs \<and> set qs \<subseteq> set (p # ps) \<and> distinct (map p_id qs) \<and>
       list_all2 (\<lambda>q e. revert_event env q (ws_db t) e) qs evs"
  proof (cases "ws_events s1 = ws_events s")
    case True
    then show ?thesis using t by auto
  next
    case False
    then obtain e where e: "ws_events s1 = ws_events s @ [e]" "revert_event env p (ws_db s1) e" using c by blast
    have "p_id p \<notin> p_id ` set qs" using t(3) Cons.prems(2) by auto
    then show ?thesis
      using t e revert_event_later [OF e(2) t(1)]
      by (intro exI [of _ "e # evs"] exI [of _ "p # qs"]) auto
  qed
  ultimately show ?case by (simp add: t_def)
qed

lemma parsed_ids: "rowToProposal r = Some p \<Longrightarrow> p_id p = r_id r"
  by (auto simp: rowToProposal_def Let_def split: Option.bind_splits)

lemma parseRows_ids: "distinct (map r_id rows) \<Longrightarrow> distinct (map p_id (parseRows rows))"
proof (induction rows)
  case (Cons r rows)
  have "p_id p \<in> r_id ` set rows" if "p \<in> set (parseRows rows)" for p
    using that by (auto simp: parseRows_def List.map_filter_def parsed_ids)
  then show ?case using Cons
    by (auto simp: parseRows_def List.map_filter_simps parsed_ids split: option.split)
qed (simp add: parseRows_def List.map_filter_simps)

lemma snapshot_ids:
  "distinct (map r_id (proposalsLog d)) \<Longrightarrow> distinct (map p_id (snapshotSettleFailedFromLog d))"
proof -
  assume "distinct (map r_id (proposalsLog d))"
  then have "distinct (map r_id (filter Q (proposalsLog d)))" for Q by (rule distinct_map_filter)
  then have "distinct (map r_id (by_id (filter Q (proposalsLog d))))" for Q
    by (simp add: by_id_def distinct_map)
  then show ?thesis unfolding snapshotSettleFailedFromLog_def by (rule parseRows_ids)
qed


definition exampleFailed :: worker_state where
  "exampleFailed = \<lparr>ws_db = emptyDb\<lparr>proposalsLog := [(submittedRow 5 exampleCandidate ''9'' examplePrices (Some 1000))
     \<lparr>r_status := SettleFailed, r_settlementTxHash := Some ''0xab''\<rparr>]\<rparr>, ws_attempts = [], ws_events = []\<rparr>"


section \<open>Overlapping batches\<close>

text \<open>
  Two replicas can charge one debt twice. The first has created its operation for entry 1 (amount 100)
  but not marked it yet; a second entry of 150 arrives and another replica slashes both entries (250).
  The first then marks no entry, does not look at the count, and charges its 100 as well.
\<close>

definition overlapBefore :: db where
  "overlapBefore = snd (insertBufferEntry 5
     \<lparr>bi_subSolver = ''0x5a'', bi_proposalId = 8, bi_orderUid = ''0xc4'', bi_buyToken = ''0xb2'',
      bi_delta = ''1'', bi_gap = ''9'', bi_nativeTokenAmount = ''150''\<rparr>
     (snd (createDebitOperation 5 (bufferCharge examplePenaltyEnv ''0x5a'' [1] 100) (ws_db exampleWorker))))"

definition overlapOther :: "bool \<times> worker_state" where
  "overlapOther = slashStep (examplePenaltyEnv\<lparr>pe_workerId := ''v''\<rparr>) ''0x5a'' (withDb overlapBefore exampleWorker)"

definition overlapMark :: "nat \<times> db" where
  "overlapMark = markBufferEntriesInFlight ''0x5a'' (Some [1]) (ws_db (snd overlapOther))"

lemma overlapping_batches_charge_twice:
  "fst overlapOther \<and> length (ws_events (snd overlapOther)) = 1 \<and> fst overlapMark = 0 \<and>
   fst (charge examplePenaltyEnv (bufferCharge examplePenaltyEnv ''0x5a'' [1] 100) (snd overlapMark)) =
     Inr (Some \<lparr>ld_hash = ''0xbb'', ld_operationId = 1, ld_owner = ''w''\<rparr>) \<and>
   map d_amount (debitOperations (snd overlapMark)) = [''100'', ''250''] \<and>
   sumBigInts (map b_nativeTokenAmount (bufferEntries (snd overlapMark))) = Some 250"
proof -
  have "fst overlapOther" "length (ws_events (snd overlapOther)) = 1" "fst overlapMark = 0"
    "fst (charge examplePenaltyEnv (bufferCharge examplePenaltyEnv ''0x5a'' [1] 100) (snd overlapMark)) =
       Inr (Some \<lparr>ld_hash = ''0xbb'', ld_operationId = 1, ld_owner = ''w''\<rparr>)"
    "map d_amount (debitOperations (snd overlapMark)) = [''100'', ''250'']"
    "sumBigInts (map b_nativeTokenAmount (bufferEntries (snd overlapMark))) = Some 250"
    by code_simp+
  then show ?thesis by simp
qed

end
