(* ===== verification/Auction_State.thy ===== *)
theory Auction_State
  imports Orders Candidate_Store Database
begin

text \<open>
  \<open>apps/byos/src/infra/auction-state.ts\<close>: the open auction, kept by the replica that received
  \<open>/solve\<close> and shared with the others through one Redis key with a time to live, its serialised
  form, and the conversion of the driver's order (\<open>infra/api/types.ts\<close>) into the record the checks
  work on. An enum's value is its string, so an enum is carried over by the serialisation; bigints
  become decimal text. \<open>None\<close> is a thrown parse error or an unknown kind or scheme.
\<close>

section \<open>The driver's auction\<close>

record auction_token =
  at_referencePrice :: "string option"
  at_availableBalance :: string
  at_trusted :: bool

record auction_order =
  ao_uid :: string
  ao_sellToken :: string
  ao_buyToken :: string
  ao_sellAmount :: string
  ao_fullSellAmount :: string
  ao_buyAmount :: string
  ao_fullBuyAmount :: string
  ao_validTo :: int
  ao_kind :: string
  ao_owner :: string
  ao_receiver :: "string option"
  ao_partiallyFillable :: bool
  ao_preInteractions :: "interaction_json list"
  ao_postInteractions :: "interaction_json list"
  ao_sellTokenSource :: string
  ao_buyTokenDestination :: string
  ao_appData :: string
  ao_signingScheme :: string
  ao_signature :: string

record auction =
  au_id :: "string option"
  au_tokens :: "(string, auction_token) jsmap"
  au_orders :: "auction_order list"
  au_effectiveGasPrice :: string
  au_deadline :: int

text \<open>What \<open>auctionOrderSchema\<close> and \<open>auctionSchema\<close> require of the fields the handlers read.\<close>

definition optional :: "('a \<Rightarrow> bool) \<Rightarrow> 'a option \<Rightarrow> bool" where
  "optional P v \<longleftrightarrow> (case v of None \<Rightarrow> True | Some x \<Rightarrow> P x)"

definition auctionOrderSchema :: "auction_order \<Rightarrow> bool" where
  "auctionOrderSchema o' \<longleftrightarrow> has_0x (ao_uid o') \<and> orderUidString (ao_uid o') \<and>
     addressString (ao_sellToken o') \<and> addressString (ao_buyToken o') \<and>
     decimalString (ao_sellAmount o') \<and> decimalString (ao_fullSellAmount o') \<and>
     decimalString (ao_buyAmount o') \<and> decimalString (ao_fullBuyAmount o') \<and>
     (ao_kind o' = ''sell'' \<or> ao_kind o' = ''buy'') \<and> optional addressString (ao_receiver o')"

definition auctionTokenSchema :: "auction_token \<Rightarrow> bool" where
  "auctionTokenSchema t \<longleftrightarrow> optional decimalString (at_referencePrice t)"

definition auctionSchema :: "auction \<Rightarrow> bool" where
  "auctionSchema a \<longleftrightarrow> list_all (auctionTokenSchema \<circ> snd) (au_tokens a) \<and>
     list_all auctionOrderSchema (au_orders a) \<and> decimalString (au_effectiveGasPrice a)"

section \<open>Orders\<close>

definition ZERO_ADDRESS :: string where
  "ZERO_ADDRESS = ''0x'' @ replicate 40 CHR ''0''"

definition mapKind :: "string \<Rightarrow> order_kind option" where
  "mapKind kind = (if kind = ''sell'' then Some SELL else if kind = ''buy'' then Some BUY else None)"

definition mapSigningScheme :: "string \<Rightarrow> signing_scheme option" where
  "mapSigningScheme scheme =
     (if scheme = ''eip712'' then Some Eip712
      else if scheme = ''ethsign'' then Some EthSign
      else if scheme = ''eip1271'' then Some Eip1271
      else if scheme = ''presign'' then Some PreSign
      else None)"

definition wireInteraction :: "interaction_json \<Rightarrow> interaction option" where
  "wireInteraction i = map_option (\<lambda>v. \<lparr>i_target = ij_target i, i_value = v, i_callData = ij_callData i\<rparr>)
     (BigInt (ij_value i))"

definition settlementSignature :: "auction_order \<Rightarrow> string" where
  "settlementSignature o' =
     (if ao_signingScheme o' = ''presign'' then ao_owner o'
      else if ao_signingScheme o' = ''eip1271'' then ''0x'' @ drop 2 (ao_owner o') @ drop 2 (ao_signature o')
      else ao_signature o')"

definition auctionOrderToRecord :: "auction_order \<Rightarrow> order_record option" where
  "auctionOrderToRecord o' = do {
     pre \<leftarrow> those (map wireInteraction (ao_preInteractions o'));
     post \<leftarrow> those (map wireInteraction (ao_postInteractions o'));
     sellAmount \<leftarrow> BigInt (ao_fullSellAmount o');
     buyAmount \<leftarrow> BigInt (ao_fullBuyAmount o');
     kind \<leftarrow> mapKind (ao_kind o');
     scheme \<leftarrow> mapSigningScheme (ao_signingScheme o');
     Some \<lparr>order = \<lparr>o_sellToken = ao_sellToken o', o_buyToken = ao_buyToken o',
                     o_receiver = (case ao_receiver o' of None \<Rightarrow> ZERO_ADDRESS | Some r \<Rightarrow> r),
                     o_sellAmount = sellAmount, o_buyAmount = buyAmount, o_validTo = ao_validTo o',
                     o_appData = ao_appData o', o_feeAmount = 0, o_kind = kind,
                     o_partiallyFillable = ao_partiallyFillable o', o_signingScheme = scheme,
                     o_signature = settlementSignature o'\<rparr>,
           preInteractions = pre, postInteractions = post,
           erc20Balances = (ao_sellTokenSource o' = ''erc20'' \<and> ao_buyTokenDestination o' = ''erc20''),
           orderStatus = Open\<rparr>
   }"

section \<open>Serialisation\<close>

record auction_state =
  as_auctionId :: int
  as_orders :: "(string, order_record) jsmap"
  as_prices :: "(string, int) jsmap"
  as_gasPrice :: int

record serialized_order =
  se_sellToken :: string
  se_buyToken :: string
  se_receiver :: string
  se_sellAmount :: string
  se_buyAmount :: string
  se_validTo :: int
  se_appData :: string
  se_feeAmount :: string
  se_kind :: order_kind
  se_partiallyFillable :: bool
  se_signingScheme :: signing_scheme
  se_signature :: string

record serialized_record =
  sr_order :: serialized_order
  sr_preInteractions :: "interaction_json list"
  sr_postInteractions :: "interaction_json list"
  sr_erc20Balances :: bool
  sr_status :: order_status

record serialized_state =
  ss_auctionId :: int
  ss_orders :: "(string \<times> serialized_record) list"
  ss_prices :: "(string \<times> string) list"
  ss_gasPrice :: "string option"

definition serializeInteraction :: "interaction \<Rightarrow> interaction_json" where
  "serializeInteraction i = \<lparr>ij_target = i_target i, ij_value = bigint_str (i_value i), ij_callData = i_callData i\<rparr>"

definition deserializeInteraction :: "interaction_json \<Rightarrow> interaction option" where
  "deserializeInteraction i = map_option (\<lambda>v. \<lparr>i_target = ij_target i, i_value = v, i_callData = ij_callData i\<rparr>)
     (BigInt (ij_value i))"

definition serializeRecord :: "order_record \<Rightarrow> serialized_record" where
  "serializeRecord r =
     \<lparr>sr_order = \<lparr>se_sellToken = o_sellToken (order r), se_buyToken = o_buyToken (order r),
        se_receiver = o_receiver (order r), se_sellAmount = bigint_str (o_sellAmount (order r)),
        se_buyAmount = bigint_str (o_buyAmount (order r)), se_validTo = o_validTo (order r),
        se_appData = o_appData (order r), se_feeAmount = bigint_str (o_feeAmount (order r)),
        se_kind = o_kind (order r), se_partiallyFillable = o_partiallyFillable (order r),
        se_signingScheme = o_signingScheme (order r), se_signature = o_signature (order r)\<rparr>,
      sr_preInteractions = map serializeInteraction (preInteractions r),
      sr_postInteractions = map serializeInteraction (postInteractions r),
      sr_erc20Balances = erc20Balances r, sr_status = orderStatus r\<rparr>"

definition deserializeRecord :: "serialized_record \<Rightarrow> order_record option" where
  "deserializeRecord r = do {
     sellAmount \<leftarrow> BigInt (se_sellAmount (sr_order r));
     buyAmount \<leftarrow> BigInt (se_buyAmount (sr_order r));
     feeAmount \<leftarrow> BigInt (se_feeAmount (sr_order r));
     pre \<leftarrow> those (map deserializeInteraction (sr_preInteractions r));
     post \<leftarrow> those (map deserializeInteraction (sr_postInteractions r));
     Some \<lparr>order = \<lparr>o_sellToken = se_sellToken (sr_order r), o_buyToken = se_buyToken (sr_order r),
             o_receiver = se_receiver (sr_order r), o_sellAmount = sellAmount, o_buyAmount = buyAmount,
             o_validTo = se_validTo (sr_order r), o_appData = se_appData (sr_order r), o_feeAmount = feeAmount,
             o_kind = se_kind (sr_order r), o_partiallyFillable = se_partiallyFillable (sr_order r),
             o_signingScheme = se_signingScheme (sr_order r), o_signature = se_signature (sr_order r)\<rparr>,
           preInteractions = pre, postInteractions = post, erc20Balances = sr_erc20Balances r,
           orderStatus = sr_status r\<rparr>
   }"

definition serializeState :: "auction_state \<Rightarrow> serialized_state" where
  "serializeState st =
     \<lparr>ss_auctionId = as_auctionId st,
      ss_orders = map (\<lambda>(k, v). (k, serializeRecord v)) (as_orders st),
      ss_prices = map (\<lambda>(k, v). (k, bigint_str v)) (as_prices st),
      ss_gasPrice = Some (bigint_str (as_gasPrice st))\<rparr>"

definition deserializeState :: "serialized_state \<Rightarrow> auction_state option" where
  "deserializeState s = do {
     orders \<leftarrow> those (map (\<lambda>(k, v). map_option (Pair k) (deserializeRecord v)) (ss_orders s));
     prices \<leftarrow> those (map (\<lambda>(k, v). map_option (Pair k) (BigInt v)) (ss_prices s));
     gasPrice \<leftarrow> BigInt (case ss_gasPrice s of None \<Rightarrow> ''0'' | Some g \<Rightarrow> g);
     Some \<lparr>as_auctionId = ss_auctionId s, as_orders = jm_of orders, as_prices = jm_of prices,
           as_gasPrice = gasPrice\<rparr>
   }"

section \<open>Replicas and the shared key\<close>

definition AUCTION_TTL_SECS :: int where
  "AUCTION_TTL_SECS = 120"

text \<open>Each replica's \<open>current\<close>, and the shared key's value with the time (ms) it expires.\<close>

record auction_world =
  aw_current :: "nat \<Rightarrow> auction_state option"
  aw_shared :: "(serialized_state \<times> int) option"

definition redis_state :: "int \<Rightarrow> auction_world \<Rightarrow> serialized_state option" where
  "redis_state now w = (case aw_shared w of None \<Rightarrow> None | Some (s, expires) \<Rightarrow> if now < expires then Some s else None)"

definition setAuctionState :: "nat \<Rightarrow> int \<Rightarrow> auction_state \<Rightarrow> auction_world \<Rightarrow> auction_world" where
  "setAuctionState i now st w =
     w\<lparr>aw_current := (aw_current w)(i := Some st),
       aw_shared := Some (serializeState st, now + AUCTION_TTL_SECS * 1000)\<rparr>"

text \<open>\<open>None\<close> is a thrown parse error, \<open>Some None\<close> no open auction.\<close>

definition getAuctionState :: "nat \<Rightarrow> int \<Rightarrow> auction_world \<Rightarrow> auction_state option option" where
  "getAuctionState i now w =
     (case aw_current w i of
        Some st \<Rightarrow> Some (Some st)
      | None \<Rightarrow> (case redis_state now w of None \<Rightarrow> Some None | Some s \<Rightarrow> map_option Some (deserializeState s)))"

definition clearAuctionState :: "nat \<Rightarrow> auction_world \<Rightarrow> auction_world" where
  "clearAuctionState i w = w\<lparr>aw_current := (aw_current w)(i := None), aw_shared := None\<rparr>"

definition clearAuctionStateIfOwned :: "nat \<Rightarrow> int \<Rightarrow> int \<Rightarrow> auction_world \<Rightarrow> auction_world" where
  "clearAuctionStateIfOwned i now auctionId w =
     w\<lparr>aw_current := (if map_option as_auctionId (aw_current w i) = Some auctionId
          then (aw_current w)(i := None) else aw_current w),
       aw_shared := (case redis_state now w of
          None \<Rightarrow> aw_shared w
        | Some s \<Rightarrow> if ss_auctionId s = auctionId then None else aw_shared w)\<rparr>"

section \<open>Round trip\<close>

lemma those_map_conv: "(\<And>x. x \<in> set xs \<Longrightarrow> f x = Some (g x)) \<Longrightarrow> those (map f xs) = Some (map g xs)"
  by (induction xs) auto

lemma interaction_round_trip [simp]: "deserializeInteraction (serializeInteraction i) = Some i"
  by (simp add: deserializeInteraction_def serializeInteraction_def)

lemma interactions_round_trip [simp]:
  "those (map deserializeInteraction (map serializeInteraction is)) = Some is"
  by (induction "is") auto

lemma record_round_trip [simp]: "deserializeRecord (serializeRecord r) = Some r"
  unfolding deserializeRecord_def serializeRecord_def
  by (simp del: map_map add: interactions_round_trip)

lemma jm_of_snoc: "k \<notin> set (map fst m) \<Longrightarrow> jm_set k v m = m @ [(k, v)]"
  by (induction m) auto

lemma jm_of_ok: "jm_ok m \<Longrightarrow> jm_of m = m"
proof (induction m rule: rev_induct)
  case (snoc p m)
  obtain k v where p: "p = (k, v)" by (cases p)
  have "jm_ok m" "k \<notin> set (map fst m)" using snoc.prems by (auto simp: jm_ok_def p)
  then show ?case using snoc.IH jm_of_snoc [of k m v] by (simp add: jm_of_def p)
qed (simp add: jm_of_def)

text \<open>
  The auction state a replica shares is the state another replica reads: serialising and
  deserialising it keeps the auction, every order with its hooks and amounts, every price and the gas
  price, whatever their size.
\<close>

theorem auction_state_round_trip:
  assumes "jm_ok (as_orders st)" "jm_ok (as_prices st)"
  shows "deserializeState (serializeState st) = Some st"
proof -
  have o: "those (map (\<lambda>(k, v). map_option (Pair k) (deserializeRecord v)) (ss_orders (serializeState st)))
      = Some (as_orders st)"
    by (simp add: serializeState_def comp_def case_prod_unfold those_map_conv [where g = id, simplified])
  have p: "those (map (\<lambda>(k, v). map_option (Pair k) (BigInt v)) (ss_prices (serializeState st)))
      = Some (as_prices st)"
    by (simp add: serializeState_def comp_def case_prod_unfold those_map_conv [where g = id, simplified])
  have "ss_gasPrice (serializeState st) = Some (bigint_str (as_gasPrice st))"
    "ss_auctionId (serializeState st) = as_auctionId st"
    by (simp_all add: serializeState_def)
  then show ?thesis using assms unfolding deserializeState_def o p by (simp add: jm_of_ok)
qed

section \<open>Finishing requests\<close>

definition exampleState :: auction_state where
  "exampleState = \<lparr>as_auctionId = 1, as_orders = [(''0xc3'', exampleRecord)],
     as_prices = [(''0xa1'', 10 ^ 18), (''0xb2'', 10 ^ 18)], as_gasPrice = 3\<rparr>"

lemma exampleState_ok: "jm_ok (as_orders exampleState)" "jm_ok (as_prices exampleState)"
  by (simp_all add: exampleState_def jm_ok_def)

theorem auction_state_round_trip_witness:
  "deserializeState (serializeState exampleState) = Some exampleState"
  by (rule auction_state_round_trip [OF exampleState_ok])

text \<open>Requests that finish: the replica, the time and the auction they clear.\<close>

definition finishAll :: "(nat \<times> int \<times> int) list \<Rightarrow> auction_world \<Rightarrow> auction_world" where
  "finishAll = fold (\<lambda>(i, now, auctionId). clearAuctionStateIfOwned i now auctionId)"

lemma finish_keeps:
  assumes "\<forall>(i, now, a) \<in> set fs. a \<noteq> ss_auctionId s" "aw_shared w = Some (s, e)"
  shows "aw_shared (finishAll fs w) = Some (s, e) \<and>
    (\<forall>i. aw_current w i = None \<longrightarrow> aw_current (finishAll fs w) i = None) \<and>
    (\<forall>i st. aw_current w i = Some st \<and> as_auctionId st = ss_auctionId s \<longrightarrow> aw_current (finishAll fs w) i = Some st)"
  using assms
proof (induction fs arbitrary: w)
  case (Cons f fs)
  obtain i now a where f: "f = (i, now, a)" by (cases f)
  let ?w = "clearAuctionStateIfOwned i now a w"
  have sh: "aw_shared ?w = Some (s, e)"
    using Cons.prems f by (auto simp: clearAuctionStateIfOwned_def redis_state_def split: option.splits if_splits)
  have cur: "aw_current w j = None \<Longrightarrow> aw_current ?w j = None"
    "aw_current w j = Some st \<Longrightarrow> as_auctionId st = ss_auctionId s \<Longrightarrow> aw_current ?w j = Some st" for j st
    using Cons.prems(1) f by (auto simp: clearAuctionStateIfOwned_def)
  have "finishAll (f # fs) w = finishAll fs ?w" by (simp add: finishAll_def f)
  then show ?case using Cons.IH [OF _ sh] Cons.prems(1) cur by (simp add: f)
qed (simp add: finishAll_def)

text \<open>
  A finishing request never closes another auction. Once a replica has opened an auction, whatever
  other auctions' requests finish on whatever replicas, until the time to live runs out the opener and
  every replica without an auction of its own still read exactly the opened state; and when its own
  request finishes the opener reads no auction.
\<close>

theorem finishing_keeps_other_auctions:
  assumes ok: "jm_ok (as_orders st)" "jm_ok (as_prices st)"
    and others: "\<forall>(i, t, a) \<in> set fs. a \<noteq> as_auctionId st"
    and time: "now < t0 + AUCTION_TTL_SECS * 1000"
    and j: "j = k \<or> aw_current w j = None"
  shows "getAuctionState j now (finishAll fs (setAuctionState k t0 st w)) = Some (Some st) \<and>
    getAuctionState k now (clearAuctionStateIfOwned k now (as_auctionId st)
      (finishAll fs (setAuctionState k t0 st w))) = Some None"
proof -
  let ?w = "setAuctionState k t0 st w"
  let ?f = "finishAll fs ?w"
  have id: "ss_auctionId (serializeState st) = as_auctionId st" by (simp add: serializeState_def)
  have sh: "aw_shared ?w = Some (serializeState st, t0 + AUCTION_TTL_SECS * 1000)" by (simp add: setAuctionState_def)
  have "\<forall>(i, t, a) \<in> set fs. a \<noteq> ss_auctionId (serializeState st)" using others id by simp
  note keep = finish_keeps [OF this sh]
  have red: "redis_state now ?f = Some (serializeState st)" using keep time by (simp add: redis_state_def)
  have k: "aw_current ?f k = Some st" using keep id by (simp add: setAuctionState_def)
  have "getAuctionState j now ?f = Some (Some st)"
  proof (cases "j = k")
    case False
    then have "aw_current ?f j = None" using j keep by (simp add: setAuctionState_def)
    then show ?thesis using red auction_state_round_trip [OF ok] by (simp add: getAuctionState_def)
  qed (simp add: getAuctionState_def k)
  moreover have "getAuctionState k now (clearAuctionStateIfOwned k now (as_auctionId st) ?f) = Some None"
    using k red id by (simp add: getAuctionState_def clearAuctionStateIfOwned_def redis_state_def)
  ultimately show ?thesis by blast
qed

theorem finishing_keeps_other_auctions_witness:
  "getAuctionState 1 50000 (finishAll [(0, 40000, 9)]
     (setAuctionState 0 0 exampleState \<lparr>aw_current = (\<lambda>i. None), aw_shared = None\<rparr>)) = Some (Some exampleState)"
  using finishing_keeps_other_auctions [OF exampleState_ok, of "[(0, 40000, 9)]" 50000 0 1 0
      "\<lparr>aw_current = (\<lambda>i. None), aw_shared = None\<rparr>"]
  by (simp add: exampleState_def AUCTION_TTL_SECS_def)

text \<open>
  A record keeps what the user signed: for an order the schema accepts, conversion succeeds exactly
  when its scheme is known and its hook values parse, and the record carries the full signed amounts.
\<close>

lemma auctionOrderToRecord_schema:
  assumes "auctionOrderSchema o'"
  shows "(auctionOrderToRecord o' \<noteq> None \<longleftrightarrow> mapSigningScheme (ao_signingScheme o') \<noteq> None \<and>
      those (map wireInteraction (ao_preInteractions o')) \<noteq> None \<and>
      those (map wireInteraction (ao_postInteractions o')) \<noteq> None) \<and>
    (\<forall>r. auctionOrderToRecord o' = Some r \<longrightarrow>
       BigInt (ao_fullSellAmount o') = Some (o_sellAmount (order r)) \<and>
       BigInt (ao_fullBuyAmount o') = Some (o_buyAmount (order r)) \<and> o_feeAmount (order r) = 0)"
proof -
  obtain a b where "BigInt (ao_fullSellAmount o') = Some a" "BigInt (ao_fullBuyAmount o') = Some b"
    using assms decimalString_parses unfolding auctionOrderSchema_def by metis
  moreover obtain k where "mapKind (ao_kind o') = Some k"
    using assms by (auto simp: auctionOrderSchema_def mapKind_def)
  ultimately show ?thesis by (auto simp: auctionOrderToRecord_def Option.bind_eq_Some_conv split: Option.bind_splits)
qed

end
