(* ===== verification/Settlement_Encoding.thy ===== *)
theory Settlement_Encoding
  imports Domain_Types "HOL-Library.Word"
begin

unbundle bit_operations_syntax

text \<open>
  The settlement the service simulates and bids: \<open>packages/common/src/trampoline.ts\<close>,
  \<open>packages/common/src/settlement.ts\<close>, \<open>apps/byos/src/infra/blockchain/simulation.ts\<close> and
  \<open>simulation-order.ts\<close>. The ABI encoder, the hash functions and the chain constants of viem and the
  cow-sdk are the fields of \<open>chain_lib\<close>; what is encoded, and where it goes, is the service's.
\<close>

section \<open>The library\<close>

record settle_trade =
  tr_sellTokenIndex :: int
  tr_buyTokenIndex :: int
  tr_receiver :: string
  tr_sellAmount :: int
  tr_buyAmount :: int
  tr_validTo :: int
  tr_appData :: string
  tr_feeAmount :: int
  tr_flags :: int
  tr_executedAmount :: int
  tr_signature :: string

record chain_lib =
  cl_encodeTransfer :: "string \<Rightarrow> int \<Rightarrow> string"
  cl_encodeExecute :: "contract_proposal \<Rightarrow> interaction list \<Rightarrow> string \<Rightarrow> string"
  cl_encodeWithdraw :: "int \<Rightarrow> string"
  cl_encodeSettle :: "string list \<Rightarrow> int list \<Rightarrow> settle_trade list \<Rightarrow> interaction list list \<Rightarrow> string"
  cl_buyEthAddress :: string
  cl_wrappedToken :: "int \<Rightarrow> string option"
  cl_orderDigest :: "int \<Rightarrow> string \<Rightarrow> cow_order \<Rightarrow> string"
  cl_keccak :: "string \<Rightarrow> string"
  cl_concat :: "string list \<Rightarrow> string"
  cl_pad32 :: "string \<Rightarrow> string"
  cl_numberToHex :: "int \<Rightarrow> string"

section \<open>Encoding\<close>

definition encodeTrampolineInteractions ::
    "chain_lib \<Rightarrow> string \<Rightarrow> contract_proposal \<Rightarrow> interaction list \<Rightarrow> string \<Rightarrow> interaction \<times> interaction" where
  "encodeTrampolineInteractions lib trampoline p interactions signature =
     (\<lparr>i_target = cp_sellToken p, i_value = 0, i_callData = cl_encodeTransfer lib trampoline (cp_sellAmount p)\<rparr>,
      \<lparr>i_target = trampoline, i_value = 0, i_callData = cl_encodeExecute lib p interactions signature\<rparr>)"

text \<open>The flags of a trade; JavaScript's bitwise operators work on 32 bits.\<close>

definition schemeFlags :: "signing_scheme \<Rightarrow> 32 word" where
  "schemeFlags s = (case s of Eip712 \<Rightarrow> 0 | EthSign \<Rightarrow> push_bit 5 1 | Eip1271 \<Rightarrow> push_bit 5 2 | PreSign \<Rightarrow> push_bit 5 3)"

definition tradeFlagsWord :: "cow_order \<Rightarrow> 32 word" where
  "tradeFlagsWord o' =
     (let flags0 = 0;
          flags1 = (if o_kind o' = BUY then flags0 OR 1 else flags0);
          flags2 = (if o_partiallyFillable o' then flags1 OR push_bit 1 1 else flags1)
      in flags2 OR schemeFlags (o_signingScheme o'))"

definition tradeFlags :: "cow_order \<Rightarrow> int" where
  "tradeFlags o' = sint (tradeFlagsWord o')"

definition encodeSettle :: "chain_lib \<Rightarrow> cow_order \<Rightarrow> contract_proposal \<Rightarrow> string \<Rightarrow> interaction list \<Rightarrow> string \<Rightarrow>
    interaction list \<Rightarrow> interaction list \<Rightarrow> string" where
  "encodeSettle lib o' p trampoline route signature pre post =
     (let executedAmount = (if o_kind o' = SELL then cp_sellAmount p else cp_quoteBuyAmount p);
          trade = \<lparr>tr_sellTokenIndex = 0, tr_buyTokenIndex = 1, tr_receiver = o_receiver o',
                   tr_sellAmount = o_sellAmount o', tr_buyAmount = o_buyAmount o', tr_validTo = o_validTo o',
                   tr_appData = o_appData o', tr_feeAmount = o_feeAmount o', tr_flags = tradeFlags o',
                   tr_executedAmount = executedAmount, tr_signature = o_signature o'\<rparr>;
          (transferIntra, executeIntra) = encodeTrampolineInteractions lib trampoline p route signature;
          unwrap = (if lower (o_buyToken o') = lower (cl_buyEthAddress lib)
            then [\<lparr>i_target = cp_buyToken p, i_value = 0, i_callData = cl_encodeWithdraw lib (cp_quoteBuyAmount p)\<rparr>]
            else [])
      in cl_encodeSettle lib [o_sellToken o', o_buyToken o'] [cp_quoteBuyAmount p, cp_sellAmount p] [trade]
           [pre, [transferIntra, executeIntra] @ unwrap, post])"

section \<open>Simulation\<close>

definition DUMMY_SUBMITTER :: string where
  "DUMMY_SUBMITTER = ''0x'' @ replicate 40 CHR ''1''"

definition ROLES_MAPPING_SLOT :: int where
  "ROLES_MAPPING_SLOT = 5"

record state_override =
  ov_address :: string
  ov_code :: "string option"
  ov_stateDiff :: "(string \<times> string) list"

record simulation_params =
  sp_settlement :: string
  sp_authenticator :: string
  sp_escrow :: string
  sp_trampoline :: string
  sp_order :: cow_order
  sp_proposal :: contract_proposal
  sp_route :: "interaction list"
  sp_signature :: string
  sp_preInteractions :: "interaction list"
  sp_postInteractions :: "interaction list"
  sp_submitter :: "string option"

record simulation =
  sim_calldata :: string
  sim_stateOverride :: "state_override list"
  sim_submitter :: string

text \<open>The vendored bytecode and the role constant are opaque byte strings of the library's type.\<close>

definition submitterRoleSlot :: "chain_lib \<Rightarrow> string \<Rightarrow> string \<Rightarrow> string" where
  "submitterRoleSlot lib role account =
     cl_keccak lib (cl_concat lib [cl_pad32 lib account,
       cl_keccak lib (cl_concat lib [role, cl_pad32 lib (cl_numberToHex lib ROLES_MAPPING_SLOT)])])"

definition buildSimulation :: "chain_lib \<Rightarrow> string \<Rightarrow> string \<Rightarrow> simulation_params \<Rightarrow> simulation" where
  "buildSimulation lib authenticatorCode role ps =
     (let calldata = encodeSettle lib (sp_order ps) (sp_proposal ps) (sp_trampoline ps) (sp_route ps)
            (sp_signature ps) (sp_preInteractions ps) (sp_postInteractions ps);
          submitter = (case sp_submitter ps of None \<Rightarrow> DUMMY_SUBMITTER | Some s \<Rightarrow> s);
          overrides = (if falsy (sp_submitter ps) then
            [\<lparr>ov_address = sp_authenticator ps, ov_code = Some authenticatorCode, ov_stateDiff = []\<rparr>,
             \<lparr>ov_address = sp_escrow ps, ov_code = None,
              ov_stateDiff = [(submitterRoleSlot lib role submitter, cl_pad32 lib (cl_numberToHex lib 1))]\<rparr>]
            else [])
      in \<lparr>sim_calldata = calldata, sim_stateOverride = overrides, sim_submitter = submitter\<rparr>)"

text \<open>\<open>None\<close> is an unknown chain; \<open>cl_wrappedToken\<close> is \<open>None\<close> on an unsupported one.\<close>

definition simulationOrder :: "chain_lib \<Rightarrow> cow_order \<Rightarrow> string \<Rightarrow> int option \<Rightarrow> string \<Rightarrow> cow_order" where
  "simulationOrder lib o' orderUid chainId settlement =
     (case Option.bind chainId (cl_wrappedToken lib) of
        None \<Rightarrow> o'
      | Some wrapped \<Rightarrow>
          if lower (o_buyToken o') \<noteq> lower wrapped then o'
          else let nativeOrder = o'\<lparr>o_buyToken := cl_buyEthAddress lib\<rparr>;
                   digest = cl_orderDigest lib (the chainId) settlement nativeOrder in
            if lower digest = lower (take 66 orderUid) then nativeOrder else o')"

section \<open>What the flags say\<close>

definition schemeNumber :: "signing_scheme \<Rightarrow> int" where
  "schemeNumber s = (case s of Eip712 \<Rightarrow> 0 | EthSign \<Rightarrow> 1 | Eip1271 \<Rightarrow> 2 | PreSign \<Rightarrow> 3)"

text \<open>The layout the contract reads: bit 0 the kind, bit 1 partial fills, bits 5 and 6 the scheme.\<close>

definition flagsOf :: "order_kind \<Rightarrow> bool \<Rightarrow> signing_scheme \<Rightarrow> int" where
  "flagsOf k pf s = (if k = BUY then 1 else 0) + (if pf then 2 else 0) + 32 * schemeNumber s"

lemma tradeFlags_flagsOf:
  "tradeFlags o' = flagsOf (o_kind o') (o_partiallyFillable o') (o_signingScheme o')"
  by (cases "o_kind o'"; cases "o_partiallyFillable o'"; cases "o_signingScheme o'")
     (simp_all add: tradeFlags_def tradeFlagsWord_def schemeFlags_def flagsOf_def schemeNumber_def)

text \<open>
  The flags word carries the order's kind, fill mode and signing scheme and nothing else: it fits
  seven bits, bit 0 is set exactly for a buy order, bit 1 exactly for a partially fillable one, the
  scheme is read back from bits 5 and 6 and the bits between are clear, so that two orders with the
  same flags agree on all three.
\<close>

theorem trade_flags_decode:
  "0 \<le> tradeFlags o1 \<and> tradeFlags o1 < 128 \<and>
   (bit (tradeFlags o1) 0 \<longleftrightarrow> o_kind o1 = BUY) \<and> (bit (tradeFlags o1) 1 \<longleftrightarrow> o_partiallyFillable o1) \<and>
   tradeFlags o1 div 32 = schemeNumber (o_signingScheme o1) \<and> tradeFlags o1 mod 32 < 4 \<and>
   (tradeFlags o1 = tradeFlags o2) =
     ((o_kind o1, o_partiallyFillable o1, o_signingScheme o1) = (o_kind o2, o_partiallyFillable o2, o_signingScheme o2))"
proof -
  have d: "bit (flagsOf k p s) 0 \<longleftrightarrow> k = BUY" "bit (flagsOf k p s) 1 \<longleftrightarrow> p" "0 \<le> flagsOf k p s"
    "flagsOf k p s < 128" "flagsOf k p s mod 32 < 4" "flagsOf k p s div 32 = schemeNumber s" for k p s
    by (cases k; cases p; cases s; simp add: flagsOf_def schemeNumber_def bit_iff_odd)+
  have e: "flagsOf k p s = flagsOf k' p' s' \<longleftrightarrow> k = k' \<and> p = p' \<and> s = s'" for k p s k' p' s'
    by (cases k; cases k'; cases p; cases p'; cases s; cases s') (simp_all add: flagsOf_def schemeNumber_def)
  show ?thesis using d e by (simp add: tradeFlags_flagsOf)
qed

text \<open>
  The simulated order is the signed one: it differs from the auction's order at most in its buy
  token, only when that is the chain's wrapped token, and only when the digest of the native order is
  the one the order UID was made from; hooks and amounts are untouched.
\<close>

theorem simulation_order_is_signed:
  "simulationOrder lib o' uid chainId settlement = o' \<or>
   (\<exists>c wrapped. chainId = Some c \<and> cl_wrappedToken lib c = Some wrapped \<and> lower (o_buyToken o') = lower wrapped \<and>
      simulationOrder lib o' uid chainId settlement = o'\<lparr>o_buyToken := cl_buyEthAddress lib\<rparr> \<and>
      lower (cl_orderDigest lib c settlement (simulationOrder lib o' uid chainId settlement)) = lower (take 66 uid))"
  by (auto simp: simulationOrder_def Let_def split: option.split Option.bind_split)

end
