(* ===== verification/Validator.thy ===== *)
theory Validator
  imports Auction_State Settlement_Encoding Scoring Storage
begin

text \<open>
  Proposal validation (\<open>apps/byos/src/infra/blockchain/validator.ts\<close> and \<open>escrow.ts\<close>): the cheap
  escrow gate over a per-auction cache of balance reads, and the simulation gate. What the RPC node
  answers is an environment; a failed read is \<open>None\<close>. The outcome of a validation is a verdict, a
  deferral (\<open>null\<close> in the source) or an exception.
\<close>

section \<open>The batched balance reader\<close>

text \<open>
  \<open>createBatchedEscrowBalanceReader\<close>'s flush: the pending addresses in batches; a batch read that
  throws (\<open>None\<close>) or misses an address rejects the requests it concerns.
\<close>

definition answerBatch :: "(string list \<Rightarrow> int option list option) \<Rightarrow> string list \<Rightarrow> (string \<times> int option) list" where
  "answerBatch readBatch batch =
     (case readBatch batch of
        None \<Rightarrow> map (\<lambda>a. (a, None)) batch
      | Some balances \<Rightarrow> map (\<lambda>i. (batch ! i, if i < length balances then balances ! i else None)) [0..<length batch])"

function flushRequests :: "(string list \<Rightarrow> int option list option) \<Rightarrow> nat \<Rightarrow> string list \<Rightarrow> (string \<times> int option) list" where
  "flushRequests readBatch batchSize requests =
     (if requests = [] \<or> batchSize = 0 then []
      else answerBatch readBatch (take batchSize requests) @
           flushRequests readBatch batchSize (drop batchSize requests))"
  by pat_completeness auto
termination by (relation "measure (\<lambda>(r, n, q). length q)") auto

declare flushRequests.simps [simp del]

lemma answerBatch_addresses [simp]: "map fst (answerBatch readBatch batch) = batch"
  by (simp add: answerBatch_def comp_def map_nth split: option.split)

text \<open>A batch reader that only answers with the balances \<open>b\<close>, on the batches the flush makes.\<close>

definition truthfulReader :: "(string list \<Rightarrow> int option list option) \<Rightarrow> nat \<Rightarrow> (string \<Rightarrow> int) \<Rightarrow> bool" where
  "truthfulReader readBatch batchSize b \<longleftrightarrow> (\<forall>batch balances. readBatch batch = Some balances \<longrightarrow>
     length batch \<le> batchSize \<longrightarrow> (\<forall>i < length batch. i < length balances \<longrightarrow>
       balances ! i = None \<or> balances ! i = Some (b (batch ! i))))"

lemma answerBatch_truthful:
  assumes "truthfulReader readBatch n b" "length batch \<le> n" "(a, r) \<in> set (answerBatch readBatch batch)"
  shows "r = None \<or> r = Some (b a)"
proof (cases "readBatch batch")
  case None
  then show ?thesis using assms(3) by (auto simp: answerBatch_def)
next
  case (Some bs)
  have "bs ! i = None \<or> bs ! i = Some (b (batch ! i))" if "i < length batch" "i < length bs" for i
    using assms(1,2) Some that unfolding truthfulReader_def by blast
  moreover obtain i where "i < length batch" "a = batch ! i" "r = (if i < length bs then bs ! i else None)"
    using assms(3) Some by (auto simp: answerBatch_def)
  ultimately show ?thesis by (cases "i < length bs") auto
qed

lemma flush_unfold:
  "requests \<noteq> [] \<Longrightarrow> 0 < n \<Longrightarrow> flushRequests readBatch n requests =
     answerBatch readBatch (take n requests) @ flushRequests readBatch n (drop n requests)"
  by (subst flushRequests.simps) simp

text \<open>
  Every balance request is answered: one flush of the batched reader gives each pending request
  exactly one answer, in the order they were made, even when whole batches fail; the reader is only
  asked for batches of the configured size, and an answer that is a balance is the one read for that
  very address.
\<close>

theorem every_read_answered:
  assumes "0 < batchSize"
  shows "map fst (flushRequests readBatch batchSize requests) = requests \<and>
    (truthfulReader readBatch batchSize b \<longrightarrow>
      (\<forall>(a, r) \<in> set (flushRequests readBatch batchSize requests). r = None \<or> r = Some (b a)))"
proof (induction requests rule: length_induct)
  case (1 requests)
  show ?case
  proof (cases "requests = []")
    case False
    then have shorter: "length (drop batchSize requests) < length requests" using assms by simp
    have "length (take batchSize requests) \<le> batchSize" by simp
    then show ?thesis
      using 1 [rule_format, OF shorter] answerBatch_truthful [of readBatch batchSize b "take batchSize requests"]
      unfolding flush_unfold [OF False assms] by (auto simp: ball_Un)
  qed (simp add: flushRequests.simps)
qed

theorem every_read_answered_witness:
  "map fst (flushRequests (\<lambda>b. None) 50 [''0x5a'', ''0x5b'']) = [''0x5a'', ''0x5b'']"
  using every_read_answered [of 50 "\<lambda>b. None" "[''0x5a'', ''0x5b'']"] by simp

section \<open>The escrow gate\<close>

text \<open>
  The cache holds promises. A promise is a number; \<open>ec_reads\<close> gives its key, the auction it was
  started in and its state. \<open>getBalance\<close> returns the promise its caller awaits.
\<close>

datatype promise = Waiting | Resolved int | Failed

record escrow_cache =
  ec_cache :: "(string, nat) jsmap"
  ec_reads :: "(nat, string \<times> nat \<times> promise) jsmap"
  ec_next :: nat
  ec_auction :: nat

definition escrow_beginAuction :: "escrow_cache \<Rightarrow> escrow_cache" where
  "escrow_beginAuction c = c\<lparr>ec_cache := [], ec_auction := ec_auction c + 1\<rparr>"

definition newPromise :: "string \<Rightarrow> promise \<Rightarrow> escrow_cache \<Rightarrow> escrow_cache" where
  "newPromise key pr c = c\<lparr>ec_cache := jm_set key (ec_next c) (ec_cache c),
     ec_reads := jm_set (ec_next c) (key, ec_auction c, pr) (ec_reads c), ec_next := ec_next c + 1\<rparr>"

definition prefetchBalances :: "string list \<Rightarrow> int option list option \<Rightarrow> escrow_cache \<Rightarrow> escrow_cache" where
  "prefetchBalances addresses balances c =
     (case balances of
        None \<Rightarrow> c
      | Some bs \<Rightarrow>
          if addresses = [] then c
          else fold (\<lambda>(a, b) c. case b of None \<Rightarrow> c | Some v \<Rightarrow> newPromise (lower a) (Resolved v) c)
            (zip addresses bs) c)"

definition getBalance :: "string \<Rightarrow> escrow_cache \<Rightarrow> nat \<times> escrow_cache" where
  "getBalance subSolver c =
     (case jm_get (ec_cache c) (lower subSolver) of
        Some i \<Rightarrow> (i, c)
      | None \<Rightarrow> (ec_next c, newPromise (lower subSolver) Waiting c))"

text \<open>A read ends; a failed one leaves the cache unless the key holds another promise by then.\<close>

definition settleRead :: "nat \<Rightarrow> int option \<Rightarrow> escrow_cache \<Rightarrow> escrow_cache" where
  "settleRead i answer c =
     (case jm_get (ec_reads c) i of
        Some (key, auction, Waiting) \<Rightarrow>
          (case answer of
             Some b \<Rightarrow> c\<lparr>ec_reads := jm_set i (key, auction, Resolved b) (ec_reads c)\<rparr>
           | None \<Rightarrow> c\<lparr>ec_reads := jm_set i (key, auction, Failed) (ec_reads c),
               ec_cache := (if jm_get (ec_cache c) key = Some i then jm_delete key (ec_cache c) else ec_cache c)\<rparr>)
      | _ \<Rightarrow> c)"

definition escrowVerdict :: "int \<Rightarrow> int option \<Rightarrow> verdict option" where
  "escrowVerdict minCollateral balance =
     (case balance of
        None \<Rightarrow> None
      | Some b \<Rightarrow> Some (if b < minCollateral then Reject InsufficientEscrow else Accept None))"

inductive escrow_step :: "escrow_cache \<Rightarrow> escrow_cache \<Rightarrow> bool" where
  es_begin: "escrow_step c (escrow_beginAuction c)"
| es_prefetch: "escrow_step c (prefetchBalances addresses balances c)"
| es_get: "escrow_step c (snd (getBalance subSolver c))"
| es_settle: "escrow_step c (settleRead i answer c)"

definition escrow_init :: "escrow_cache \<Rightarrow> bool" where
  "escrow_init c \<longleftrightarrow> ec_cache c = [] \<and> ec_reads c = []"

text \<open>A cached promise was started for its key in the current auction and has not failed.\<close>

definition cached_fresh :: "escrow_cache \<Rightarrow> bool" where
  "cached_fresh c \<longleftrightarrow>
     (\<forall>key i. jm_get (ec_cache c) key = Some i \<longrightarrow>
        (\<exists>pr. jm_get (ec_reads c) i = Some (key, ec_auction c, pr) \<and> pr \<noteq> Failed)) \<and>
     (\<forall>i r. jm_get (ec_reads c) i = Some r \<longrightarrow> i < ec_next c)"

lemma fresh_newPromise: "cached_fresh c \<Longrightarrow> pr \<noteq> Failed \<Longrightarrow> cached_fresh (newPromise key pr c)"
  unfolding cached_fresh_def
proof (intro conjI allI impI)
  let ?c = "newPromise key pr c"
  assume inv: "(\<forall>key i. jm_get (ec_cache c) key = Some i \<longrightarrow>
        (\<exists>pr. jm_get (ec_reads c) i = Some (key, ec_auction c, pr) \<and> pr \<noteq> Failed)) \<and>
     (\<forall>i r. jm_get (ec_reads c) i = Some r \<longrightarrow> i < ec_next c)" and pr: "pr \<noteq> Failed"
  show "\<exists>pr. jm_get (ec_reads ?c) i = Some (k, ec_auction ?c, pr) \<and> pr \<noteq> Failed"
    if c: "jm_get (ec_cache ?c) k = Some i" for k i
  proof (cases "k = key")
    case True
    then show ?thesis using c pr by (simp add: newPromise_def jm_get_set)
  next
    case False
    then have "jm_get (ec_cache c) k = Some i" using c by (simp add: newPromise_def jm_get_set)
    then obtain pr' where "jm_get (ec_reads c) i = Some (k, ec_auction c, pr')" "pr' \<noteq> Failed" "i < ec_next c"
      using inv by blast
    then show ?thesis by (simp add: newPromise_def jm_get_set)
  qed
  show "i < ec_next ?c" if "jm_get (ec_reads ?c) i = Some r" for i r
  proof (cases "i = ec_next c")
    case False
    then have "jm_get (ec_reads c) i = Some r" using that by (simp add: newPromise_def jm_get_set)
    then have "i < ec_next c" using inv by blast
    then show ?thesis by (simp add: newPromise_def)
  qed (simp add: newPromise_def)
qed

lemma fresh_prefetch: "cached_fresh c \<Longrightarrow> cached_fresh (prefetchBalances addresses balances c)"
proof -
  have "cached_fresh (fold (\<lambda>(a, b) c. case b of None \<Rightarrow> c | Some v \<Rightarrow> newPromise (lower a) (Resolved v) c) xs c)"
    if "cached_fresh c" for xs c
    using that
  proof (induction xs arbitrary: c)
    case (Cons x xs)
    have "cached_fresh (newPromise k (Resolved v) c)" for k v using Cons.prems by (rule fresh_newPromise) simp
    then show ?case using Cons by (cases x) (simp split: option.split)
  qed simp
  then show "cached_fresh c \<Longrightarrow> cached_fresh (prefetchBalances addresses balances c)"
    by (simp add: prefetchBalances_def split: option.split)
qed

lemma fresh_settle:
  assumes inv: "cached_fresh c"
  shows "cached_fresh (settleRead i answer c)"
proof (cases "\<exists>key auction. jm_get (ec_reads c) i = Some (key, auction, Waiting)")
  case False
  then have "settleRead i answer c = c" by (auto simp: settleRead_def split: option.splits promise.splits)
  then show ?thesis using inv by simp
next
  case True
  then obtain key auction where i: "jm_get (ec_reads c) i = Some (key, auction, Waiting)" by blast
  have low: "i < ec_next c" "\<And>j r. jm_get (ec_reads c) j = Some r \<Longrightarrow> j < ec_next c"
    using inv i unfolding cached_fresh_def by blast+
  have cached: "\<exists>pr. jm_get (ec_reads c) j = Some (k, ec_auction c, pr) \<and> pr \<noteq> Failed"
    if "jm_get (ec_cache c) k = Some j" for k j
    using inv that unfolding cached_fresh_def by blast
  have own: "k = key \<and> auction = ec_auction c" if "jm_get (ec_cache c) k = Some i" for k
    using cached [OF that] i by simp
  show ?thesis
  proof (cases answer)
    case None
    let ?cache = "if jm_get (ec_cache c) key = Some i then jm_delete key (ec_cache c) else ec_cache c"
    have cache: "ec_cache (settleRead i answer c) = ?cache" by (simp add: settleRead_def i None)
    have sub: "jm_get (ec_cache c) k = Some j" if "jm_get (ec_cache (settleRead i answer c)) k = Some j" for k j
      using that unfolding cache by (cases "jm_get (ec_cache c) key = Some i") (simp_all add: jm_get_delete split: if_splits)
    have other: "j \<noteq> i" if "jm_get (ec_cache (settleRead i answer c)) k = Some j" for k j
    proof
      assume "j = i"
      then have "jm_get (ec_cache c) key = Some i" "k = key" using sub [OF that] own by blast+
      then show False using that unfolding cache by (simp add: jm_get_delete)
    qed
    show ?thesis
      unfolding cached_fresh_def
    proof (intro conjI allI impI)
      fix k j assume c: "jm_get (ec_cache (settleRead i answer c)) k = Some j"
      from cached [OF sub [OF c]] other [OF c]
      show "\<exists>pr. jm_get (ec_reads (settleRead i answer c)) j = Some (k, ec_auction (settleRead i answer c), pr) \<and> pr \<noteq> Failed"
        by (simp add: settleRead_def i None jm_get_set)
    next
      fix j r assume "jm_get (ec_reads (settleRead i answer c)) j = Some r"
      then have "j = i \<or> jm_get (ec_reads c) j = Some r" by (simp add: settleRead_def i None jm_get_set split: if_splits)
      then have "j < ec_next c" using low by blast
      then show "j < ec_next (settleRead i answer c)" by (simp add: settleRead_def i None)
    qed
  next
    case (Some b)
    show ?thesis
      unfolding cached_fresh_def
    proof (intro conjI allI impI)
      fix k j assume "jm_get (ec_cache (settleRead i answer c)) k = Some j"
      then have c: "jm_get (ec_cache c) k = Some j" by (simp add: settleRead_def i Some)
      show "\<exists>pr. jm_get (ec_reads (settleRead i answer c)) j = Some (k, ec_auction (settleRead i answer c), pr) \<and> pr \<noteq> Failed"
      proof (cases "j = i")
        case True
        then have "k = key \<and> auction = ec_auction c" using own c by simp
        then show ?thesis using True by (simp add: settleRead_def i Some jm_get_set)
      next
        case False
        then show ?thesis using cached [OF c] by (simp add: settleRead_def i Some jm_get_set)
      qed
    next
      fix j r assume "jm_get (ec_reads (settleRead i answer c)) j = Some r"
      then have "j = i \<or> jm_get (ec_reads c) j = Some r" by (simp add: settleRead_def i Some jm_get_set split: if_splits)
      then have "j < ec_next c" using low by blast
      then show "j < ec_next (settleRead i answer c)" by (simp add: settleRead_def i Some)
    qed
  qed
qed

interpretation escrow: invariant_machine escrow_init escrow_step cached_fresh
proof
  fix c assume "escrow_init c"
  then show "cached_fresh c" by (simp add: escrow_init_def cached_fresh_def)
next
  fix c c' assume inv: "cached_fresh c" and "escrow_step c c'"
  from this(2) show "cached_fresh c'"
  proof cases
    case es_begin
    then show ?thesis using inv by (simp add: cached_fresh_def escrow_beginAuction_def)
  next
    case es_get
    then show ?thesis using inv fresh_newPromise by (simp add: getBalance_def split: option.split)
  qed (simp_all add: fresh_prefetch fresh_settle inv)
qed

text \<open>
  One authoritative read per sub-solver and auction, also for concurrent callers: in every reachable
  cache a caller is given a promise that was started for its sub-solver in the current auction and has
  not failed; asking again at once, under any letter case, starts no further read; and the failure of
  a read of an earlier auction never evicts a promise of the current one.
\<close>

theorem one_read_per_auction:
  assumes reach: "reachable escrow_init escrow_step c" and get: "getBalance a c = (i, c1)"
    and same: "lower b = lower a"
  shows "(\<exists>pr. jm_get (ec_reads c1) i = Some (lower a, ec_auction c, pr) \<and> pr \<noteq> Failed) \<and>
    getBalance b c1 = (i, c1) \<and>
    (\<forall>j key auction pr. jm_get (ec_reads c1) j = Some (key, auction, pr) \<and> auction \<noteq> ec_auction c \<longrightarrow>
       getBalance b (settleRead j None c1) = (i, settleRead j None c1))"
proof -
  have "cached_fresh c" using reach by (rule escrow.reachable_inv)
  moreover have "escrow_step c c1" using es_get [of c a] get by simp
  ultimately have inv: "cached_fresh c1" using escrow.inv_step by blast
  have i: "jm_get (ec_cache c1) (lower a) = Some i"
    using get by (auto simp: getBalance_def newPromise_def jm_get_set split: option.splits)
  have auc: "ec_auction c1 = ec_auction c"
    using get by (auto simp: getBalance_def newPromise_def split: option.splits)
  obtain pr where pr: "jm_get (ec_reads c1) i = Some (lower a, ec_auction c, pr)" "pr \<noteq> Failed"
    using inv i auc unfolding cached_fresh_def by metis
  have keep: "jm_get (ec_cache (settleRead j None c1)) (lower a) = Some i"
    if "jm_get (ec_reads c1) j = Some (key, auction, p)" "auction \<noteq> ec_auction c" for j key auction p
  proof -
    have "j \<noteq> i" using that pr by auto
    then show ?thesis using that i by (auto simp: settleRead_def jm_get_delete split: promise.split)
  qed
  show ?thesis using pr i keep by (auto simp: getBalance_def same)
qed

theorem one_read_per_auction_witness:
  "getBalance ''0x5A'' (snd (getBalance ''0x5a'' \<lparr>ec_cache = [], ec_reads = [], ec_next = 0, ec_auction = 1\<rparr>)) =
     (0, snd (getBalance ''0x5a'' \<lparr>ec_cache = [], ec_reads = [], ec_next = 0, ec_auction = 1\<rparr>))"
proof -
  let ?c = "\<lparr>ec_cache = [], ec_reads = [], ec_next = 0, ec_auction = 1\<rparr>"
  have "reachable escrow_init escrow_step ?c" by (rule reach_init) (simp add: escrow_init_def)
  moreover have "getBalance ''0x5a'' ?c = (0, snd (getBalance ''0x5a'' ?c))" by (simp add: getBalance_def)
  moreover have "lower ''0x5A'' = lower ''0x5a''" by code_simp
  ultimately show ?thesis by (rule one_read_per_auction [THEN conjunct2, THEN conjunct1])
qed

end
