(* ===== verification/Simulation_Gate.thy ===== *)
theory Simulation_Gate
  imports Validator Orders Collateral
begin

text \<open>
  \<open>SimulationValidator\<close> and \<open>ProposalValidator\<close> of \<open>apps/byos/src/infra/blockchain/validator.ts\<close>.
  What one validation reads is an environment (\<open>validation_env\<close>): the auction state, the in-flight
  proposals, the escrow balance, the two contract reads, the answer to \<open>eth_simulateV1\<close>. Log lines and
  the Tenderly link are left out. The abi decoder is a field of the environment.

  The lemmas say what an acceptance guarantees, that a failed read never decides a proposal's fate,
  and which reasons the validator can give.
\<close>

section \<open>Bytes and text\<close>

text \<open>
  \<open>Buffer.from(hex, "hex")\<close> stops at the first pair that is not hexadecimal. A string's characters
  are its UTF-8 bytes; \<open>toString("utf8")\<close> keeps well-formed sequences and puts U+FFFD for each
  maximal part of an ill-formed one.
\<close>

fun hexBytes :: "string \<Rightarrow> nat list" where
  "hexBytes (a # b # s) =
     (if is_hex_digit a \<and> is_hex_digit b then (base_val a * 16 + base_val b) # hexBytes s else [])"
| "hexBytes _ = []"

fun continuation :: "nat \<Rightarrow> nat \<Rightarrow> nat \<Rightarrow> nat list \<Rightarrow> nat list option \<times> nat list" where
  "continuation 0 lo hi bs = (Some [], bs)"
| "continuation (Suc n) lo hi [] = (None, [])"
| "continuation (Suc n) lo hi (b # bs) =
     (if lo \<le> b \<and> b \<le> hi then
        (case continuation n 128 191 bs of (r, rest) \<Rightarrow> (map_option ((#) b) r, rest))
      else (None, b # bs))"

lemma continuation_shorter: "continuation n lo hi bs = (r, rest) \<Longrightarrow> length rest \<le> length bs"
  by (induction n lo hi bs arbitrary: r rest rule: continuation.induct) (force split: if_splits prod.splits)+

definition leadByte :: "nat \<Rightarrow> (nat \<times> nat \<times> nat) option" where
  "leadByte b =
     (if b < 128 then Some (0, 128, 191)
      else if 194 \<le> b \<and> b \<le> 223 then Some (1, 128, 191)
      else if b = 224 then Some (2, 160, 191)
      else if b = 237 then Some (2, 128, 159)
      else if 225 \<le> b \<and> b \<le> 239 then Some (2, 128, 191)
      else if b = 240 then Some (3, 144, 191)
      else if 241 \<le> b \<and> b \<le> 243 then Some (3, 128, 191)
      else if b = 244 then Some (3, 128, 143)
      else None)"

function utf8 :: "nat list \<Rightarrow> nat list" where
  "utf8 [] = []"
| "utf8 (b # bs) =
     (case leadByte b of
        None \<Rightarrow> [239, 191, 189] @ utf8 bs
      | Some (n, lo, hi) \<Rightarrow>
          (case continuation n lo hi bs of
             (None, rest) \<Rightarrow> [239, 191, 189] @ utf8 rest
           | (Some tail, rest) \<Rightarrow> b # tail @ utf8 rest))"
  by pat_completeness auto
termination
  by (relation "measure length") (auto dest: continuation_shorter [OF sym] simp: less_Suc_eq_le)

definition utf8_string :: "nat list \<Rightarrow> string" where
  "utf8_string bs = map char_of (utf8 bs)"

section \<open>What a simulation answers\<close>

record sim_log =
  sl_address :: string
  sl_topics :: "string list"
  sl_data :: string

record sim_call =
  ca_returnData :: "string option"
  ca_logs :: "sim_log list"
  ca_gasUsed :: string
  ca_status :: string
  ca_error :: "(string \<times> string option) option"

record sim_request =
  rq_from :: string
  rq_to :: string
  rq_data :: string
  rq_stateOverrides :: "(string, string option \<times> (string \<times> string) list) jsmap"

datatype sim_response = TransportError | UnexpectedShape | SimResult sim_call

definition toSimulateV1StateOverrides :: "state_override list \<Rightarrow> (string, string option \<times> (string \<times> string) list) jsmap" where
  "toSimulateV1StateOverrides overrides =
     fold (\<lambda>ov. jm_set (ov_address ov) (if falsy (ov_code ov) then None else ov_code ov, ov_stateDiff ov)) overrides []"

text \<open>\<open>BigInt("0x")\<close> throws, which the source turns into null.\<close>

definition extractRevertReasonFromHex :: "string option \<Rightarrow> string option" where
  "extractRevertReasonFromHex data =
     (if falsy data \<or> data = Some ''0x'' then None
      else if take 10 (the data) \<noteq> ''0x08c379a0'' then None
      else let buf = hexBytes (drop 10 (the data)); word = take 32 (drop 32 buf) in
        if word = [] then None
        else let len = Number (int (foldl (\<lambda>v b. v * 256 + b) 0 word)) in
          Some (utf8_string (take (nat len) (drop 64 buf))))"

definition revertDataFrom :: "sim_call \<Rightarrow> string option" where
  "revertDataFrom call =
     (let errorData = Option.bind (ca_error call) snd in
      if \<not> falsy errorData \<and> errorData \<noteq> Some ''0x'' then errorData
      else if \<not> falsy (ca_returnData call) \<and> ca_returnData call \<noteq> Some ''0x'' then ca_returnData call
      else None)"

text \<open>The decoder answers \<open>None\<close> where viem throws: another event, or malformed data.\<close>

fun parseExecutedDelta :: "(string list \<Rightarrow> string \<Rightarrow> int option) \<Rightarrow> sim_log list \<Rightarrow> string \<Rightarrow> int option" where
  "parseExecutedDelta decodeExecuted [] trampoline = None"
| "parseExecutedDelta decodeExecuted (log # logs) trampoline =
     (if lower (sl_address log) \<noteq> lower trampoline then parseExecutedDelta decodeExecuted logs trampoline
      else (case decodeExecuted (sl_topics log) (sl_data log) of
              Some delta \<Rightarrow> Some delta
            | None \<Rightarrow> parseExecutedDelta decodeExecuted logs trampoline))"

section \<open>Thrown errors\<close>

text \<open>
  A thrown value: not an object, or an object with those of its properties the source looks at (a
  \<open>reason\<close> or \<open>data\<close> that is no string counts as absent). The chain of causes is finite.
\<close>

datatype thrown =
  NotAnObject
| ErrorObject (er_code: "int option") (er_name: "string option") (er_reason: "string option")
    (er_data: "string option") (er_cause: "thrown option")

fun isRevertError :: "thrown \<Rightarrow> bool" where
  "isRevertError NotAnObject = False"
| "isRevertError (ErrorObject code name reason data None) =
     (code = Some 3 \<or> name = Some ''ContractFunctionRevertedError'')"
| "isRevertError (ErrorObject code name reason data (Some cause)) =
     (code = Some 3 \<or> name = Some ''ContractFunctionRevertedError'' \<or> isRevertError cause)"

fun extractRevertReasonFromThrown :: "thrown \<Rightarrow> string option" where
  "extractRevertReasonFromThrown NotAnObject = None"
| "extractRevertReasonFromThrown (ErrorObject code name reason data cause) =
     (if name = Some ''ContractFunctionRevertedError'' \<and> reason \<noteq> None then reason
      else if code = Some 3 \<and> data \<noteq> None \<and> take 10 (the data) = ''0x08c379a0''
        then extractRevertReasonFromHex data
      else (case cause of None \<Rightarrow> None | Some e \<Rightarrow> extractRevertReasonFromThrown e))"

section \<open>The simulation validator\<close>

record validator_config =
  vc_settlement :: string
  vc_escrow :: string
  vc_minScore :: int
  vc_maxSlippageBps :: int
  vc_maxSlippageNative :: int
  vc_collateralRatioBps :: int
  vc_minCollateral :: int
  vc_submitter :: "string option"
  vc_chainId :: "int option"
  vc_lib :: chain_lib
  vc_authenticatorCode :: string
  vc_submitterRole :: string
  vc_decodeExecuted :: "string list \<Rightarrow> string \<Rightarrow> int option"

text \<open>\<open>ve_state\<close> is \<open>None\<close> when reading the shared key throws, \<open>Some None\<close> when no auction is open.\<close>

record validation_env =
  ve_state :: "auction_state option option"
  ve_inflight :: "(inflight_proposal list \<times> int) option"
  ve_balance :: "int option"
  ve_addressOf :: "string \<Rightarrow> thrown + string"
  ve_authenticator :: "string option"
  ve_simulate :: "sim_request \<Rightarrow> sim_response"
  ve_blockNumber :: "int option"
  ve_now :: int

record sim_cache =
  trampolineCache :: "(string, string) jsmap"
  authenticatorCache :: "string option"

datatype validation = Verdict verdict | Deferred | Throws

definition resolveTrampoline :: "validation_env \<Rightarrow> string \<Rightarrow> sim_cache \<Rightarrow> (thrown + string) \<times> sim_cache" where
  "resolveTrampoline env subSolver c =
     (let cached = jm_get (trampolineCache c) (lower subSolver) in
      if \<not> falsy cached then (Inr (the cached), c)
      else (case ve_addressOf env subSolver of
              Inl e \<Rightarrow> (Inl e, c)
            | Inr t \<Rightarrow> (Inr t, c\<lparr>trampolineCache := jm_set (lower subSolver) t (trampolineCache c)\<rparr>)))"

definition resolveAuthenticator :: "validation_env \<Rightarrow> sim_cache \<Rightarrow> string option \<times> sim_cache" where
  "resolveAuthenticator env c =
     (if \<not> falsy (authenticatorCache c) then (authenticatorCache c, c)
      else (case ve_authenticator env of
              None \<Rightarrow> (None, c)
            | Some a \<Rightarrow> (Some a, c\<lparr>authenticatorCache := Some a\<rparr>)))"

definition chooseTrampoline :: "validation_env \<Rightarrow> proposal \<Rightarrow> sim_cache \<Rightarrow> (thrown + string) \<times> sim_cache" where
  "chooseTrampoline env p c =
     (if \<not> falsy (p_trampoline p) then (Inr (the (p_trampoline p)), c)
      else resolveTrampoline env (p_subSolver p) c)"

definition profitability :: "int \<Rightarrow> proposal \<Rightarrow> order_record \<Rightarrow> int \<Rightarrow> int \<Rightarrow> int \<Rightarrow> bool" where
  "profitability minScore p rec gas surplusPrice gasPrice =
     (case scaledToFill (scoringCandidateOf (order rec) p (effectiveBuyAmount p) (effectiveGas gas * gasPrice))
             (o_partiallyFillable (order rec)) of
        None \<Rightarrow> False
      | Some scaled \<Rightarrow>
          (case scoreProposal scaled surplusPrice of None \<Rightarrow> False | Some score \<Rightarrow> minScore < score))"

text \<open>The checks before any contract read: the order, its prices, the envelope, the slippage.\<close>

definition staticGates :: "validator_config \<Rightarrow> auction_state \<Rightarrow> proposal \<Rightarrow>
    rejection_reason + (order_record \<times> int \<times> int)" where
  "staticGates cfg st p =
     (case jm_get (as_orders st) (lower (p_orderUid p)) of
        None \<Rightarrow> Inl OrderNotFound
      | Some rec \<Rightarrow>
     (case jm_get (as_prices st) (lower (p_sellToken p)) of
        None \<Rightarrow> Inl NativePriceUnavailable
      | Some refPrice \<Rightarrow>
     (if refPrice \<le> 0 then Inl NativePriceUnavailable
      else let isSell = (o_kind (order rec) = SELL);
               nativePrice = (if isSell then
                 (case jm_get (as_prices st) (lower (p_buyToken p)) of
                    None \<Rightarrow> None | Some q \<Rightarrow> if q = 0 then None else Some q) else Some 0) in
       (case nativePrice of
          None \<Rightarrow> Inl NativePriceUnavailable
        | Some nativePrice \<Rightarrow>
       (case jm_get (as_prices st) (lower (surplusToken isSell (o_sellToken (order rec)) (o_buyToken (order rec)))) of
          None \<Rightarrow> Inl NativePriceUnavailable
        | Some surplusPrice \<Rightarrow>
       (if surplusPrice = 0 then Inl NativePriceUnavailable
        else (case checkEnvelope rec p of
           Some r \<Rightarrow> Inl r
         | None \<Rightarrow>
        (case checkProposalSlippage rec p nativePrice (vc_maxSlippageBps cfg) (vc_maxSlippageNative cfg) of
           Some r \<Rightarrow> Inl r
         | None \<Rightarrow> Inr (rec, refPrice, surplusPrice)))))))))"

definition contractProposalOf :: "proposal \<Rightarrow> contract_proposal" where
  "contractProposalOf p =
     \<lparr>cp_orderUidHash = p_orderUidHash p, cp_sellToken = p_sellToken p, cp_buyToken = p_buyToken p,
      cp_sellAmount = p_sellAmount p, cp_minBuyAmount = p_minBuyAmount p, cp_quoteBuyAmount = p_quoteBuyAmount p,
      cp_validUntil = p_validUntil p, cp_nonce = p_nonce p\<rparr>"

definition simulationFor :: "validator_config \<Rightarrow> order_record \<Rightarrow> proposal \<Rightarrow> string \<Rightarrow> string \<Rightarrow> simulation" where
  "simulationFor cfg rec p trampoline authenticator =
     buildSimulation (vc_lib cfg) (vc_authenticatorCode cfg) (vc_submitterRole cfg)
       \<lparr>sp_settlement = vc_settlement cfg, sp_authenticator = authenticator, sp_escrow = vc_escrow cfg,
        sp_trampoline = trampoline,
        sp_order = simulationOrder (vc_lib cfg) (order rec) (p_orderUid p) (vc_chainId cfg) (vc_settlement cfg),
        sp_proposal = contractProposalOf p, sp_route = p_interactions p, sp_signature = p_signature p,
        sp_preInteractions = preInteractions rec, sp_postInteractions = postInteractions rec,
        sp_submitter = vc_submitter cfg\<rparr>"

definition simulateRequest :: "validator_config \<Rightarrow> simulation \<Rightarrow> sim_request" where
  "simulateRequest cfg sim =
     \<lparr>rq_from = sim_submitter sim, rq_to = vc_settlement cfg, rq_data = sim_calldata sim,
      rq_stateOverrides = toSimulateV1StateOverrides (sim_stateOverride sim)\<rparr>"

definition revertVerdict :: "validator_config \<Rightarrow> validation_env \<Rightarrow> simulation \<Rightarrow> sim_call \<Rightarrow> verdict" where
  "revertVerdict cfg env sim call =
     (let revertReason = (case extractRevertReasonFromHex (revertDataFrom call) of
            Some r \<Rightarrow> r
          | None \<Rightarrow> (case ca_error call of Some (message, _) \<Rightarrow> message | None \<Rightarrow> ''execution reverted''));
          params = (case (vc_chainId cfg, ve_blockNumber env) of
            (Some chainId, Some blockNumber) \<Rightarrow>
              (if chainId = 0 then None
               else Some \<lparr>sf_chainId = chainId, sf_blockNumber = bigint_str blockNumber,
                 sf_timestamp = ve_now env div 1000, sf_from = sim_submitter sim, sf_to = vc_settlement cfg,
                 sf_calldata = sim_calldata sim\<rparr>)
          | _ \<Rightarrow> None)
      in SimFailedVerdict params (Some revertReason))"

definition siblingExposure :: "validator_config \<Rightarrow> int \<Rightarrow> inflight_proposal list \<Rightarrow> int" where
  "siblingExposure cfg gasPrice ps =
     foldl (\<lambda>acc p.
       let cap = penaltyCap (if_sellAmountNative p) (vc_collateralRatioBps cfg) (vc_minCollateral cfg);
           siblingGas = (case if_gasUsed p of None \<Rightarrow> ESCROW_GAS_ESTIMATION | Some g \<Rightarrow> g)
       in acc + (cap + siblingGas * gasPrice)) 0 ps"

definition currentExposure :: "validator_config \<Rightarrow> proposal \<Rightarrow> int \<Rightarrow> int \<Rightarrow> int \<Rightarrow> int" where
  "currentExposure cfg p refPrice gas gasPrice =
     perProposalCL (p_sellAmount p) (Some refPrice) (vc_collateralRatioBps cfg) (vc_minCollateral cfg) + gas * gasPrice"

text \<open>A simulated call that did not revert: the event, the exposure, the profitability.\<close>

definition judgeExecuted :: "validator_config \<Rightarrow> validation_env \<Rightarrow> auction_state \<Rightarrow> proposal \<Rightarrow>
    order_record \<times> int \<times> int \<Rightarrow> string \<Rightarrow> sim_call \<Rightarrow> validation" where
  "judgeExecuted cfg env st p g trampoline call =
     (case g of (rec, refPrice, surplusPrice) \<Rightarrow>
      (case parseExecutedDelta (vc_decodeExecuted cfg) (ca_logs call) trampoline of
         None \<Rightarrow> Verdict (Reject SimulationMissingExecutedEvent)
       | Some delta \<Rightarrow>
      (case BigInt (ca_gasUsed call) of
         None \<Rightarrow> Throws
       | Some gas \<Rightarrow>
      (case ve_inflight env of
         None \<Rightarrow> Deferred
       | Some (inflight, bufferBalance) \<Rightarrow>
      (case ve_balance env of
         None \<Rightarrow> Deferred
       | Some escrowBalance \<Rightarrow>
      (if siblingExposure cfg (as_gasPrice st) inflight + currentExposure cfg p refPrice gas (as_gasPrice st)
            > availableCollateral escrowBalance bufferBalance
       then Verdict (Reject ExposureCapExceeded)
       else if p_status p = Submitted \<and>
         \<not> profitability (vc_minScore cfg) (p\<lparr>p_simulationBuyAmount := Some delta\<rparr>) rec gas surplusPrice (as_gasPrice st)
       then Verdict (Reject Unprofitable)
       else Verdict (Accept (Some \<lparr>so_gasUsed = gas, so_trampoline = trampoline,
         so_sellToken = o_sellToken (order rec), so_buyToken = o_buyToken (order rec),
         so_simulationBuyAmount = delta, so_sellTokenRefPrice = refPrice\<rparr>))))))))"

definition judgeResponse :: "validator_config \<Rightarrow> validation_env \<Rightarrow> auction_state \<Rightarrow> proposal \<Rightarrow>
    order_record \<times> int \<times> int \<Rightarrow> string \<Rightarrow> simulation \<Rightarrow> validation" where
  "judgeResponse cfg env st p g trampoline sim =
     (case ve_simulate env (simulateRequest cfg sim) of
        TransportError \<Rightarrow> Deferred
      | UnexpectedShape \<Rightarrow> Deferred
      | SimResult call \<Rightarrow>
          if ca_status call = ''0x0'' then Verdict (revertVerdict cfg env sim call)
          else judgeExecuted cfg env st p g trampoline call)"

definition SimulationValidator_validate :: "validator_config \<Rightarrow> validation_env \<Rightarrow> proposal \<Rightarrow> sim_cache \<Rightarrow> validation \<times> sim_cache" where
  "SimulationValidator_validate cfg env p c =
     (case ve_state env of
        None \<Rightarrow> (Throws, c)
      | Some None \<Rightarrow> (Deferred, c)
      | Some (Some st) \<Rightarrow>
     (case staticGates cfg st p of
        Inl r \<Rightarrow> (Verdict (Reject r), c)
      | Inr g \<Rightarrow>
          let (trampolineResult, c1) = chooseTrampoline env p c;
              (authenticatorResult, c2) = resolveAuthenticator env c1 in
          (case trampolineResult of
             Inl e \<Rightarrow> (if isRevertError e then Verdict (SimFailedVerdict None (extractRevertReasonFromThrown e))
                       else Deferred, c2)
           | Inr trampoline \<Rightarrow>
               (case authenticatorResult of
                  None \<Rightarrow> (Deferred, c2)
                | Some authenticator \<Rightarrow>
                    (judgeResponse cfg env st p g trampoline (simulationFor cfg (fst g) p trampoline authenticator), c2)))))"

text \<open>\<open>escrowBalance\<close> is what the awaited promise of the escrow cache answered.\<close>

definition ProposalValidator_validate ::
    "validator_config \<Rightarrow> int option \<Rightarrow> validation_env \<Rightarrow> proposal \<Rightarrow> sim_cache \<Rightarrow> validation \<times> sim_cache" where
  "ProposalValidator_validate cfg escrowBalance env p c =
     (case escrowVerdict (vc_minCollateral cfg) escrowBalance of
        None \<Rightarrow> (Deferred, c)
      | Some (Accept _) \<Rightarrow> SimulationValidator_validate cfg env p c
      | Some v \<Rightarrow> (Verdict v, c))"

section \<open>What an acceptance guarantees\<close>

lemma parseExecutedDelta_SomeD:
  "parseExecutedDelta d logs t = Some delta \<Longrightarrow>
   \<exists>log \<in> set logs. lower (sl_address log) = lower t \<and> d (sl_topics log) (sl_data log) = Some delta"
  by (induction d logs t rule: parseExecutedDelta.induct) (auto split: if_splits option.splits)

lemma staticGates_InrD:
  assumes "staticGates cfg st p = Inr (rec, refPrice, surplusPrice)"
  shows "jm_get (as_orders st) (lower (p_orderUid p)) = Some rec \<and>
    jm_get (as_prices st) (lower (p_sellToken p)) = Some refPrice \<and> 0 < refPrice \<and> surplusPrice \<noteq> 0 \<and>
    checkEnvelope rec p = None \<and>
    (\<exists>nativePrice. checkProposalSlippage rec p nativePrice (vc_maxSlippageBps cfg) (vc_maxSlippageNative cfg) = None)"
  using assms by (auto simp: staticGates_def Let_def split: option.splits if_splits)

lemma judgeExecuted_AcceptD:
  assumes "judgeExecuted cfg env st p (rec, refPrice, surplusPrice) trampoline call = Verdict (Accept so)"
  shows "\<exists>out inflight bufferBalance escrowBalance. so = Some out \<and> so_trampoline out = trampoline \<and>
    so_sellTokenRefPrice out = refPrice \<and>
    parseExecutedDelta (vc_decodeExecuted cfg) (ca_logs call) trampoline = Some (so_simulationBuyAmount out) \<and>
    BigInt (ca_gasUsed call) = Some (so_gasUsed out) \<and>
    ve_inflight env = Some (inflight, bufferBalance) \<and> ve_balance env = Some escrowBalance \<and>
    siblingExposure cfg (as_gasPrice st) inflight +
      currentExposure cfg p refPrice (so_gasUsed out) (as_gasPrice st) \<le> availableCollateral escrowBalance bufferBalance \<and>
    (p_status p = Submitted \<longrightarrow>
       profitability (vc_minScore cfg) (p\<lparr>p_simulationBuyAmount := Some (so_simulationBuyAmount out)\<rparr>) rec
         (so_gasUsed out) surplusPrice (as_gasPrice st))"
  using assms unfolding judgeExecuted_def
  by (auto split: option.splits prod.splits if_splits)

lemma revertVerdict_SimFailed [simp]: "revertVerdict cfg env sim call \<noteq> Accept so" "revertVerdict cfg env sim call \<noteq> Reject r"
  by (simp_all add: revertVerdict_def Let_def)

text \<open>The ways a validation ends, by the stage it reached.\<close>

lemma validate_stages:
  obtains "ve_state env = None" "fst (SimulationValidator_validate cfg env p c) = Throws"
  | "ve_state env = Some None" "fst (SimulationValidator_validate cfg env p c) = Deferred"
  | st r where "ve_state env = Some (Some st)" "staticGates cfg st p = Inl r"
      "fst (SimulationValidator_validate cfg env p c) = Verdict (Reject r)"
  | st g e where "ve_state env = Some (Some st)" "staticGates cfg st p = Inr g" "fst (chooseTrampoline env p c) = Inl e"
      "fst (SimulationValidator_validate cfg env p c) =
         (if isRevertError e then Verdict (SimFailedVerdict None (extractRevertReasonFromThrown e)) else Deferred)"
  | st g t where "ve_state env = Some (Some st)" "staticGates cfg st p = Inr g" "fst (chooseTrampoline env p c) = Inr t"
      "fst (resolveAuthenticator env (snd (chooseTrampoline env p c))) = None"
      "fst (SimulationValidator_validate cfg env p c) = Deferred"
  | st g t a where "ve_state env = Some (Some st)" "staticGates cfg st p = Inr g" "fst (chooseTrampoline env p c) = Inr t"
      "fst (resolveAuthenticator env (snd (chooseTrampoline env p c))) = Some a"
      "fst (SimulationValidator_validate cfg env p c) =
         judgeResponse cfg env st p g t (simulationFor cfg (fst g) p t a)"
proof (cases "ve_state env")
  case None
  then show thesis using that(1) by (simp add: SimulationValidator_validate_def)
next
  case (Some s)
  show thesis
  proof (cases s)
    case None
    then show thesis using Some that(2) by (simp add: SimulationValidator_validate_def)
  next
    case (Some st)
    with \<open>ve_state env = Some s\<close> have st: "ve_state env = Some (Some st)" by simp
    obtain tr c1 where tr: "chooseTrampoline env p c = (tr, c1)" by fastforce
    obtain au c2 where au: "resolveAuthenticator env c1 = (au, c2)" by fastforce
    show thesis
    proof (cases "staticGates cfg st p")
      case (Inl r)
      then show thesis using st that(3) by (simp add: SimulationValidator_validate_def)
    next
      case (Inr g)
      note eq = SimulationValidator_validate_def st Inr tr au
      show thesis
      proof (cases tr)
        case (Inl e)
        then show thesis using st \<open>staticGates cfg st p = Inr g\<close> tr that(4) by (simp add: eq)
      next
        case t: (Inr t)
        show thesis
        proof (cases au)
          case None
          show thesis by (rule that(5) [of st g t]) (simp_all add: eq t None)
        next
          case (Some a)
          show thesis by (rule that(6) [of st g t a]) (simp_all add: eq t Some)
        qed
      qed
    qed
  qed
qed

lemma validate_AcceptD:
  assumes "fst (SimulationValidator_validate cfg env p c) = Verdict (Accept so)"
  shows "\<exists>st rec refPrice surplusPrice trampoline authenticator call.
    ve_state env = Some (Some st) \<and> staticGates cfg st p = Inr (rec, refPrice, surplusPrice) \<and>
    ve_simulate env (simulateRequest cfg (simulationFor cfg rec p trampoline authenticator)) = SimResult call \<and>
    ca_status call \<noteq> ''0x0'' \<and>
    judgeExecuted cfg env st p (rec, refPrice, surplusPrice) trampoline call = Verdict (Accept so)"
proof (cases rule: validate_stages [of env cfg p c])
  case (6 st g t a)
  obtain rec refPrice surplusPrice where g: "g = (rec, refPrice, surplusPrice)" by (cases g) auto
  have "judgeResponse cfg env st p g t (simulationFor cfg rec p t a) = Verdict (Accept so)"
    using 6(5) assms g by simp
  then obtain call where "ve_simulate env (simulateRequest cfg (simulationFor cfg rec p t a)) = SimResult call"
    "ca_status call \<noteq> ''0x0''" "judgeExecuted cfg env st p g t call = Verdict (Accept so)"
    by (auto simp: judgeResponse_def split: sim_response.splits if_splits)
  then show ?thesis using 6(1,2) g by blast
qed (use assms in \<open>auto split: if_splits\<close>)

text \<open>
  A proposal validated against concrete reads: a cooperative chain whose simulation delivers the quote.
\<close>

definition exampleLib :: chain_lib where
  "exampleLib = \<lparr>cl_encodeTransfer = \<lambda>a v. ''0xa9'', cl_encodeExecute = \<lambda>p is s. ''0xe0'',
     cl_encodeWithdraw = \<lambda>v. ''0x2e'', cl_encodeSettle = \<lambda>ts ps trs is. ''0x13'', cl_buyEthAddress = ''0xee'',
     cl_wrappedToken = \<lambda>c. None, cl_orderDigest = \<lambda>c s o'. ''0x00'', cl_keccak = \<lambda>s. s, cl_concat = concat,
     cl_pad32 = \<lambda>s. s, cl_numberToHex = \<lambda>n. ''0x1''\<rparr>"

definition exampleConfig :: validator_config where
  "exampleConfig = \<lparr>vc_settlement = ''0x90'', vc_escrow = ''0x91'', vc_minScore = 0, vc_maxSlippageBps = 2000,
     vc_maxSlippageNative = 10, vc_collateralRatioBps = 4, vc_minCollateral = 1000, vc_submitter = None,
     vc_chainId = Some 100, vc_lib = exampleLib, vc_authenticatorCode = ''0x60'', vc_submitterRole = ''0x61'',
     vc_decodeExecuted = \<lambda>topics d. if topics = [''0xe1''] then Some 20 else None\<rparr>"

definition exampleCall :: sim_call where
  "exampleCall = \<lparr>ca_returnData = Some ''0x'', ca_logs = [\<lparr>sl_address = ''0x77'', sl_topics = [''0xe1''], sl_data = ''0x''\<rparr>],
     ca_gasUsed = ''0x10'', ca_status = ''0x1'', ca_error = None\<rparr>"

definition exampleReads :: validation_env where
  "exampleReads = \<lparr>ve_state = Some (Some (exampleState\<lparr>as_gasPrice := 0\<rparr>)), ve_inflight = Some ([], 0),
     ve_balance = Some 5000, ve_addressOf = \<lambda>a. Inr ''0x77'', ve_authenticator = Some ''0x92'',
     ve_simulate = \<lambda>rq. SimResult exampleCall, ve_blockNumber = Some 1, ve_now = 0\<rparr>"

definition emptyCache :: sim_cache where
  "emptyCache = \<lparr>trampolineCache = [], authenticatorCache = None\<rparr>"

definition exampleOutcome :: simulation_outcome where
  "exampleOutcome = \<lparr>so_gasUsed = 16, so_trampoline = ''0x77'', so_sellToken = ''0xA1'', so_buyToken = ''0xB2'',
     so_simulationBuyAmount = 20, so_sellTokenRefPrice = 10 ^ 18\<rparr>"

lemma example_accepted:
  "fst (ProposalValidator_validate exampleConfig (Some 5000) exampleReads exampleProposal emptyCache) =
     Verdict (Accept (Some exampleOutcome))"
  by code_simp

lemma proposal_validate_AcceptD:
  assumes "fst (ProposalValidator_validate cfg bal env p c) = Verdict (Accept (Some out))"
  shows "(\<exists>b. bal = Some b \<and> vc_minCollateral cfg \<le> b) \<and>
    fst (SimulationValidator_validate cfg env p c) = Verdict (Accept (Some out))"
  using assms by (auto simp: ProposalValidator_validate_def escrowVerdict_def split: option.splits if_splits)



section \<open>Collateral behind accepted proposals\<close>

text \<open>What a revert of an in-flight proposal costs: its gas at the auction's price and its cap.\<close>

definition inflightDebit :: "validator_config \<Rightarrow> int \<Rightarrow> inflight_proposal \<Rightarrow> int" where
  "inflightDebit cfg gasPrice q =
     revertDebit ((case if_gasUsed q of None \<Rightarrow> ESCROW_GAS_ESTIMATION | Some g \<Rightarrow> g) * gasPrice)
       (penaltyCap (if_sellAmountNative q) (vc_collateralRatioBps cfg) (vc_minCollateral cfg))"

lemma siblingExposure_sum: "siblingExposure cfg gasPrice ps = sum_list (map (inflightDebit cfg gasPrice) ps)"
proof -
  have "foldl (\<lambda>acc p. acc + f p) a ps = a + sum_list (map f ps)" for f :: "inflight_proposal \<Rightarrow> int" and a
    by (induction ps arbitrary: a) (simp_all add: algebra_simps)
  moreover have "siblingExposure cfg gasPrice ps = foldl (\<lambda>acc p. acc + inflightDebit cfg gasPrice p) 0 ps"
    unfolding siblingExposure_def inflightDebit_def revertDebit_def Let_def by (simp add: add.commute)
  ultimately show ?thesis by simp
qed

lemma currentExposure_debit:
  "currentExposure cfg p refPrice gas gasPrice =
     revertDebit (gas * gasPrice) (perProposalCL (p_sellAmount p) (Some refPrice) (vc_collateralRatioBps cfg) (vc_minCollateral cfg))"
  by (simp add: currentExposure_def revertDebit_def add.commute)

text \<open>
  C28. Accepted work is covered: when a proposal is accepted, the escrow less the outstanding buffer
  debt covers the revert debits of all the sub-solver's submitted proposals and of this one together,
  at the auction's gas price; and it still does when any of them is dropped.
\<close>

theorem accepted_exposure_covered:
  assumes "fst (ProposalValidator_validate cfg bal env p c) = Verdict (Accept (Some out))"
  shows "\<exists>st inflight bufferBalance escrowBalance.
    ve_state env = Some (Some st) \<and> ve_inflight env = Some (inflight, bufferBalance) \<and> ve_balance env = Some escrowBalance \<and>
    (\<forall>kept \<subseteq> set inflight.
       (\<forall>q \<in> set inflight. 0 \<le> inflightDebit cfg (as_gasPrice st) q) \<longrightarrow>
       sum_list (map (inflightDebit cfg (as_gasPrice st)) (filter (\<lambda>q. q \<in> kept) inflight)) +
       revertDebit (so_gasUsed out * as_gasPrice st) (perProposalCL (p_sellAmount p) (Some (so_sellTokenRefPrice out))
         (vc_collateralRatioBps cfg) (vc_minCollateral cfg)) + max bufferBalance 0 \<le> escrowBalance)"
proof -
  have acc: "fst (SimulationValidator_validate cfg env p c) = Verdict (Accept (Some out))"
    using proposal_validate_AcceptD [OF assms] by blast
  from validate_AcceptD [OF acc] obtain st rec refPrice surplusPrice trampoline call where
    st: "ve_state env = Some (Some st)"
    and j: "judgeExecuted cfg env st p (rec, refPrice, surplusPrice) trampoline call = Verdict (Accept (Some out))"
    by blast
  from judgeExecuted_AcceptD [OF j] obtain inflight bufferBalance escrowBalance where
    r: "ve_inflight env = Some (inflight, bufferBalance)" "ve_balance env = Some escrowBalance"
    and le: "siblingExposure cfg (as_gasPrice st) inflight +
      currentExposure cfg p refPrice (so_gasUsed out) (as_gasPrice st) \<le> availableCollateral escrowBalance bufferBalance"
    and ref: "so_sellTokenRefPrice out = refPrice" by auto
  have drop: "sum_list (map f (filter P xs)) \<le> sum_list (map f xs)" if "\<forall>q \<in> set xs. 0 \<le> f q"
    for f :: "inflight_proposal \<Rightarrow> int" and P xs
    using that by (induction xs) auto
  have avail: "availableCollateral e b = e - max b 0" for e b
    by (simp add: availableCollateral_def max_def)
  have all: "sum_list (map (inflightDebit cfg (as_gasPrice st)) inflight) +
      revertDebit (so_gasUsed out * as_gasPrice st) (perProposalCL (p_sellAmount p) (Some (so_sellTokenRefPrice out))
         (vc_collateralRatioBps cfg) (vc_minCollateral cfg)) + max bufferBalance 0 \<le> escrowBalance"
    using le unfolding siblingExposure_sum currentExposure_debit avail ref by linarith
  have "sum_list (map (inflightDebit cfg (as_gasPrice st)) (filter (\<lambda>q. q \<in> kept) inflight)) +
      revertDebit (so_gasUsed out * as_gasPrice st) (perProposalCL (p_sellAmount p) (Some (so_sellTokenRefPrice out))
         (vc_collateralRatioBps cfg) (vc_minCollateral cfg)) + max bufferBalance 0 \<le> escrowBalance"
    if "\<forall>q \<in> set inflight. 0 \<le> inflightDebit cfg (as_gasPrice st) q" for kept
    using all drop [OF that, of "\<lambda>q. q \<in> kept"] by linarith
  then show ?thesis using st r by blast
qed

theorem accepted_exposure_covered_witness:
  "\<exists>inflight bufferBalance escrowBalance.
     ve_inflight exampleReads = Some (inflight, bufferBalance) \<and> ve_balance exampleReads = Some escrowBalance"
  using accepted_exposure_covered [OF example_accepted] by blast

section \<open>Failed reads\<close>

text \<open>An environment in which some of the reads of another one fail.\<close>

definition some_reads_fail :: "validation_env \<Rightarrow> validation_env \<Rightarrow> bool" where
  "some_reads_fail env env' \<longleftrightarrow>
     (ve_state env' = ve_state env \<or> ve_state env' = None) \<and>
     (ve_inflight env' = ve_inflight env \<or> ve_inflight env' = None) \<and>
     (ve_balance env' = ve_balance env \<or> ve_balance env' = None) \<and>
     (\<forall>a. ve_addressOf env' a = ve_addressOf env a \<or> (\<exists>e. ve_addressOf env' a = Inl e \<and> \<not> isRevertError e)) \<and>
     (ve_authenticator env' = ve_authenticator env \<or> ve_authenticator env' = None) \<and>
     (\<forall>rq. ve_simulate env' rq = ve_simulate env rq \<or> ve_simulate env' rq = TransportError) \<and>
     ve_blockNumber env' = ve_blockNumber env \<and> ve_now env' = ve_now env"

definition no_verdict :: "validation \<Rightarrow> bool" where
  "no_verdict v \<longleftrightarrow> v = Deferred \<or> v = Throws"

lemma judgeExecuted_degrades:
  "some_reads_fail env env' \<Longrightarrow>
   judgeExecuted cfg env' st p g t call = judgeExecuted cfg env st p g t call \<or> no_verdict (judgeExecuted cfg env' st p g t call)"
  by (cases g) (auto simp: some_reads_fail_def judgeExecuted_def no_verdict_def split: option.split)

lemma judgeResponse_degrades:
  assumes "some_reads_fail env env'"
  shows "judgeResponse cfg env' st p g t sim = judgeResponse cfg env st p g t sim \<or> no_verdict (judgeResponse cfg env' st p g t sim)"
proof (cases "ve_simulate env' (simulateRequest cfg sim) = TransportError")
  case True
  then show ?thesis by (simp add: judgeResponse_def no_verdict_def)
next
  case False
  then have same: "ve_simulate env' (simulateRequest cfg sim) = ve_simulate env (simulateRequest cfg sim)"
    using assms unfolding some_reads_fail_def by blast
  have eqs: "ve_blockNumber env' = ve_blockNumber env" "ve_now env' = ve_now env"
    using assms by (simp_all add: some_reads_fail_def)
  have "revertVerdict cfg env' sim call = revertVerdict cfg env sim call" for call
    unfolding revertVerdict_def eqs by (rule refl)
  then show ?thesis
    using judgeExecuted_degrades [OF assms, of cfg st p g t]
    by (cases "ve_simulate env (simulateRequest cfg sim)") (auto simp: judgeResponse_def same no_verdict_def)
qed

lemma choose_degrades:
  assumes "some_reads_fail env env'"
  shows "chooseTrampoline env' p c = chooseTrampoline env p c \<or>
    (\<exists>e. chooseTrampoline env' p c = (Inl e, c) \<and> \<not> isRevertError e)"
proof -
  have "ve_addressOf env' a = ve_addressOf env a \<or> (\<exists>e. ve_addressOf env' a = Inl e \<and> \<not> isRevertError e)" for a
    using assms unfolding some_reads_fail_def by blast
  from this [of "p_subSolver p"] show ?thesis
    by (elim disjE exE) (simp_all add: chooseTrampoline_def resolveTrampoline_def Let_def)
qed

lemma authenticator_degrades:
  assumes "some_reads_fail env env'"
  shows "fst (resolveAuthenticator env' c) = fst (resolveAuthenticator env c) \<or> fst (resolveAuthenticator env' c) = None"
proof -
  have "ve_authenticator env' = ve_authenticator env \<or> ve_authenticator env' = None"
    using assms by (simp add: some_reads_fail_def)
  then show ?thesis by (elim disjE) (simp_all add: resolveAuthenticator_def)
qed

lemma simulation_degrades:
  assumes fail: "some_reads_fail env env'"
  shows "fst (SimulationValidator_validate cfg env' p c) = fst (SimulationValidator_validate cfg env p c) \<or>
    no_verdict (fst (SimulationValidator_validate cfg env' p c))"
proof (cases "no_verdict (fst (SimulationValidator_validate cfg env' p c))")
  case False
  have state: "ve_state env' = ve_state env \<or> ve_state env' = None"
    using fail by (simp add: some_reads_fail_def)
  show ?thesis
  proof (cases rule: validate_stages [of env' cfg p c])
    case (3 st r)
    then have "ve_state env = Some (Some st)" using state by simp
    then show ?thesis using 3 by (simp add: SimulationValidator_validate_def)
  next
    case (4 st g e)
    then have st: "ve_state env = Some (Some st)" using state by simp
    have "isRevertError e" using 4(4) False by (auto simp: no_verdict_def split: if_splits)
    then have "chooseTrampoline env p c = chooseTrampoline env' p c" using choose_degrades [OF fail, of p c] 4(3) by auto
    then show ?thesis using 4 st by (cases rule: validate_stages [of env cfg p c]) simp_all
  next
    case (6 st g t a)
    then have st: "ve_state env = Some (Some st)" using state by simp
    have tr: "chooseTrampoline env p c = chooseTrampoline env' p c" using choose_degrades [OF fail, of p c] 6(3) by auto
    have au: "fst (resolveAuthenticator env (snd (chooseTrampoline env p c))) = Some a"
      using authenticator_degrades [OF fail, of "snd (chooseTrampoline env' p c)"] 6(4) tr by auto
    have "fst (SimulationValidator_validate cfg env p c) = judgeResponse cfg env st p g t (simulationFor cfg (fst g) p t a)"
      using st tr au 6(2,3) by (cases rule: validate_stages [of env cfg p c]) simp_all
    then show ?thesis using judgeResponse_degrades [OF fail] 6(5) by metis
  qed (use False in \<open>simp_all add: no_verdict_def\<close>)
qed simp

text \<open>
  A failed read never decides a proposal's fate: when any of the reads of a validation fail (the
  escrow balance, the auction state, the in-flight proposals, the contract reads, the simulation), it
  reaches the verdict it would have reached anyway or none at all. So no proposal is terminally
  rejected, and none accepted, on the strength of an RPC error.
\<close>

theorem failed_reads_only_defer:
  assumes "some_reads_fail env env'" "bal' = bal \<or> bal' = None"
  shows "fst (ProposalValidator_validate cfg bal' env' p c) = fst (ProposalValidator_validate cfg bal env p c) \<or>
    no_verdict (fst (ProposalValidator_validate cfg bal' env' p c))"
proof (cases bal')
  case None
  then show ?thesis by (simp add: ProposalValidator_validate_def escrowVerdict_def no_verdict_def)
next
  case (Some b)
  then have "bal = Some b" using assms(2) by simp
  then show ?thesis using simulation_degrades [OF assms(1), of cfg p c] Some
    by (simp add: ProposalValidator_validate_def escrowVerdict_def)
qed

theorem failed_reads_only_defer_witness:
  "fst (ProposalValidator_validate exampleConfig (Some 5000) (exampleReads\<lparr>ve_balance := None\<rparr>) exampleProposal emptyCache) =
     Deferred"
proof -
  have "some_reads_fail exampleReads (exampleReads\<lparr>ve_balance := None\<rparr>)" by (simp add: some_reads_fail_def)
  from failed_reads_only_defer [OF this, of "Some 5000" "Some 5000" exampleConfig exampleProposal emptyCache]
  have "fst (ProposalValidator_validate exampleConfig (Some 5000) (exampleReads\<lparr>ve_balance := None\<rparr>) exampleProposal emptyCache) =
      Verdict (Accept (Some exampleOutcome)) \<or>
    no_verdict (fst (ProposalValidator_validate exampleConfig (Some 5000) (exampleReads\<lparr>ve_balance := None\<rparr>) exampleProposal emptyCache))"
    unfolding example_accepted by simp
  moreover have "fst (ProposalValidator_validate exampleConfig (Some 5000) (exampleReads\<lparr>ve_balance := None\<rparr>) exampleProposal emptyCache) =
     Deferred" by code_simp
  ultimately show ?thesis by simp
qed

section \<open>The reasons it gives\<close>

definition validation_reasons :: "rejection_reason set" where
  "validation_reasons = {InsufficientEscrow, OrderNotFound, NativePriceUnavailable, UnsupportedOrder, TokenMismatch,
     AmountMismatch, ProposedSlippageOutrange, SimulationMissingExecutedEvent, ExposureCapExceeded, Unprofitable}"

lemma envelope_reasons:
  "checkEnvelope rec p = Some r \<Longrightarrow> r \<in> {UnsupportedOrder, TokenMismatch, AmountMismatch}"
  by (auto simp: checkEnvelope_def checkPartialFill_def checkFillOrKill_def split: if_splits)

lemma slippage_reasons: "checkProposalSlippage rec p n b m = Some r \<Longrightarrow> r = ProposedSlippageOutrange"
  by (auto simp: checkProposalSlippage_def Let_def split: if_splits)

lemma static_reasons:
  assumes "staticGates cfg st p = Inl r"
  shows "r \<in> validation_reasons"
  using assms unfolding staticGates_def validation_reasons_def Let_def
  by (auto split: option.splits if_splits dest!: envelope_reasons slippage_reasons)

lemma judge_reasons:
  assumes "judgeResponse cfg env st p g t sim = Verdict (Reject r)"
  shows "r \<in> validation_reasons"
  using assms unfolding judgeResponse_def judgeExecuted_def validation_reasons_def
  by (auto split: sim_response.splits option.splits prod.splits if_splits)

definition well_typed_verdict :: "validator_config \<Rightarrow> verdict \<Rightarrow> bool" where
  "well_typed_verdict cfg v =
     (case v of
        Accept so \<Rightarrow> so \<noteq> None
      | Reject r \<Rightarrow> r \<in> validation_reasons
      | SimFailedVerdict params reason \<Rightarrow>
          (case params of
             None \<Rightarrow> True
           | Some pr \<Rightarrow> reason \<noteq> None \<and> vc_chainId cfg = Some (sf_chainId pr) \<and> sf_chainId pr \<noteq> 0 \<and>
               sf_to pr = vc_settlement cfg \<and> (\<exists>n. sf_blockNumber pr = bigint_str n)))"

lemma revertVerdict_typed: "well_typed_verdict cfg (revertVerdict cfg env sim call)"
  by (auto simp: well_typed_verdict_def revertVerdict_def Let_def split: option.split)

lemma judge_typed:
  assumes "judgeResponse cfg env st p g t sim = Verdict v"
  shows "well_typed_verdict cfg v"
proof (cases v)
  case (Accept so)
  then show ?thesis
    using assms unfolding judgeResponse_def judgeExecuted_def well_typed_verdict_def
    by (auto split: sim_response.splits option.splits prod.splits if_splits)
next
  case (Reject r)
  then show ?thesis using assms judge_reasons [of cfg env st p g t sim r] by (simp add: well_typed_verdict_def)
next
  case (SimFailedVerdict params reason)
  have "judgeExecuted cfg env st p g t call \<noteq> Verdict (SimFailedVerdict params reason)" for call
    by (auto simp: judgeExecuted_def split: option.split prod.split)
  then have "\<exists>call. v = revertVerdict cfg env sim call"
    using assms SimFailedVerdict by (auto simp: judgeResponse_def split: sim_response.splits if_splits) (metis+)?
  then show ?thesis using revertVerdict_typed by auto
qed

lemma validator_verdict_typed:
  assumes "fst (ProposalValidator_validate cfg bal env p c) = Verdict v"
  shows "well_typed_verdict cfg v"
proof -
  have sim: "well_typed_verdict cfg v" if "fst (SimulationValidator_validate cfg env p c) = Verdict v"
  proof (cases rule: validate_stages [of env cfg p c])
    case (3 st r)
    then show ?thesis using that static_reasons [OF 3(2)] by (simp add: well_typed_verdict_def)
  next
    case (4 st g e)
    then show ?thesis using that by (auto simp: well_typed_verdict_def split: if_splits)
  next
    case (6 st g t a)
    then show ?thesis using that judge_typed by simp
  qed (use that in simp_all)
  show ?thesis
  proof (cases bal)
    case (Some b)
    then show ?thesis using assms sim
      by (cases "b < vc_minCollateral cfg")
         (auto simp: ProposalValidator_validate_def escrowVerdict_def well_typed_verdict_def validation_reasons_def)
  qed (use assms in \<open>simp add: ProposalValidator_validate_def escrowVerdict_def\<close>)
qed

text \<open>
  C39. The verdicts are well typed: a rejection gives one of the ten reasons of the validation gates
  and never one of those reserved to selection, settlement or admission; an acceptance always carries
  its simulation outcome; and the parameters recorded for a failed simulation name the configured chain
  and the settlement contract, with a block number and a reason.
\<close>

theorem verdicts_well_typed:
  assumes "fst (ProposalValidator_validate cfg bal env p c) = Verdict v"
  shows "well_typed_verdict cfg v \<and>
    v \<notin> Reject ` {SubsolverOutbid, SolverOutbid, AuctionClosed, UnknownOutput, InflightPriceUnavailable, TradeValueCapExceeded}"
  using validator_verdict_typed [OF assms] by (auto simp: well_typed_verdict_def validation_reasons_def)

theorem verdicts_well_typed_witness:
  "well_typed_verdict exampleConfig (Accept (Some exampleOutcome))"
  using verdicts_well_typed [OF example_accepted] by blast

section \<open>Revert reasons\<close>

text \<open>How a contract encodes \<open>Error(string)\<close>: the selector, an offset, the length, the padded bytes.\<close>

definition hex_digit :: "nat \<Rightarrow> char" where
  "hex_digit d = (if d < 10 then char_of (48 + d) else char_of (87 + d))"

definition bytesHex :: "nat list \<Rightarrow> string" where
  "bytesHex bs = concat (map (\<lambda>b. [hex_digit (b div 16), hex_digit (b mod 16)]) bs)"

fun beBytes :: "nat \<Rightarrow> nat \<Rightarrow> nat list" where
  "beBytes 0 n = []"
| "beBytes (Suc k) n = beBytes k (n div 256) @ [n mod 256]"

definition encodeRevert :: "nat list \<Rightarrow> nat \<Rightarrow> string" where
  "encodeRevert message padding =
     ''0x08c379a0'' @ bytesHex (beBytes 32 32 @ beBytes 32 (length message) @ message @ replicate padding 0)"

lemma hex_digit_ok: "d < 16 \<Longrightarrow> is_hex_digit (hex_digit d) \<and> base_val (hex_digit d) = d"
  by (simp add: is_hex_digit_def base_val_def hex_digit_def Let_def)

lemma hexBytes_bytesHex: "list_all (\<lambda>b. b < 256) bs \<Longrightarrow> hexBytes (bytesHex bs) = bs"
proof (induction bs)
  case (Cons b bs)
  then have "b div 16 < 16" "b mod 16 < 16" by (simp_all add: less_mult_imp_div_less)
  then show ?case using Cons hex_digit_ok [of "b div 16"] hex_digit_ok [of "b mod 16"]
    by (simp add: bytesHex_def)
qed (simp add: bytesHex_def)

lemma length_beBytes [simp]: "length (beBytes k n) = k"
  by (induction k arbitrary: n) simp_all

lemma beBytes_bytes: "list_all (\<lambda>b. b < 256) (beBytes k n)"
  by (induction k arbitrary: n) simp_all

lemma beBytes_value: "n < 256 ^ k \<Longrightarrow> foldl (\<lambda>v b. v * 256 + b) 0 (beBytes k n) = n"
proof (induction k arbitrary: n)
  case (Suc k)
  then have "n div 256 < 256 ^ k" by (simp add: less_mult_imp_div_less mult.commute)
  then show ?case by (simp add: Suc.IH)
qed simp

lemma utf8_ascii: "list_all (\<lambda>b. b < 128) bs \<Longrightarrow> utf8 bs = bs"
  by (induction bs) (simp_all add: leadByte_def)

text \<open>
  The reason a contract reverts with is the reason recorded: for a message of ASCII bytes, encoded
  as the ABI lays out \<open>Error(string)\<close> with any padding, the reason extracted is the message itself.
\<close>

theorem revert_reason_round_trip:
  assumes ascii: "list_all (\<lambda>b. b < 128) message" and short: "length message < 2 ^ 53"
  shows "extractRevertReasonFromHex (Some (encodeRevert message padding)) = Some (map char_of message)"
proof -
  let ?bytes = "beBytes 32 32 @ beBytes 32 (length message) @ message @ replicate padding 0"
  have "list_all (\<lambda>b. b < 256) message" using ascii by (auto simp: list_all_iff)
  moreover have "list_all (\<lambda>b. b < 256) (replicate padding (0::nat))" by (induction padding) simp_all
  ultimately have "list_all (\<lambda>b. b < 256) ?bytes" using beBytes_bytes by (simp only: list_all_append)
  then have buf: "hexBytes (drop 10 (encodeRevert message padding)) = ?bytes"
    by (simp add: encodeRevert_def hexBytes_bytesHex del: list_all_append)
  have word: "take 32 (drop 32 ?bytes) = beBytes 32 (length message)" by simp
  have "beBytes 32 (length message) \<noteq> []" by (metis length_beBytes list.size(3) zero_neq_numeral)
  have "length message < 256 ^ 32" using short by simp
  then have len: "foldl (\<lambda>v b. v * 256 + b) 0 (beBytes 32 (length message)) = length message" by (rule beBytes_value)
  have num: "Number (int (length message)) = int (length message)" using short by simp
  have "take 10 (encodeRevert message padding) = ''0x08c379a0''" by (simp add: encodeRevert_def)
  then show ?thesis
    unfolding extractRevertReasonFromHex_def Let_def option.sel buf word len num
    using \<open>beBytes 32 (length message) \<noteq> []\<close> ascii
    by (simp add: encodeRevert_def utf8_string_def utf8_ascii)
qed

theorem revert_reason_round_trip_witness:
  "extractRevertReasonFromHex (Some (encodeRevert [83, 84, 70] 29)) = Some (map char_of [83, 84, 70 :: nat])"
  using revert_reason_round_trip [of "[83, 84, 70]" 29] by simp

end
