(* ===== verification/Solve.thy ===== *)
theory Solve
  imports Simulation_Gate Middleware
begin

text \<open>
  The competition: \<open>POST /solve\<close> of \<open>apps/byos/src/infra/api/solve.ts\<close>. The handler is its two
  halves around the wait for the deadline: \<open>solveOpen\<close> publishes the auction, \<open>solveClose\<close> takes the
  snapshot, selects one candidate per order, records what it bids and flushes the rest. What the
  database and Redis refuse is an environment. The schema has been applied to the body, so its
  decimal strings parse; forwarding to sub-solvers and log lines have no effect on the state.

  The lemmas say that selection is a first-of-the-best choice, that what is bid was recorded before
  and keeps the user's limit, and that closing an auction settles the fate of its candidates and of
  no others.
\<close>

section \<open>Requests and responses\<close>

definition U64_MAX :: int where
  "U64_MAX = 2 ^ 64 - 1"

record solution_interaction =
  si_target :: string
  si_value :: string
  si_callData :: string

record fulfillment =
  fu_order :: string
  fu_executedAmount :: string
  fu_fee :: string

record solution =
  sn_id :: int
  sn_prices :: "(string, string) jsmap"
  sn_trades :: "fulfillment list"
  sn_pre_interactions :: "solution_interaction list"
  sn_interactions :: "solution_interaction list"
  sn_post_interactions :: "solution_interaction list"
  sn_gas :: int

datatype solve_response = Solutions "solution list" | SolveError api_kind | SolveThrows

record solve_config =
  sc_replica :: nat
  sc_minCollateral :: "int option"
  sc_collateralRatioBps :: "int option"
  sc_lib :: chain_lib

text \<open>Which writes fail: the gas price, the shared auction key, the sub-solver read, an insert, a log write.\<close>

record solve_env =
  sv_publishFails :: bool
  sv_sharedFails :: bool
  sv_readFails :: bool
  sv_clearFails :: bool
  sv_insertFails :: "int \<Rightarrow> bool"
  sv_logFails :: "int \<Rightarrow> bool"
  sv_prefetch :: "int option list option"

record solve_world =
  sw_db :: db
  sw_store :: candidate_store
  sw_auctions :: auction_world
  sw_escrow :: escrow_cache

text \<open>\<open>BigInt\<close> of a string the schema accepted.\<close>

definition num :: "string \<Rightarrow> int" where
  "num s = (case BigInt s of Some v \<Rightarrow> v | None \<Rightarrow> 0)"

definition referencePrice :: "auction \<Rightarrow> string \<Rightarrow> string option" where
  "referencePrice a token = Option.bind (jm_get (au_tokens a) token) at_referencePrice"

definition priceOr0 :: "string option \<Rightarrow> int" where
  "priceOr0 p = (if falsy p then 0 else num (the p))"

section \<open>Opening\<close>

definition parseAuctionId :: "string option \<Rightarrow> api_kind + int option" where
  "parseAuctionId i =
     (if falsy i then Inr None
      else let parsed = Number (int (dec_val (the i))) in
        if \<not> list_all is_digit (the i) \<or> \<not> isSafeInteger parsed then Inl K_BadRequest
        else Inr (Some parsed))"

definition auctionOrders :: "auction \<Rightarrow> (string, order_record) jsmap option" where
  "auctionOrders a = map_option jm_of
     (those (map (\<lambda>o'. map_option (Pair (lower (ao_uid o'))) (auctionOrderToRecord o')) (au_orders a)))"

definition auctionPrices :: "auction \<Rightarrow> (string, int) jsmap" where
  "auctionPrices a = jm_of (map (\<lambda>(addr, t). (lower addr, num (the (at_referencePrice t))))
     (filter (\<lambda>(addr, t). at_referencePrice t \<noteq> None) (au_tokens a)))"

text \<open>
  What opening leaves: a response that ends the request, or the auction id (\<open>None\<close> for a quote
  request) and gas price the second half goes on with.
\<close>

datatype opened = Ended solve_response | Window "int option" int

definition publishGas :: "solve_env \<Rightarrow> auction \<Rightarrow> db \<Rightarrow> int \<times> bool \<times> db" where
  "publishGas env a d =
     (case BigInt (au_effectiveGasPrice a) of
        None \<Rightarrow> (0, False, d)
      | Some g \<Rightarrow>
          if g \<le> U64_MAX then (g, True, if sv_publishFails env then d else publishAuctionGasPrice g d)
          else (g, False, d))"

text \<open>\<open>openAuction\<close>: a response when publishing the auction throws, else the window is open.\<close>

definition openAuction :: "solve_config \<Rightarrow> solve_env \<Rightarrow> int \<Rightarrow> int \<Rightarrow> int \<Rightarrow> auction \<Rightarrow> solve_world \<Rightarrow>
    solve_response option \<times> solve_world" where
  "openAuction cfg env now auctionId gasPrice a w =
     (case auctionOrders a of
        None \<Rightarrow> (Some SolveThrows, w)
      | Some orders \<Rightarrow>
          let st = \<lparr>as_auctionId = auctionId, as_orders = orders, as_prices = auctionPrices a, as_gasPrice = gasPrice\<rparr>;
              aw = setAuctionState (sc_replica cfg) now st (sw_auctions w) in
          if sv_sharedFails env
          then (Some SolveThrows, w\<lparr>sw_auctions := aw\<lparr>aw_shared := aw_shared (sw_auctions w)\<rparr>\<rparr>)
          else let w1 = w\<lparr>sw_auctions := aw, sw_escrow := escrow_beginAuction (sw_escrow w)\<rparr> in
            if sv_readFails env then (Some SolveThrows, w1)
            else (None, w1\<lparr>sw_escrow := prefetchBalances (allSubSolvers (sw_db w1)) (sv_prefetch env) (sw_escrow w1)\<rparr>))"

definition solveOpen :: "solve_config \<Rightarrow> solve_env \<Rightarrow> int \<Rightarrow> auction option \<Rightarrow> solve_world \<Rightarrow> opened \<times> solve_world" where
  "solveOpen cfg env now body w =
     (case body of
        None \<Rightarrow> (Ended (SolveError K_BadRequest), w)
      | Some a \<Rightarrow>
          if \<not> auctionSchema a then (Ended (SolveError K_BadRequest), w)
          else let (gas, publish, d) = publishGas env a (sw_db w); w1 = w\<lparr>sw_db := d\<rparr> in
            (case parseAuctionId (au_id a) of
               Inl k \<Rightarrow> (Ended (SolveError k), w1)
             | Inr auctionId \<Rightarrow>
                 if au_orders a = [] then (Ended (Solutions []), w1)
                 else (case auctionId of
                    None \<Rightarrow> (Window None gas, w1)
                  | Some i \<Rightarrow>
                      (case openAuction cfg env now i (if publish then gas else 0) a w1 of
                         (None, w2) \<Rightarrow> (Window (Some i) gas, w2)
                       | (Some r, w2) \<Rightarrow> (Ended r, w2)))))"

section \<open>Selecting\<close>

definition groupByOrder :: "candidate list \<Rightarrow> (string, candidate list) jsmap" where
  "groupByOrder cs = fold (\<lambda>c m. let key = lower (c_orderUid c) in
     (case jm_get m key of
        Some l \<Rightarrow> jm_set key (l @ [c]) m
      | None \<Rightarrow> jm_set key [c] m)) cs []"

definition candidateBuy :: "candidate \<Rightarrow> int" where
  "candidateBuy c = effectiveBuy (c_simulationBuyAmount c) (c_quoteBuyAmount c)"

definition exceedsOrder :: "auction_order \<Rightarrow> candidate \<Rightarrow> bool" where
  "exceedsOrder o' c =
     (if ao_kind o' = ''sell'' then c_sellAmount c > num (ao_sellAmount o') else candidateBuy c > num (ao_buyAmount o'))"

definition scoringOf :: "auction_order \<Rightarrow> int \<Rightarrow> candidate \<Rightarrow> scoring_candidate" where
  "scoringOf o' gasPrice c =
     \<lparr>orderSell = num (ao_sellAmount o'), orderBuy = num (ao_buyAmount o'), proposalSell = c_sellAmount c,
      proposalBuy = candidateBuy c, isSellOrder = (ao_kind o' = ''sell''),
      gasCost = effectiveGas (c_gasUsed c) * gasPrice\<rparr>"

text \<open>What the loop body computes of a candidate before it compares scores: \<open>None\<close> is \<open>continue\<close>.\<close>

definition viable :: "auction_order \<Rightarrow> int \<Rightarrow> int \<Rightarrow> int \<Rightarrow> int \<Rightarrow> candidate \<Rightarrow> (int \<times> gas_cut) option" where
  "viable o' surplusPrice sellTokenPrice gasPrice now c =
     (if c_validUntil c \<le> now then None
      else if ao_partiallyFillable o' \<and> exceedsOrder o' c then None
      else (case scaledToFill (scoringOf o' gasPrice c) (ao_partiallyFillable o') of
         None \<Rightarrow> None
       | Some scaled \<Rightarrow>
           (case scoreProposal scaled surplusPrice of
              None \<Rightarrow> None
            | Some score \<Rightarrow>
                if score \<le> 0 then None
                else (case gasCutSize scaled sellTokenPrice of None \<Rightarrow> None | Some gc \<Rightarrow> Some (score, gc)))))"

text \<open>The loop over an order's candidates, with \<open>bestScore\<close>, \<open>bestCandidate\<close> and \<open>bestCut\<close>.\<close>

definition considerCandidate :: "(candidate \<Rightarrow> (int \<times> gas_cut) option) \<Rightarrow> candidate \<Rightarrow>
    int \<times> (candidate \<times> gas_cut) option \<Rightarrow> int \<times> (candidate \<times> gas_cut) option" where
  "considerCandidate v c best =
     (case v c of
        None \<Rightarrow> best
      | Some (score, gc) \<Rightarrow> if score > fst best then (score, Some (c, gc)) else best)"

definition bestCandidate :: "(candidate \<Rightarrow> (int \<times> gas_cut) option) \<Rightarrow> candidate list \<Rightarrow> (candidate \<times> gas_cut) option" where
  "bestCandidate v cs = snd (fold (considerCandidate v) cs (0, None))"

definition toSolutionInteraction :: "interaction_json \<Rightarrow> solution_interaction" where
  "toSolutionInteraction i = \<lparr>si_target = ij_target i, si_value = ij_value i, si_callData = ij_callData i\<rparr>"

definition candidateContract :: "candidate \<Rightarrow> contract_proposal" where
  "candidateContract c =
     \<lparr>cp_orderUidHash = c_orderUidHash c, cp_sellToken = c_sellToken c, cp_buyToken = c_buyToken c,
      cp_sellAmount = c_sellAmount c, cp_minBuyAmount = c_minBuyAmount c, cp_quoteBuyAmount = c_quoteBuyAmount c,
      cp_validUntil = c_validUntil c, cp_nonce = c_nonce c\<rparr>"

definition buildSolution :: "chain_lib \<Rightarrow> int \<Rightarrow> auction_order \<Rightarrow> candidate \<Rightarrow> int \<Rightarrow> gas_cut \<Rightarrow> solution" where
  "buildSolution lib i o' c gasUsed gc =
     (let (transfer, execute) = encodeTrampolineInteractions lib (c_trampoline c) (candidateContract c)
            (c_interactions c) (c_signature c) in
      \<lparr>sn_id = i,
       sn_prices = jm_set (ao_buyToken o') (bigint_str (c_sellAmount c))
         (jm_set (ao_sellToken o') (bigint_str (candidateBuy c)) []),
       sn_trades = [\<lparr>fu_order = ao_uid o', fu_executedAmount = bigint_str (executedAmount gc),
         fu_fee = bigint_str (cutAmount gc)\<rparr>],
       sn_pre_interactions = map toSolutionInteraction (ao_preInteractions o'),
       sn_interactions = map (\<lambda>i. \<lparr>si_target = i_target i, si_value = bigint_str (i_value i), si_callData = i_callData i\<rparr>)
         [transfer, execute],
       sn_post_interactions = map toSolutionInteraction (ao_postInteractions o'),
       sn_gas = Number (effectiveGas gasUsed)\<rparr>)"

definition orDefault :: "'a \<Rightarrow> 'a option \<Rightarrow> 'a" where
  "orDefault v x = (case x of None \<Rightarrow> v | Some y \<Rightarrow> y)"

definition insertSelected :: "solve_config \<Rightarrow> solve_env \<Rightarrow> int \<Rightarrow> auction \<Rightarrow> auction_order \<Rightarrow> int \<Rightarrow> candidate \<Rightarrow>
    solution \<Rightarrow> db \<Rightarrow> db option" where
  "insertSelected cfg env now a o' gasPrice c s d =
     (let sellRef = referencePrice a (ao_sellToken o');
          surplusRef = referencePrice a (surplusToken (ao_kind o' = ''sell'') (ao_sellToken o') (ao_buyToken o'));
          cap = (if \<not> falsy sellRef \<and> num (the sellRef) > 0
            then Some (perProposalCL (c_sellAmount c) (Some (num (the sellRef)))
              (orDefault 4 (sc_collateralRatioBps cfg)) (orDefault (10 ^ 16) (sc_minCollateral cfg)))
            else None)
      in if sv_insertFails env (c_id c) then None
         else insertAsSubmitted now c (orDefault ''0'' (referencePrice a (ao_buyToken o')))
           \<lparr>sp_sellTokenRefPrice = orDefault ''0'' sellRef, sp_surplusTokenRefPrice = orDefault ''0'' surplusRef,
            sp_auctionGasPrice = bigint_str gasPrice, sp_clearingPrices = sn_prices s\<rparr> cap d)"

text \<open>The state of the loop over the auction's orders.\<close>

record selected =
  sl_solutions :: "solution list"
  sl_ids :: "int list"
  sl_uids :: "string list"
  sl_db :: db

definition selectOrder :: "solve_config \<Rightarrow> solve_env \<Rightarrow> int \<Rightarrow> auction \<Rightarrow> int option \<Rightarrow> int \<Rightarrow>
    (string, candidate list) jsmap \<Rightarrow> auction_order \<Rightarrow> selected \<Rightarrow> selected" where
  "selectOrder cfg env now a auctionId gasPrice byOrder o' s =
     (let candidates = orDefault [] (jm_get byOrder (lower (ao_uid o')));
          surplusPrice = priceOr0 (referencePrice a (surplusToken (ao_kind o' = ''sell'') (ao_sellToken o') (ao_buyToken o')));
          sellTokenPrice = priceOr0 (referencePrice a (ao_sellToken o')) in
      (case bestCandidate (viable o' surplusPrice sellTokenPrice gasPrice (now div 1000)) candidates of
         None \<Rightarrow> s
       | Some (c, gc) \<Rightarrow>
           let sol = buildSolution (sc_lib cfg) (c_id c) o' c (c_gasUsed c) gc;
               recorded = (case auctionId of
                  None \<Rightarrow> Some (sl_db s)
                | Some _ \<Rightarrow> insertSelected cfg env now a o' gasPrice c sol (sl_db s)) in
           (case recorded of
              None \<Rightarrow> s
            | Some d \<Rightarrow> \<lparr>sl_solutions = sl_solutions s @ [sol], sl_ids = sl_ids s @ [c_id c],
                         sl_uids = js_add (lower (ao_uid o')) (sl_uids s), sl_db = d\<rparr>)))"

definition selectAll :: "solve_config \<Rightarrow> solve_env \<Rightarrow> int \<Rightarrow> auction \<Rightarrow> int option \<Rightarrow> int \<Rightarrow> candidate list \<Rightarrow> db \<Rightarrow> selected" where
  "selectAll cfg env now a auctionId gasPrice cs d =
     fold (selectOrder cfg env now a auctionId gasPrice (groupByOrder cs)) (au_orders a)
       \<lparr>sl_solutions = [], sl_ids = [], sl_uids = [], sl_db = d\<rparr>"

section \<open>Closing\<close>

definition flushReason :: "string list \<Rightarrow> candidate \<Rightarrow> rejection_reason" where
  "flushReason selectedUids c = (if lower (c_orderUid c) \<in> set selectedUids then SubsolverOutbid else AuctionClosed)"

text \<open>The object the flush hands to \<open>writeToLog\<close>.\<close>

definition flushedProposal :: "rejection_reason \<Rightarrow> candidate \<Rightarrow> proposal" where
  "flushedProposal reason c = (candidateToProposal Rejected c)\<lparr>p_rejectionReason := Some reason\<rparr>"

definition flushCandidate :: "solve_env \<Rightarrow> int \<Rightarrow> string list \<Rightarrow> candidate \<Rightarrow> db \<Rightarrow> db" where
  "flushCandidate env now selectedUids c d =
     (if sv_logFails env (c_id c) then d
      else writeToLog now (c_id c) (flushedProposal (flushReason selectedUids c) c) Rejected
        (Some (flushReason selectedUids c)) None d)"

definition closeAuction :: "solve_config \<Rightarrow> solve_env \<Rightarrow> int \<Rightarrow> int \<Rightarrow> candidate list \<Rightarrow> selected \<Rightarrow> solve_world \<Rightarrow>
    bool \<times> solve_world" where
  "closeAuction cfg env now auctionId snapshot s w =
     (let store1 = removeAll_candidates (sl_ids s) (sw_store w);
          toFlush = filter (\<lambda>c. c_id c \<notin> set (sl_ids s)) snapshot;
          d = fold (flushCandidate env now (sl_uids s)) toFlush (sl_db s);
          store2 = removeAll_candidates (map c_id toFlush) store1;
          aw = clearAuctionStateIfOwned (sc_replica cfg) now auctionId (sw_auctions w)
      in if sv_clearFails env
         then (False, w\<lparr>sw_db := d, sw_store := store2, sw_auctions := aw\<lparr>aw_shared := aw_shared (sw_auctions w)\<rparr>\<rparr>)
         else (True, w\<lparr>sw_db := d, sw_store := store2, sw_auctions := aw\<rparr>))"

definition solveClose :: "solve_config \<Rightarrow> solve_env \<Rightarrow> int \<Rightarrow> auction \<Rightarrow> int option \<Rightarrow> int \<Rightarrow> solve_world \<Rightarrow>
    solve_response \<times> solve_world" where
  "solveClose cfg env now a auctionId gasPrice w =
     (case auctionId of
        None \<Rightarrow>
          let s = selectAll cfg env now a None gasPrice (getAll (sw_store w)) (sw_db w) in
          (Solutions (sl_solutions s), w\<lparr>sw_db := sl_db s\<rparr>)
      | Some i \<Rightarrow>
          let snapshot = snapshotForAuction i (sw_store w);
              s = selectAll cfg env now a (Some i) gasPrice snapshot (sw_db w) in
          (case closeAuction cfg env now i snapshot s w of
             (True, w') \<Rightarrow> (Solutions (sl_solutions s), w')
           | (False, w') \<Rightarrow> (SolveThrows, w')))"

section \<open>Selection is the first of the best\<close>

lemma groupByOrder_get: "orDefault [] (jm_get (groupByOrder cs) key) = filter (\<lambda>c. lower (c_orderUid c) = key) cs"
proof (induction cs rule: rev_induct)
  case Nil
  then show ?case by (simp add: groupByOrder_def orDefault_def)
next
  case (snoc c cs)
  then show ?case
    by (auto simp: groupByOrder_def orDefault_def Let_def jm_get_set split: option.splits)
qed

text \<open>The reference: the greatest score there is, and the first candidate that has it.\<close>

definition bestByScore :: "(candidate \<Rightarrow> (int \<times> gas_cut) option) \<Rightarrow> candidate list \<Rightarrow> (candidate \<times> gas_cut) option" where
  "bestByScore v cs =
     (let scores = List.map_filter (map_option fst \<circ> v) cs in
      if scores = [] then None
      else Option.bind (find (\<lambda>c. map_option fst (v c) = Some (Max (set scores))) cs)
        (\<lambda>c. map_option (\<lambda>(s, gc). (c, gc)) (v c)))"

definition best_so_far :: "(candidate \<Rightarrow> (int \<times> gas_cut) option) \<Rightarrow> candidate list \<Rightarrow> int \<Rightarrow> (candidate \<times> gas_cut) option \<Rightarrow> bool" where
  "best_so_far v cs b r \<longleftrightarrow>
     (r = None \<and> b = 0 \<and> (\<forall>c \<in> set cs. v c = None)) \<or>
     (\<exists>c gc pre post. r = Some (c, gc) \<and> cs = pre @ c # post \<and> v c = Some (b, gc) \<and>
        (\<forall>c' \<in> set pre. \<forall>s g. v c' = Some (s, g) \<longrightarrow> s < b) \<and> (\<forall>c' \<in> set post. \<forall>s g. v c' = Some (s, g) \<longrightarrow> s \<le> b))"

lemma best_so_far_step:
  assumes inv: "best_so_far v cs b r" and pos: "\<And>s g. v c = Some (s, g) \<Longrightarrow> 0 < s"
    and step: "considerCandidate v c (b, r) = (b', r')"
  shows "best_so_far v (cs @ [c]) b' r'"
proof (cases "v c")
  case None
  then have eq: "b' = b" "r' = r" using step by (simp_all add: considerCandidate_def)
  from inv show ?thesis unfolding best_so_far_def eq
  proof (elim disjE exE conjE)
    fix c0 gc pre post assume "r = Some (c0, gc)" "cs = pre @ c0 # post" "v c0 = Some (b, gc)"
      "\<forall>c' \<in> set pre. \<forall>s g. v c' = Some (s, g) \<longrightarrow> s < b" "\<forall>c' \<in> set post. \<forall>s g. v c' = Some (s, g) \<longrightarrow> s \<le> b"
    then show "(r = None \<and> b = 0 \<and> (\<forall>c \<in> set (cs @ [c]). v c = None)) \<or>
      (\<exists>c1 gc pre post. r = Some (c1, gc) \<and> cs @ [c] = pre @ c1 # post \<and> v c1 = Some (b, gc) \<and>
        (\<forall>c' \<in> set pre. \<forall>s g. v c' = Some (s, g) \<longrightarrow> s < b) \<and> (\<forall>c' \<in> set post. \<forall>s g. v c' = Some (s, g) \<longrightarrow> s \<le> b))"
      using None by (intro disjI2 exI [of _ c0] exI [of _ gc] exI [of _ pre] exI [of _ "post @ [c]"]) auto
  qed (simp add: None)
next
  case (Some x)
  then obtain s g where v: "v c = Some (s, g)" by (cases x) auto
  have spos: "0 < s" using pos v by blast
  show ?thesis
  proof (cases "b < s")
    case True
    then have eq: "b' = s" "r' = Some (c, g)" using step v by (simp_all add: considerCandidate_def)
    have below: "\<forall>c' \<in> set cs. \<forall>s' g'. v c' = Some (s', g') \<longrightarrow> s' < s"
      using inv True spos unfolding best_so_far_def by fastforce
    show ?thesis unfolding best_so_far_def eq
      using v below by (intro disjI2 exI [of _ c] exI [of _ g] exI [of _ cs] exI [of _ "[]"]) simp
  next
    case False
    then have eq: "b' = b" "r' = r" using step v by (simp_all add: considerCandidate_def)
    have "r \<noteq> None" using inv False spos unfolding best_so_far_def by auto
    with inv obtain c0 gc pre post where "r = Some (c0, gc)" "cs = pre @ c0 # post" "v c0 = Some (b, gc)"
      "\<forall>c' \<in> set pre. \<forall>s g. v c' = Some (s, g) \<longrightarrow> s < b" "\<forall>c' \<in> set post. \<forall>s g. v c' = Some (s, g) \<longrightarrow> s \<le> b"
      unfolding best_so_far_def by auto
    then show ?thesis unfolding best_so_far_def eq
      using v False by (intro disjI2 exI [of _ c0] exI [of _ gc] exI [of _ pre] exI [of _ "post @ [c]"]) auto
  qed
qed

lemma best_so_far_fold:
  assumes "\<And>c s g. c \<in> set cs \<Longrightarrow> v c = Some (s, g) \<Longrightarrow> 0 < s"
  shows "best_so_far v cs (fst (fold (considerCandidate v) cs (0, None))) (bestCandidate v cs)"
  using assms
proof (induction cs rule: rev_induct)
  case Nil
  then show ?case by (simp add: best_so_far_def bestCandidate_def)
next
  case (snoc c cs)
  let ?f = "fold (considerCandidate v) cs (0, None)"
  have "0 < s" if "c' \<in> set cs" "v c' = Some (s, g)" for c' s g
    using snoc.prems [of c' s g] that by simp
  then have "best_so_far v cs (fst ?f) (bestCandidate v cs)" by (rule snoc.IH)
  then have "best_so_far v cs (fst ?f) (snd ?f)" by (simp add: bestCandidate_def)
  then have "best_so_far v (cs @ [c]) (fst (considerCandidate v c ?f)) (snd (considerCandidate v c ?f))"
    using best_so_far_step [of v cs "fst ?f" "snd ?f" c] snoc.prems by (metis prod.collapse in_set_conv_decomp)
  then show ?case by (simp add: bestCandidate_def)
qed

lemma viable_pos: "viable o' sp tp gp t c = Some (s, g) \<Longrightarrow> 0 < s"
  by (auto simp: viable_def split: option.splits if_splits)

lemma map_filter_iff: "y \<in> set (List.map_filter f xs) \<longleftrightarrow> (\<exists>x \<in> set xs. f x = Some y)"
  by (induction xs) (auto simp: List.map_filter_simps split: option.split)

lemma find_first: "\<forall>x \<in> set pre. \<not> P x \<Longrightarrow> P y \<Longrightarrow> find P (pre @ y # post) = Some y"
  by (induction pre) auto

text \<open>
  C24. The loop selects what an exhaustive comparison would: for each order the candidate with the
  greatest score among the viable ones, the earliest submitted on a tie, with its own gas cut, and
  none exactly when no candidate is viable.
\<close>

theorem selection_is_argmax:
  "bestCandidate (viable o' surplusPrice sellTokenPrice gasPrice now) cs =
   bestByScore (viable o' surplusPrice sellTokenPrice gasPrice now) cs"
proof -
  let ?v = "viable o' surplusPrice sellTokenPrice gasPrice now"
  let ?b = "fst (fold (considerCandidate ?v) cs (0, None))"
  let ?scores = "List.map_filter (map_option fst \<circ> ?v) cs"
  have mem: "x \<in> set ?scores \<longleftrightarrow> (\<exists>c \<in> set cs. \<exists>g. ?v c = Some (x, g))" for x
    by (auto simp: map_filter_iff) (metis fst_conv map_option_eq_Some)?
  have "best_so_far ?v cs ?b (bestCandidate ?v cs)" using viable_pos by (rule best_so_far_fold)
  then show ?thesis unfolding best_so_far_def
  proof (elim disjE exE conjE)
    assume none: "bestCandidate ?v cs = None" "\<forall>c \<in> set cs. ?v c = None"
    have "?scores = []" using none(2) by (auto simp: List.map_filter_def filter_empty_conv)
    then show ?thesis using none(1) by (simp add: bestByScore_def)
  next
    fix c gc pre post
    assume best: "bestCandidate ?v cs = Some (c, gc)" and cs: "cs = pre @ c # post" and v: "?v c = Some (?b, gc)"
      and pre: "\<forall>c' \<in> set pre. \<forall>s g. ?v c' = Some (s, g) \<longrightarrow> s < ?b"
      and post: "\<forall>c' \<in> set post. \<forall>s g. ?v c' = Some (s, g) \<longrightarrow> s \<le> ?b"
    have c_in: "c \<in> set cs" by (subst cs) simp
    have b_in: "?b \<in> set ?scores" unfolding mem using c_in v by blast
    have split: "c' \<in> set pre \<or> c' = c \<or> c' \<in> set post" if "c' \<in> set cs" for c'
      using that by (subst (asm) cs) auto
    have top: "x \<le> ?b" if "x \<in> set ?scores" for x
    proof -
      have "\<exists>c' \<in> set cs. \<exists>g. ?v c' = Some (x, g)" using that by (simp only: mem)
      then obtain c' g where c': "c' \<in> set cs" "?v c' = Some (x, g)" by blast
      from split [OF c'(1)] show ?thesis using c'(2) pre post v by fastforce
    qed
    have max: "Max (set ?scores) = ?b" using b_in top by (intro Max_eqI) auto
    have "map_option fst (?v c') \<noteq> Some ?b" if "c' \<in> set pre" for c'
      using pre that by (cases "?v c'") auto
    then have "find (\<lambda>c. map_option fst (?v c) = Some ?b) (pre @ c # post) = Some c"
      using v by (intro find_first) auto
    then have "find (\<lambda>c. map_option fst (?v c) = Some ?b) cs = Some c" by (subst cs)
    moreover have "?scores \<noteq> []" using b_in by auto
    ultimately show ?thesis using best v by (simp add: bestByScore_def max)
  qed
qed

section \<open>What is bid\<close>

text \<open>A solution is the bid of a candidate for an order of the auction.\<close>

definition bid_of :: "solve_config \<Rightarrow> int \<Rightarrow> auction \<Rightarrow> int \<Rightarrow> candidate list \<Rightarrow> auction_order \<Rightarrow> candidate \<Rightarrow> gas_cut \<Rightarrow>
    solution \<Rightarrow> bool" where
  "bid_of cfg now a gasPrice cs o' c gc sol \<longleftrightarrow>
     o' \<in> set (au_orders a) \<and> c \<in> set cs \<and> lower (c_orderUid c) = lower (ao_uid o') \<and>
     (\<exists>score. viable o' (priceOr0 (referencePrice a (surplusToken (ao_kind o' = ''sell'') (ao_sellToken o') (ao_buyToken o'))))
        (priceOr0 (referencePrice a (ao_sellToken o'))) gasPrice (now div 1000) c = Some (score, gc)) \<and>
     sol = buildSolution (sc_lib cfg) (c_id c) o' c (c_gasUsed c) gc"

lemma bestCandidate_SomeD:
  assumes "bestCandidate (viable o' sp tp gp t) cs = Some (c, gc)"
  shows "c \<in> set cs \<and> (\<exists>score. viable o' sp tp gp t c = Some (score, gc))"
proof -
  have "best_so_far (viable o' sp tp gp t) cs (fst (fold (considerCandidate (viable o' sp tp gp t)) cs (0, None)))
      (bestCandidate (viable o' sp tp gp t) cs)"
    using viable_pos by (rule best_so_far_fold)
  then show ?thesis using assms unfolding best_so_far_def by auto
qed

text \<open>One turn of the loop over the orders: nothing, or a bid that a real auction has recorded.\<close>

lemma selectOrder_cases:
  assumes "o' \<in> set (au_orders a)"
  obtains "selectOrder cfg env now a i gp (groupByOrder cs) o' s = s"
  | c gc sol d where "bid_of cfg now a gp cs o' c gc sol"
      "(case i of None \<Rightarrow> d = sl_db s | Some _ \<Rightarrow> insertSelected cfg env now a o' gp c sol (sl_db s) = Some d)"
      "selectOrder cfg env now a i gp (groupByOrder cs) o' s =
         \<lparr>sl_solutions = sl_solutions s @ [sol], sl_ids = sl_ids s @ [c_id c],
          sl_uids = js_add (lower (ao_uid o')) (sl_uids s), sl_db = d\<rparr>"
proof -
  let ?v = "viable o' (priceOr0 (referencePrice a (surplusToken (ao_kind o' = ''sell'') (ao_sellToken o') (ao_buyToken o'))))
        (priceOr0 (referencePrice a (ao_sellToken o'))) gp (now div 1000)"
  let ?cs = "filter (\<lambda>c. lower (c_orderUid c) = lower (ao_uid o')) cs"
  have eq: "orDefault [] (jm_get (groupByOrder cs) (lower (ao_uid o'))) = ?cs" by (rule groupByOrder_get)
  show thesis
  proof (cases "bestCandidate ?v ?cs")
    case None
    then show thesis using that(1) by (simp add: selectOrder_def eq Let_def)
  next
    case (Some x)
    then obtain c gc where best: "bestCandidate ?v ?cs = Some (c, gc)" by (cases x) auto
    let ?sol = "buildSolution (sc_lib cfg) (c_id c) o' c (c_gasUsed c) gc"
    let ?rec = "case i of None \<Rightarrow> Some (sl_db s) | Some _ \<Rightarrow> insertSelected cfg env now a o' gp c ?sol (sl_db s)"
    have bid: "bid_of cfg now a gp cs o' c gc ?sol"
      using bestCandidate_SomeD [OF best] assms by (auto simp: bid_of_def)
    have unf: "selectOrder cfg env now a i gp (groupByOrder cs) o' s =
        (case ?rec of None \<Rightarrow> s | Some d \<Rightarrow> \<lparr>sl_solutions = sl_solutions s @ [?sol], sl_ids = sl_ids s @ [c_id c],
           sl_uids = js_add (lower (ao_uid o')) (sl_uids s), sl_db = d\<rparr>)"
      unfolding selectOrder_def Let_def eq best option.case prod.case by (rule refl)
    show thesis
    proof (cases ?rec)
      case None
      then show thesis using that(1) unfolding unf by simp
    next
      case (Some d)
      then show thesis using that(2) [OF bid _ unf [unfolded Some option.case], of] by (cases i) auto
    qed
  qed
qed

lemma selectAll_bids:
  assumes "sol \<in> set (sl_solutions (selectAll cfg env now a i gp cs d))"
  shows "\<exists>o' c gc. bid_of cfg now a gp cs o' c gc sol"
proof -
  let ?P = "\<lambda>s :: selected. \<forall>sol \<in> set (sl_solutions s). \<exists>o' c gc. bid_of cfg now a gp cs o' c gc sol"
  have "?P (selectAll cfg env now a i gp cs d)"
    unfolding selectAll_def
  proof (rule fold_invariant [where Q = "\<lambda>o'. o' \<in> set (au_orders a)"])
    fix o' and s :: selected assume "o' \<in> set (au_orders a)" and inv: "?P s"
    then show "?P (selectOrder cfg env now a i gp (groupByOrder cs) o' s)"
      by (cases rule: selectOrder_cases [of o' a cfg env now i gp cs s]) (use inv in auto)
  qed simp_all
  then show ?thesis using assms by blast
qed

lemma selectAll_quote_db: "sl_db (selectAll cfg env now a None gp cs d) = d"
  unfolding selectAll_def
proof (rule fold_invariant [where Q = "\<lambda>o'. o' \<in> set (au_orders a)"])
  fix o' and s :: selected assume "o' \<in> set (au_orders a)" and inv: "sl_db s = d"
  then show "sl_db (selectOrder cfg env now a None gp (groupByOrder cs) o' s) = d"
    by (cases rule: selectOrder_cases [of o' a cfg env now None gp cs s]) (use inv in auto)
qed simp_all

lemma num_nonneg: "decimalString s \<Longrightarrow> 0 \<le> num s"
  using decimalString_parses [of s] by (auto simp: num_def)

lemma priceOr0_nonneg:
  assumes "auctionSchema a"
  shows "0 \<le> priceOr0 (referencePrice a token)"
proof (cases "jm_get (au_tokens a) token")
  case (Some t)
  then have "(token, t) \<in> set (au_tokens a)" by (rule map_of_SomeD)
  then have "auctionTokenSchema t" using assms by (auto simp: auctionSchema_def list_all_iff)
  then show ?thesis using Some
    by (auto simp: auctionTokenSchema_def optional_def priceOr0_def referencePrice_def num_nonneg split: option.splits)
qed (simp add: referencePrice_def priceOr0_def)

lemma schema_order:
  assumes "auctionSchema a" "o' \<in> set (au_orders a)"
  shows "0 \<le> num (ao_sellAmount o')" "0 \<le> num (ao_buyAmount o')"
  using assms by (auto simp: auctionSchema_def list_all_iff auctionOrderSchema_def num_nonneg)

text \<open>The candidates a replica holds come from proposals of the wire: their amounts are not negative.\<close>

definition candidate_amounts_ok :: "candidate \<Rightarrow> bool" where
  "candidate_amounts_ok c \<longleftrightarrow> 0 \<le> c_sellAmount c \<and> 0 \<le> candidateBuy c \<and> 0 \<le> c_gasUsed c"

text \<open>What a viable candidate's cut means on the order of the auction.\<close>

lemma viable_limit:
  assumes v: "viable o' sp tp gp t c = Some (score, gc)" and ok: "candidate_amounts_ok c" and gp: "0 \<le> gp"
    and tp: "0 \<le> tp" and o: "0 \<le> num (ao_sellAmount o')" "0 \<le> num (ao_buyAmount o')"
  shows "0 \<le> cutAmount gc \<and>
    (if ao_kind o' = ''sell''
     then 0 \<le> executedAmount gc \<and> executedAmount gc + cutAmount gc \<le> num (ao_sellAmount o') \<and>
       num (ao_buyAmount o') * (executedAmount gc + cutAmount gc) * c_sellAmount c \<le>
         candidateBuy c * executedAmount gc * num (ao_sellAmount o')
     else executedAmount gc \<le> num (ao_buyAmount o') \<and>
       (c_sellAmount c + cutAmount gc) * num (ao_buyAmount o') \<le> num (ao_sellAmount o') * executedAmount gc)"
proof -
  let ?c = "scoringOf o' gp c"
  from v obtain d where d: "scaledToFill ?c (ao_partiallyFillable o') = Some d" and cut: "gasCutSize d tp = Some gc"
    and fits: "ao_partiallyFillable o' \<longrightarrow> \<not> exceedsOrder o' c"
    by (auto simp: viable_def split: option.splits if_splits)
  have c_ok: "candidate_ok ?c" using ok gp o
    by (simp add: candidate_ok_def scoringOf_def candidate_amounts_ok_def effectiveGas_def GAS_BUFFER_def)
  have d_ok: "candidate_ok d" using scaledToFill_ok [OF c_ok d] .
  have frame: "proposalSell d = c_sellAmount c" "proposalBuy d = candidateBuy c" "isSellOrder d = (ao_kind o' = ''sell'')"
    using scaledToFill_frame [OF d] by (simp_all add: scoringOf_def)
  have tp0: "0 < tp" and amount: "cutAmount gc = ceilDiv (gasCost d * ETHER) tp"
    using gasCutSize_amount [OF cut] tp by auto
  have fee: "0 \<le> cutAmount gc" unfolding amount using d_ok tp0 by (intro ceilDiv_nonneg) (simp_all add: candidate_ok_def)
  note lim = gas_cut_respects_limit [OF d_ok cut]
  have ratio: "num (ao_buyAmount o') * orderSell d \<le> orderBuy d * num (ao_sellAmount o')"
  proof (cases "ao_partiallyFillable o'")
    case True
    then have "scaledToFill ?c True = Some d" using d by simp
    then show ?thesis using scaled_limit_not_relaxed [OF c_ok] by (simp add: scoringOf_def)
  next
    case False
    then have "orderSell d = num (ao_sellAmount o')" "orderBuy d = num (ao_buyAmount o')"
      using d by (auto simp: scaledToFill_def scoringOf_def)
    then show ?thesis by simp
  qed
  have nn: "0 \<le> num (ao_sellAmount o')" "0 \<le> c_sellAmount c" "0 \<le> num (ao_buyAmount o')" using o ok by (simp_all add: candidate_amounts_ok_def)
  show ?thesis
  proof (cases "ao_kind o' = ''sell''")
    case True
    have ex: "executedAmount gc + cutAmount gc = orderSell d" "0 \<le> executedAmount gc"
      "orderBuy d * c_sellAmount c \<le> candidateBuy c * executedAmount gc" using lim True frame by simp_all
    have whole: "orderSell d \<le> num (ao_sellAmount o')"
      using d fits True by (auto simp: scaledToFill_def scoringOf_def exceedsOrder_def split: if_splits)
    have "num (ao_buyAmount o') * orderSell d * c_sellAmount c \<le> orderBuy d * num (ao_sellAmount o') * c_sellAmount c"
      using ratio nn(2) by (rule mult_right_mono)
    also have "\<dots> = orderBuy d * c_sellAmount c * num (ao_sellAmount o')" by simp
    also have "\<dots> \<le> candidateBuy c * executedAmount gc * num (ao_sellAmount o')" using ex(3) nn(1) by (rule mult_right_mono)
    finally show ?thesis using True fee ex whole by simp
  next
    case False
    have ex: "c_sellAmount c + cutAmount gc \<le> orderSell d" "executedAmount gc = orderBuy d" using lim False frame by simp_all
    have whole: "orderBuy d \<le> num (ao_buyAmount o')"
      using d fits False by (auto simp: scaledToFill_def scoringOf_def exceedsOrder_def split: if_splits)
    have "(c_sellAmount c + cutAmount gc) * num (ao_buyAmount o') \<le> orderSell d * num (ao_buyAmount o')"
      using ex(1) nn(3) by (rule mult_right_mono)
    also have "\<dots> \<le> num (ao_sellAmount o') * orderBuy d" using ratio by (simp add: mult.commute)
    finally show ?thesis using False fee ex whole by simp
  qed
qed

text \<open>
  C5. What is bid keeps the user's limit: every solution of a request, real or quote, is one trade of an
  order of the auction by one candidate, and its executed amount and fee leave the user inside the
  order's amounts and at the limit price or better: a sell order spends, fee included, at most its
  remaining sell amount and receives its price on all that is spent; a buy order gets at most its
  remaining buy amount, and what the route takes plus the fee stays under the limit for it.
\<close>

theorem bids_respect_limit:
  assumes schema: "auctionSchema a" and gas: "0 \<le> gasPrice" and cs: "\<forall>c \<in> set cs. candidate_amounts_ok c"
    and sol: "sol \<in> set (sl_solutions (selectAll cfg env now a auctionId gasPrice cs d))"
  shows "\<exists>o' \<in> set (au_orders a). \<exists>c \<in> set cs. \<exists>executed fee.
    sn_id sol = c_id c \<and> lower (c_orderUid c) = lower (ao_uid o') \<and> now div 1000 < c_validUntil c \<and>
    sn_trades sol = [\<lparr>fu_order = ao_uid o', fu_executedAmount = bigint_str executed, fu_fee = bigint_str fee\<rparr>] \<and>
    jm_get (sn_prices sol) (ao_buyToken o') = Some (bigint_str (c_sellAmount c)) \<and>
    (ao_sellToken o' \<noteq> ao_buyToken o' \<longrightarrow> jm_get (sn_prices sol) (ao_sellToken o') = Some (bigint_str (candidateBuy c))) \<and>
    0 \<le> fee \<and>
    (if ao_kind o' = ''sell''
     then 0 \<le> executed \<and> executed + fee \<le> num (ao_sellAmount o') \<and>
       num (ao_buyAmount o') * (executed + fee) * c_sellAmount c \<le> candidateBuy c * executed * num (ao_sellAmount o')
     else executed \<le> num (ao_buyAmount o') \<and>
       (c_sellAmount c + fee) * num (ao_buyAmount o') \<le> num (ao_sellAmount o') * executed)"
proof -
  obtain o' c gc where bid: "bid_of cfg now a gasPrice cs o' c gc sol" using selectAll_bids [OF sol] by blast
  then obtain sp score where v: "viable o' sp (priceOr0 (referencePrice a (ao_sellToken o'))) gasPrice (now div 1000) c = Some (score, gc)"
    and mem: "o' \<in> set (au_orders a)" "c \<in> set cs" "lower (c_orderUid c) = lower (ao_uid o')"
    and s: "sol = buildSolution (sc_lib cfg) (c_id c) o' c (c_gasUsed c) gc"
    by (auto simp: bid_of_def)
  have "now div 1000 < c_validUntil c" using v by (auto simp: viable_def split: if_splits)
  moreover have "sn_id sol = c_id c \<and>
    sn_trades sol = [\<lparr>fu_order = ao_uid o', fu_executedAmount = bigint_str (executedAmount gc), fu_fee = bigint_str (cutAmount gc)\<rparr>] \<and>
    jm_get (sn_prices sol) (ao_buyToken o') = Some (bigint_str (c_sellAmount c)) \<and>
    (ao_sellToken o' \<noteq> ao_buyToken o' \<longrightarrow> jm_get (sn_prices sol) (ao_sellToken o') = Some (bigint_str (candidateBuy c)))"
    unfolding s by (simp add: buildSolution_def split: prod.split)
  ultimately show ?thesis
    using mem viable_limit [OF v _ gas priceOr0_nonneg [OF schema] schema_order [OF schema mem(1)]] cs by blast
qed

section \<open>Where the candidates go\<close>

text \<open>What the loop over the orders of a real auction keeps, for candidates with distinct ids.\<close>

definition selection_ok :: "int \<Rightarrow> candidate list \<Rightarrow> db \<Rightarrow> selected \<Rightarrow> bool" where
  "selection_ok now cs d0 s \<longleftrightarrow>
     map sn_id (sl_solutions s) = sl_ids s \<and> distinct (sl_ids s) \<and>
     set (sl_uids s) = (\<lambda>c. lower (c_orderUid c)) ` {c \<in> set cs. c_id c \<in> set (sl_ids s)} \<and>
     (\<forall>i \<in> set (sl_ids s). liveRow d0 i = None \<and> (\<exists>c \<in> set cs. \<exists>buyPrice prices cap. c_id c = i \<and>
        liveRow (sl_db s) i = Some (submittedRow now c buyPrice prices cap))) \<and>
     (\<forall>i. i \<notin> set (sl_ids s) \<longrightarrow> liveRow (sl_db s) i = liveRow d0 i \<and> logRow (sl_db s) i = logRow d0 i)"

lemma insertSelected_SomeD:
  assumes "insertSelected cfg env now a o' gp c sol d = Some d'"
  shows "\<exists>buyPrice prices cap. insertProposal (submittedRow now c buyPrice prices cap) d = Some d'"
  using assms by (auto simp: insertSelected_def insertAsSubmitted_def Let_def split: if_splits)

lemma insertProposal_fresh: "insertProposal r d = Some d' \<Longrightarrow> liveRow d (r_id r) = None"
  by (auto simp: insertProposal_def liveRow_def find_None_hit split: if_splits)

lemma submittedRow_id [simp]: "r_id (submittedRow now c b prices cap) = c_id c"
  by (simp add: submittedRow_def)

lemma selectOrder_ok:
  assumes o: "o' \<in> set (au_orders a)" and inv: "selection_ok now cs d0 s" and inj: "inj_on c_id (set cs)"
  shows "selection_ok now cs d0 (selectOrder cfg env now a (Some i) gp (groupByOrder cs) o' s)"
proof (cases rule: selectOrder_cases [OF o, of cfg env now "Some i" gp cs s])
  case 1
  then show ?thesis using inv by simp
next
  case (2 c gc sol d)
  then have bid: "c \<in> set cs" "lower (c_orderUid c) = lower (ao_uid o')" "sn_id sol = c_id c"
    by (auto simp: bid_of_def buildSolution_def split: prod.splits)
  obtain buyPrice prices cap where ins: "insertProposal (submittedRow now c buyPrice prices cap) (sl_db s) = Some d"
    using 2(2) insertSelected_SomeD [of cfg env now a o' gp c sol "sl_db s" d] by auto
  note rows = liveRow_insert [OF ins] logRow_insert [OF ins]
  have fresh: "liveRow (sl_db s) (c_id c) = None" using insertProposal_fresh [OF ins] by simp
  have new: "c_id c \<notin> set (sl_ids s)" using inv fresh by (fastforce simp: selection_ok_def)
  then have d0: "liveRow d0 (c_id c) = None" using inv fresh by (simp add: selection_ok_def)
  have "{c' \<in> set cs. c_id c' \<in> insert (c_id c) (set (sl_ids s))} = insert c {c' \<in> set cs. c_id c' \<in> set (sl_ids s)}"
    using inj bid(1) by (auto dest: inj_onD)
  then have uids: "insert (lower (ao_uid o')) (set (sl_uids s)) =
      (\<lambda>c. lower (c_orderUid c)) ` {c' \<in> set cs. c_id c' \<in> insert (c_id c) (set (sl_ids s))}"
    using inv bid(2) by (simp add: selection_ok_def)
  show ?thesis
    unfolding 2(3) selection_ok_def
  proof (intro conjI)
    show "\<forall>i \<in> set (sl_ids \<lparr>sl_solutions = sl_solutions s @ [sol], sl_ids = sl_ids s @ [c_id c],
          sl_uids = js_add (lower (ao_uid o')) (sl_uids s), sl_db = d\<rparr>). liveRow d0 i = None \<and>
        (\<exists>c' \<in> set cs. \<exists>buyPrice prices cap. c_id c' = i \<and>
          liveRow (sl_db \<lparr>sl_solutions = sl_solutions s @ [sol], sl_ids = sl_ids s @ [c_id c],
            sl_uids = js_add (lower (ao_uid o')) (sl_uids s), sl_db = d\<rparr>) i = Some (submittedRow now c' buyPrice prices cap))"
    proof
      fix i assume i: "i \<in> set (sl_ids \<lparr>sl_solutions = sl_solutions s @ [sol], sl_ids = sl_ids s @ [c_id c],
          sl_uids = js_add (lower (ao_uid o')) (sl_uids s), sl_db = d\<rparr>)"
      show "liveRow d0 i = None \<and>
        (\<exists>c' \<in> set cs. \<exists>buyPrice prices cap. c_id c' = i \<and>
          liveRow (sl_db \<lparr>sl_solutions = sl_solutions s @ [sol], sl_ids = sl_ids s @ [c_id c],
            sl_uids = js_add (lower (ao_uid o')) (sl_uids s), sl_db = d\<rparr>) i = Some (submittedRow now c' buyPrice prices cap))"
      proof (cases "i = c_id c")
        case True
        then show ?thesis using d0 bid(1) by (auto simp: rows)
      next
        case False
        then have "i \<in> set (sl_ids s)" using i by simp
        then show ?thesis using inv False by (simp add: selection_ok_def rows)
      qed
    qed
  qed (use inv new bid uids in \<open>simp_all add: selection_ok_def rows\<close>)
qed

lemma selectAll_ok:
  assumes "inj_on c_id (set cs)"
  shows "selection_ok now cs d (selectAll cfg env now a (Some i) gp cs d)"
  unfolding selectAll_def
proof (rule fold_invariant [where Q = "\<lambda>o'. o' \<in> set (au_orders a)"])
  fix o' s assume "o' \<in> set (au_orders a)" "selection_ok now cs d s"
  then show "selection_ok now cs d (selectOrder cfg env now a (Some i) gp (groupByOrder cs) o' s)"
    using assms by (rule selectOrder_ok)
qed (simp_all add: selection_ok_def)

text \<open>The log after the flush: every flushed candidate has its row, and nothing else changed.\<close>

definition flushedRow :: "int \<Rightarrow> string list \<Rightarrow> candidate \<Rightarrow> proposal_row" where
  "flushedRow now uids c =
     logRowOf now (c_id c) (flushedProposal (flushReason uids c) c) Rejected (Some (flushReason uids c)) None"

lemma flush_rows:
  assumes "\<forall>i. \<not> sv_logFails env i"
  shows "liveRow (fold (flushCandidate env now uids) cs d) j = liveRow d j \<and>
    logRow (fold (flushCandidate env now uids) cs d) j =
      (case logRow d j of Some l \<Rightarrow> Some l | None \<Rightarrow> map_option (flushedRow now uids) (find (\<lambda>c. c_id c = j) cs))"
proof (induction cs arbitrary: d)
  case (Cons c cs)
  then show ?case using assms
    by (auto simp: flushCandidate_def writeToLog_rows flushedRow_def split: option.splits)
qed (simp split: option.split)

lemma snapshot_inj: "store_ok cs \<Longrightarrow> inj_on c_id (set (snapshotForAuction i cs))"
  by (rule inj_onI) (metis snapshot_iff option.inject)

lemma candidate_unique:
  "store_ok cs \<Longrightarrow> c \<in> set (snapshotForAuction i cs) \<Longrightarrow> c' \<in> set (snapshotForAuction i cs) \<Longrightarrow> c_id c = c_id c' \<Longrightarrow> c = c'"
  using snapshot_inj [of cs i] by (blast dest: inj_onD)

text \<open>
  C8. Closing an auction settles every candidate and only its own: when the writes succeed, each
  candidate of the snapshot leaves the in-memory store, and either it is a bid of the response, then a
  submitted row with its signed data is in the database before the response is sent, or it is in the
  permanent log as rejected, with \<open>SubsolverOutbid\<close> exactly when another candidate of the same order was
  bid and \<open>AuctionClosed\<close> otherwise. No proposal is bid twice, every bid is one of these candidates, and
  candidates of other auctions and all other rows are as they were.
\<close>

theorem closing_settles_every_candidate:
  assumes ok: "store_ok (sw_store w)" and writes: "\<forall>i. \<not> sv_logFails env i"
    and fresh: "\<forall>c \<in> set (snapshotForAuction i (sw_store w)). logRow (sw_db w) (c_id c) = None"
    and close: "solveClose cfg env now a (Some i) gasPrice w = (Solutions sols, w')"
  shows "distinct (map sn_id sols) \<and> sn_id ` set sols \<subseteq> c_id ` set (snapshotForAuction i (sw_store w)) \<and>
    (\<forall>c \<in> set (snapshotForAuction i (sw_store w)).
       get_candidate (c_id c) (sw_store w') = None \<and>
       (if c_id c \<in> sn_id ` set sols
        then \<exists>buyPrice prices cap. liveRow (sw_db w') (c_id c) = Some (submittedRow now c buyPrice prices cap)
        else liveRow (sw_db w') (c_id c) = liveRow (sw_db w) (c_id c) \<and>
          (\<exists>l. logRow (sw_db w') (c_id c) = Some l \<and> r_status l = Rejected \<and> r_auctionId l = Some (c_auctionId c) \<and>
             r_nonce l = bigint_str (c_nonce c) \<and>
             r_rejectionReason l = Some (if \<exists>c' \<in> set (snapshotForAuction i (sw_store w)).
                c_id c' \<in> sn_id ` set sols \<and> lower (c_orderUid c') = lower (c_orderUid c)
              then SubsolverOutbid else AuctionClosed)))) \<and>
    (\<forall>j. j \<notin> c_id ` set (snapshotForAuction i (sw_store w)) \<longrightarrow>
       get_candidate j (sw_store w') = get_candidate j (sw_store w) \<and>
       liveRow (sw_db w') j = liveRow (sw_db w) j \<and> logRow (sw_db w') j = logRow (sw_db w) j)"
proof -
  let ?cs = "snapshotForAuction i (sw_store w)"
  let ?s = "selectAll cfg env now a (Some i) gasPrice ?cs (sw_db w)"
  let ?flush = "filter (\<lambda>c. c_id c \<notin> set (sl_ids ?s)) ?cs"
  let ?d = "fold (flushCandidate env now (sl_uids ?s)) ?flush (sl_db ?s)"
  have sel: "selection_ok now ?cs (sw_db w) ?s" using snapshot_inj [OF ok] by (rule selectAll_ok)
  have w': "sw_db w' = ?d" "sols = sl_solutions ?s"
    "sw_store w' = removeAll_candidates (map c_id ?flush) (removeAll_candidates (sl_ids ?s) (sw_store w))"
    using close by (auto simp: solveClose_def closeAuction_def Let_def split: if_splits)
  have ids: "map sn_id sols = sl_ids ?s" using sel w'(2) by (simp add: selection_ok_def)
  then have ids_set: "sn_id ` set sols = set (sl_ids ?s)" by (metis set_map)
  have sub: "set (sl_ids ?s) \<subseteq> c_id ` set ?cs" using sel by (fastforce simp: selection_ok_def)
  note rows = flush_rows [OF writes, of now "sl_uids ?s" ?flush "sl_db ?s"]
  have per: "get_candidate (c_id c) (sw_store w') = None \<and>
       (if c_id c \<in> sn_id ` set sols
        then \<exists>buyPrice prices cap. liveRow (sw_db w') (c_id c) = Some (submittedRow now c buyPrice prices cap)
        else liveRow (sw_db w') (c_id c) = liveRow (sw_db w) (c_id c) \<and>
          (\<exists>l. logRow (sw_db w') (c_id c) = Some l \<and> r_status l = Rejected \<and> r_auctionId l = Some (c_auctionId c) \<and>
             r_nonce l = bigint_str (c_nonce c) \<and>
             r_rejectionReason l = Some (if \<exists>c' \<in> set ?cs. c_id c' \<in> sn_id ` set sols \<and> lower (c_orderUid c') = lower (c_orderUid c)
              then SubsolverOutbid else AuctionClosed)))" if c: "c \<in> set ?cs" for c
  proof (cases "c_id c \<in> set (sl_ids ?s)")
    case True
    then obtain c' buyPrice prices cap where "c' \<in> set ?cs" "c_id c' = c_id c"
      "liveRow (sl_db ?s) (c_id c) = Some (submittedRow now c' buyPrice prices cap)"
      using sel unfolding selection_ok_def by blast
    moreover from this have "c' = c" using candidate_unique [OF ok _ c] by blast
    ultimately show ?thesis using True rows [of "c_id c"] by (auto simp: w' get_removeAll ids_set [unfolded w'(2)])
  next
    case False
    have same: "liveRow (sl_db ?s) (c_id c) = liveRow (sw_db w) (c_id c)" "logRow (sl_db ?s) (c_id c) = None"
      using sel False fresh c by (auto simp: selection_ok_def)
    have mem: "c \<in> set ?flush" using False c by simp
    then have "find (\<lambda>x. c_id x = c_id c) ?flush \<noteq> None" by (auto simp: find_None_iff)
    then obtain x where x: "find (\<lambda>x. c_id x = c_id c) ?flush = Some x" by blast
    then have "x \<in> set ?cs" "c_id x = c_id c" using find_SomeD [OF x] by auto
    then have "x = c" using candidate_unique [OF ok _ c] by blast
    then have log: "logRow (sw_db w') (c_id c) = Some (flushedRow now (sl_uids ?s) c)"
      using rows [of "c_id c"] same x by (simp add: w')
    have uids: "set (sl_uids ?s) = (\<lambda>c. lower (c_orderUid c)) ` {c \<in> set ?cs. c_id c \<in> set (sl_ids ?s)}"
      using sel by (simp add: selection_ok_def)
    have "lower (c_orderUid c) \<in> set (sl_uids ?s) \<longleftrightarrow>
        (\<exists>c' \<in> set ?cs. c_id c' \<in> set (sl_ids ?s) \<and> lower (c_orderUid c') = lower (c_orderUid c))"
      unfolding uids image_iff by (metis (mono_tags, lifting) mem_Collect_eq)
    then have "r_rejectionReason (flushedRow now (sl_uids ?s) c) =
        Some (if \<exists>c' \<in> set ?cs. c_id c' \<in> set (sl_ids ?s) \<and> lower (c_orderUid c') = lower (c_orderUid c)
              then SubsolverOutbid else AuctionClosed)"
      by (simp add: flushedRow_def logRowOf_def flushReason_def)
    moreover have "r_status (flushedRow now (sl_uids ?s) c) = Rejected"
      "r_auctionId (flushedRow now (sl_uids ?s) c) = Some (c_auctionId c)"
      "r_nonce (flushedRow now (sl_uids ?s) c) = bigint_str (c_nonce c)"
      by (simp_all add: flushedRow_def logRowOf_def flushedProposal_def candidateToProposal_def)
    moreover have "get_candidate (c_id c) (sw_store w') = None" using mem by (simp add: w' get_removeAll)
    moreover have "liveRow (sw_db w') (c_id c) = liveRow (sw_db w) (c_id c)" using rows [of "c_id c"] same by (simp add: w')
    ultimately show ?thesis using log False by (simp add: ids_set)
  qed
  have others: "get_candidate j (sw_store w') = get_candidate j (sw_store w) \<and>
      liveRow (sw_db w') j = liveRow (sw_db w) j \<and> logRow (sw_db w') j = logRow (sw_db w) j"
    if j: "j \<notin> c_id ` set ?cs" for j
  proof -
    have "j \<notin> set (sl_ids ?s)" using sub j by blast
    moreover from this have "liveRow (sl_db ?s) j = liveRow (sw_db w) j" "logRow (sl_db ?s) j = logRow (sw_db w) j"
      using sel by (auto simp: selection_ok_def)
    moreover have "j \<notin> c_id ` set ?flush" using j by auto
    moreover from this have "find (\<lambda>c. c_id c = j) ?flush = None" unfolding find_None_iff by blast
    ultimately show ?thesis using rows [of j] by (auto simp: w' get_removeAll split: option.split)
  qed
  have bids: "distinct (map sn_id sols)" "sn_id ` set sols \<subseteq> c_id ` set ?cs"
    using sel ids sub ids_set by (simp_all add: selection_ok_def)
  show ?thesis
    by (rule conjI [OF bids(1) conjI [OF bids(2) conjI [OF ballI [OF per] allI [OF impI [OF others]]]]])
qed

section \<open>Quote requests\<close>

text \<open>
  A quote request writes nothing but the gas price: an auction without an id is answered from the
  candidates in memory, and neither half of the handler changes the store, the escrow cache, the auction
  state or any table; all it may do is publish a gas price that fits 64 bits.
\<close>

theorem quotes_write_nothing:
  assumes "falsy (au_id a)"
  shows "(snd (solveOpen cfg env now (Some a) w) = w \<or>
      (\<exists>g \<le> U64_MAX. snd (solveOpen cfg env now (Some a) w) = w\<lparr>sw_db := publishAuctionGasPrice g (sw_db w)\<rparr>)) \<and>
    (\<forall>i g. fst (solveOpen cfg env now (Some a) w) = Window i g \<longrightarrow> i = None) \<and>
    (\<exists>sols. solveClose cfg env now a None g w = (Solutions sols, w))"
proof -
  have gas: "snd (snd (publishGas env a (sw_db w))) = sw_db w \<or>
      (\<exists>g \<le> U64_MAX. snd (snd (publishGas env a (sw_db w))) = publishAuctionGasPrice g (sw_db w))"
    by (auto simp: publishGas_def split: option.split)
  have same: "w\<lparr>sw_db := sw_db w\<rparr> = w" by simp
  have opened: "snd (solveOpen cfg env now (Some a) w) = w \<or>
      snd (solveOpen cfg env now (Some a) w) = w\<lparr>sw_db := snd (snd (publishGas env a (sw_db w)))\<rparr>"
    "\<forall>i g. fst (solveOpen cfg env now (Some a) w) = Window i g \<longrightarrow> i = None"
    using assms by (auto simp: solveOpen_def parseAuctionId_def Let_def split: prod.split)
  have "\<exists>sols. solveClose cfg env now a None g w = (Solutions sols, w)"
    by (simp add: solveClose_def Let_def selectAll_quote_db)
  then show ?thesis using opened gas same by metis
qed

section \<open>Concrete requests\<close>

definition exampleUid :: string where
  "exampleUid = ''0x'' @ replicate 112 CHR ''c''"

definition exampleToken :: "char \<Rightarrow> string" where
  "exampleToken c = ''0x'' @ replicate 40 c"

definition exampleAuction :: auction where
  "exampleAuction = \<lparr>au_id = Some ''1'',
     au_tokens = [(exampleToken CHR ''a'', \<lparr>at_referencePrice = Some ''1000000000000000000'', at_availableBalance = ''0'', at_trusted = True\<rparr>),
       (exampleToken CHR ''b'', \<lparr>at_referencePrice = Some ''1000000000000000000'', at_availableBalance = ''0'', at_trusted = True\<rparr>)],
     au_orders = [\<lparr>ao_uid = exampleUid, ao_sellToken = exampleToken CHR ''a'', ao_buyToken = exampleToken CHR ''b'',
       ao_sellAmount = ''100'', ao_fullSellAmount = ''100'', ao_buyAmount = ''30'', ao_fullBuyAmount = ''30'', ao_validTo = 2000,
       ao_kind = ''sell'', ao_owner = exampleToken CHR ''d'', ao_receiver = None, ao_partiallyFillable = True,
       ao_preInteractions = [], ao_postInteractions = [], ao_sellTokenSource = ''erc20'', ao_buyTokenDestination = ''erc20'',
       ao_appData = ''0x'', ao_signingScheme = ''eip712'', ao_signature = ''0x''\<rparr>],
     au_effectiveGasPrice = ''0'', au_deadline = 0\<rparr>"

definition exampleSolveConfig :: solve_config where
  "exampleSolveConfig = \<lparr>sc_replica = 0, sc_minCollateral = None, sc_collateralRatioBps = None, sc_lib = exampleLib\<rparr>"

definition exampleSolveEnv :: solve_env where
  "exampleSolveEnv = \<lparr>sv_publishFails = False, sv_sharedFails = False, sv_readFails = False, sv_clearFails = False,
     sv_insertFails = \<lambda>i. False, sv_logFails = \<lambda>i. False, sv_prefetch = None\<rparr>"

definition exampleBook :: candidate_store where
  "exampleBook = [(7, exampleCandidate\<lparr>c_orderUid := exampleUid\<rparr>),
     (8, exampleCandidate\<lparr>c_id := 8, c_orderUid := exampleUid, c_quoteBuyAmount := 17, c_simulationBuyAmount := None, c_nonce := 2\<rparr>)]"

definition exampleWorld :: solve_world where
  "exampleWorld = \<lparr>sw_db = emptyDb, sw_store = exampleBook,
     sw_auctions = \<lparr>aw_current = \<lambda>i. None, aw_shared = None\<rparr>,
     sw_escrow = \<lparr>ec_cache = [], ec_reads = [], ec_next = 0, ec_auction = 0\<rparr>\<rparr>"

lemma lower_exampleUid: "lower exampleUid = exampleUid"
  by (simp add: exampleUid_def lower_append map_replicate lower_def lower_char_def)

lemma example_uids: "lower (ao_uid (hd (au_orders exampleAuction))) = exampleUid"
  by (simp add: exampleAuction_def lower_exampleUid)

lemma example_viable:
  "viable (hd (au_orders exampleAuction)) 1000000000000000000 1000000000000000000 0 0 (exampleCandidate\<lparr>c_orderUid := exampleUid\<rparr>) =
     Some (3, \<lparr>cutAmount = 0, executedAmount = 50\<rparr>)"
  by code_simp

lemma exampleAuction_schema: "auctionSchema exampleAuction"
  by code_simp

theorem quotes_write_nothing_witness:
  "\<exists>sols. solveClose exampleSolveConfig exampleSolveEnv 0 (exampleAuction\<lparr>au_id := None\<rparr>) None 0 exampleWorld =
     (Solutions sols, exampleWorld)"
  using quotes_write_nothing [of "exampleAuction\<lparr>au_id := None\<rparr>"] by simp

abbreviation exampleOrder1 :: auction_order where
  "exampleOrder1 \<equiv> hd (au_orders exampleAuction)"

lemma example_best:
  "bestCandidate (viable exampleOrder1 1000000000000000000 1000000000000000000 0 0) (getAll exampleBook) =
     Some (exampleCandidate\<lparr>c_orderUid := exampleUid\<rparr>, \<lparr>cutAmount = 0, executedAmount = 50\<rparr>)"
  by code_simp

lemma num_example: "num ''1000000000000000000'' = 1000000000000000000"
  by (simp add: num_def BigInt_digits dec_val_def digit_val_def is_digit_def)

lemma example_prices:
  "priceOr0 (referencePrice exampleAuction (surplusToken (ao_kind exampleOrder1 = ''sell'') (ao_sellToken exampleOrder1)
     (ao_buyToken exampleOrder1))) = 1000000000000000000"
  "priceOr0 (referencePrice exampleAuction (ao_sellToken exampleOrder1)) = 1000000000000000000"
  by (simp_all add: exampleAuction_def referencePrice_def priceOr0_def num_example surplusToken_def exampleToken_def)

lemma example_candidates:
  "orDefault [] (jm_get (groupByOrder (getAll exampleBook)) (lower (ao_uid exampleOrder1))) = getAll exampleBook"
  unfolding groupByOrder_get example_uids by (simp add: exampleBook_def getAll_def lower_exampleUid)

lemma example_response:
  "sl_solutions (selectAll exampleSolveConfig exampleSolveEnv 0 exampleAuction None 0 (getAll exampleBook) emptyDb) =
     [buildSolution exampleLib 7 exampleOrder1 (exampleCandidate\<lparr>c_orderUid := exampleUid\<rparr>) 100000
        \<lparr>cutAmount = 0, executedAmount = 50\<rparr>]"
proof -
  have orders: "au_orders exampleAuction = [exampleOrder1]" by (simp add: exampleAuction_def)
  show ?thesis
    unfolding selectAll_def
    by (subst orders) (simp add: selectOrder_def example_candidates example_prices example_best exampleSolveConfig_def,
      simp add: exampleCandidate_def)
qed

theorem bids_respect_limit_witness:
  "\<exists>o' \<in> set (au_orders exampleAuction). \<exists>c \<in> set (getAll exampleBook). c_id c = 7 \<and> lower (c_orderUid c) = lower (ao_uid o')"
proof -
  let ?sol = "buildSolution exampleLib 7 exampleOrder1 (exampleCandidate\<lparr>c_orderUid := exampleUid\<rparr>) 100000
        \<lparr>cutAmount = 0, executedAmount = 50\<rparr>"
  have cs: "\<forall>c \<in> set (getAll exampleBook). candidate_amounts_ok c"
    by (simp add: exampleBook_def getAll_def candidate_amounts_ok_def candidateBuy_def effectiveBuy_def exampleCandidate_def)
  have sol: "?sol \<in> set (sl_solutions (selectAll exampleSolveConfig exampleSolveEnv 0 exampleAuction None 0 (getAll exampleBook) emptyDb))"
    unfolding example_response by simp
  have "sn_id ?sol = 7" by (simp add: buildSolution_def split: prod.split)
  then show ?thesis using bids_respect_limit [OF exampleAuction_schema order_refl cs sol] by metis
qed

theorem closing_settles_every_candidate_witness:
  "get_candidate 8 (sw_store (snd (solveClose exampleSolveConfig exampleSolveEnv 0 exampleAuction (Some 1) 0 exampleWorld))) = None"
proof -
  let ?r = "solveClose exampleSolveConfig exampleSolveEnv 0 exampleAuction (Some 1) 0 exampleWorld"
  have ok: "store_ok (sw_store exampleWorld)"
    by (simp add: exampleWorld_def exampleBook_def store_ok_def jm_ok_def exampleCandidate_def)
  have c8: "exampleCandidate\<lparr>c_id := 8, c_orderUid := exampleUid, c_quoteBuyAmount := 17, c_simulationBuyAmount := None, c_nonce := 2\<rparr>
      \<in> set (snapshotForAuction 1 (sw_store exampleWorld))"
    by (simp add: exampleWorld_def exampleBook_def snapshotForAuction_def getAll_def exampleCandidate_def)
  obtain sols w' where r: "?r = (Solutions sols, w')"
    by (simp add: solveClose_def closeAuction_def Let_def exampleSolveEnv_def)
  from closing_settles_every_candidate [OF ok _ _ r] c8
  have "get_candidate 8 (sw_store w') = None"
    by (auto simp: exampleSolveEnv_def exampleWorld_def emptyDb_def logRow_def)
  then show ?thesis by (simp add: r)
qed

text \<open>
  A candidate admitted for an auction after its snapshot was taken stays: no request but one for the
  same auction removes it or records its fate.
\<close>

lemma late_candidate_stays:
  assumes ok: "store_ok (sw_store w)" and c: "get_candidate j (sw_store w) = Some c" and other: "auctionId \<noteq> Some (c_auctionId c)"
  shows "get_candidate j (sw_store (snd (solveClose cfg env now a auctionId gasPrice w))) = Some c"
proof (cases auctionId)
  case None
  then show ?thesis using c by (simp add: solveClose_def Let_def)
next
  case (Some i)
  let ?cs = "snapshotForAuction i (sw_store w)"
  let ?s = "selectAll cfg env now a (Some i) gasPrice ?cs (sw_db w)"
  have "c_id c' \<noteq> j" if "c' \<in> set ?cs" for c'
    using that c other Some snapshot_iff [OF ok] by force
  moreover have "set (sl_ids ?s) \<subseteq> c_id ` set ?cs"
    using selectAll_ok [OF snapshot_inj [OF ok]] by (fastforce simp: selection_ok_def)
  ultimately have "j \<notin> set (sl_ids ?s)" "j \<notin> c_id ` set ?cs" by auto
  then show ?thesis using c Some by (auto simp: solveClose_def closeAuction_def Let_def get_removeAll split: if_splits)
qed

end
