(* ===== verification/Signing.thy ===== *)
theory Signing
  imports Domain_Types
begin

text \<open>
  The messages sub-solvers sign (\<open>packages/common/src/eip712.ts\<close>). Typed-data hashing, recovery and
  ABI encoding are viem's: the fields of \<open>sig_lib\<close>, \<open>None\<close> where they throw. Which fields are bound into
  which message, under which domain, is the service's. Read tokens, cancellations and proposals are
  distinct primary types, so one is never taken for another.
\<close>

definition DOMAIN_NAME :: string where "DOMAIN_NAME = ''BYOS''"

definition DOMAIN_VERSION :: string where "DOMAIN_VERSION = ''0.1''"

definition READ_AUTH_VERSION :: int where "READ_AUTH_VERSION = 1"

record typed_domain =
  td_name :: string
  td_version :: string
  td_chainId :: int
  td_verifyingContract :: string

text \<open>A typed message: its primary type with the fields of \<open>proposalDataTypes\<close> and its siblings.\<close>

datatype typed_message =
  ProposalData (pd_orderUidHash: string) (pd_sellToken: string) (pd_buyToken: string) (pd_sellAmount: int)
    (pd_minBuyAmount: int) (pd_quoteBuyAmount: int) (pd_interactionsHash: string) (pd_validUntil: int) (pd_nonce: int)
| CancelProposal (cm_proposalId: int)
| ReadAuth (ra_version: int)

record sig_lib =
  sg_recover :: "typed_domain \<Rightarrow> typed_message \<Rightarrow> string \<Rightarrow> string option"
  sg_hash :: "typed_domain \<Rightarrow> typed_message \<Rightarrow> string"
  sg_encodeInteractions :: "interaction list \<Rightarrow> string"
  sg_keccak :: "string \<Rightarrow> string"

definition byosDomain :: "int \<Rightarrow> string \<Rightarrow> typed_domain" where
  "byosDomain chainId verifyingContract =
     \<lparr>td_name = DOMAIN_NAME, td_version = DOMAIN_VERSION, td_chainId = chainId, td_verifyingContract = verifyingContract\<rparr>"

definition computeInteractionsHash :: "sig_lib \<Rightarrow> interaction list \<Rightarrow> string" where
  "computeInteractionsHash lib interactions = sg_keccak lib (sg_encodeInteractions lib interactions)"

definition proposalMessage :: "contract_proposal \<Rightarrow> string \<Rightarrow> typed_message" where
  "proposalMessage p interactionsHash =
     ProposalData (cp_orderUidHash p) (cp_sellToken p) (cp_buyToken p) (cp_sellAmount p) (cp_minBuyAmount p)
       (cp_quoteBuyAmount p) interactionsHash (cp_validUntil p) (cp_nonce p)"

definition recoverProposer :: "sig_lib \<Rightarrow> string \<Rightarrow> typed_domain \<Rightarrow> contract_proposal \<Rightarrow> string \<Rightarrow> string option" where
  "recoverProposer lib signature domain p interactionsHash = sg_recover lib domain (proposalMessage p interactionsHash) signature"

definition recoverCanceller :: "sig_lib \<Rightarrow> string \<Rightarrow> typed_domain \<Rightarrow> int \<Rightarrow> string option" where
  "recoverCanceller lib signature domain proposalId = sg_recover lib domain (CancelProposal proposalId) signature"

definition recoverReader :: "sig_lib \<Rightarrow> string \<Rightarrow> typed_domain \<Rightarrow> string option" where
  "recoverReader lib signature domain = sg_recover lib domain (ReadAuth READ_AUTH_VERSION) signature"

definition hashProposalData :: "sig_lib \<Rightarrow> typed_domain \<Rightarrow> contract_proposal \<Rightarrow> string \<Rightarrow> string" where
  "hashProposalData lib domain p interactionsHash = sg_hash lib domain (proposalMessage p interactionsHash)"

section \<open>The sub-solver's side\<close>

type_synonym signer = "typed_domain \<Rightarrow> typed_message \<Rightarrow> string"

definition signProposal :: "sig_lib \<Rightarrow> signer \<Rightarrow> typed_domain \<Rightarrow> contract_proposal \<Rightarrow> interaction list \<Rightarrow> string" where
  "signProposal lib sign domain p interactions = sign domain (proposalMessage p (computeInteractionsHash lib interactions))"

definition signCancellation :: "signer \<Rightarrow> typed_domain \<Rightarrow> int \<Rightarrow> string" where
  "signCancellation sign domain proposalId = sign domain (CancelProposal proposalId)"

definition signReadAuth :: "signer \<Rightarrow> typed_domain \<Rightarrow> string" where
  "signReadAuth sign domain = sign domain (ReadAuth READ_AUTH_VERSION)"

section \<open>Contract signers\<close>

definition EIP1271_MAGIC_VALUE :: string where
  "EIP1271_MAGIC_VALUE = ''0x1626ba7e''"

text \<open>\<open>readContract\<close> is the chain's answer to \<open>isValidSignature\<close>, \<open>None\<close> when the call fails.\<close>

definition makeEip1271Verifier :: "(string \<Rightarrow> string \<Rightarrow> string \<Rightarrow> string option) \<Rightarrow> string \<Rightarrow> string \<Rightarrow> string \<Rightarrow> bool" where
  "makeEip1271Verifier readContract subSolverAddress digest signature =
     (case readContract subSolverAddress digest signature of
        None \<Rightarrow> False
      | Some result \<Rightarrow> lower result = EIP1271_MAGIC_VALUE)"

section \<open>What a signature authorises\<close>

text \<open>
  What viem documents of its signer and recovery for one key: the address of the key is recovered from
  a signature exactly under the domain and message that were signed.
\<close>

definition signs_for :: "sig_lib \<Rightarrow> signer \<Rightarrow> string \<Rightarrow> bool" where
  "signs_for lib sign address \<longleftrightarrow>
     (\<forall>d m d' m'. sg_recover lib d' m' (sign d m) = Some address \<longleftrightarrow> d' = d \<and> m' = m)"

lemma proposalMessage_inj:
  "proposalMessage p h = proposalMessage q k \<longleftrightarrow>
     h = k \<and> cp_orderUidHash p = cp_orderUidHash q \<and> cp_sellToken p = cp_sellToken q \<and> cp_buyToken p = cp_buyToken q \<and>
     cp_sellAmount p = cp_sellAmount q \<and> cp_minBuyAmount p = cp_minBuyAmount q \<and>
     cp_quoteBuyAmount p = cp_quoteBuyAmount q \<and> cp_validUntil p = cp_validUntil q \<and> cp_nonce p = cp_nonce q"
  by (auto simp: proposalMessage_def)

lemma signature_scope:
  assumes "signs_for lib sign address"
  shows "recoverProposer lib (signProposal lib sign d p is) d' q (computeInteractionsHash lib js) = Some address \<longleftrightarrow>
      d' = d \<and> proposalMessage q (computeInteractionsHash lib js) = proposalMessage p (computeInteractionsHash lib is)"
    "recoverCanceller lib (signCancellation sign d i) d' j = Some address \<longleftrightarrow> d' = d \<and> j = i"
    "recoverReader lib (signReadAuth sign d) d' = Some address \<longleftrightarrow> d' = d"
    "recoverCanceller lib (signReadAuth sign d) d' j \<noteq> Some address"
    "recoverReader lib (signCancellation sign d i) d' \<noteq> Some address"
    "recoverReader lib (signProposal lib sign d p is) d' \<noteq> Some address"
    "recoverCanceller lib (signProposal lib sign d p is) d' j \<noteq> Some address"
  using assms
  by (auto simp: signs_for_def recoverProposer_def signProposal_def recoverCanceller_def signCancellation_def
      recoverReader_def signReadAuth_def proposalMessage_def)

end
