(* ===== verification/Responses.thy ===== *)
theory Responses
  imports Signing Database
begin

text \<open>
  The public API's bodies (\<open>apps/byos/src/infra/api/dto.ts\<close> and \<open>packages/common/src/dto.ts\<close>): a create
  request parsed into domain fields, and a proposal rendered as a single or a list response. A response
  is a JSON value; a property the source spreads in conditionally is present exactly under its condition.
\<close>

section \<open>Requests\<close>

record create_request =
  cr_orderUid :: string
  cr_sellToken :: string
  cr_buyToken :: string
  cr_sellAmount :: string
  cr_minBuyAmount :: string
  cr_quoteBuyAmount :: string
  cr_interactions :: "interaction_json list"
  cr_validUntil :: string
  cr_nonce :: string
  cr_signature :: string
  cr_subSolverAddress :: "string option"

definition interactionSchema :: "interaction_json \<Rightarrow> bool" where
  "interactionSchema i \<longleftrightarrow> addressString (ij_target i) \<and> u256String (ij_value i) \<and> hexString (ij_callData i)"

definition createProposalRequestSchema :: "create_request \<Rightarrow> bool" where
  "createProposalRequestSchema b \<longleftrightarrow> orderUidString (cr_orderUid b) \<and> addressString (cr_sellToken b) \<and>
     addressString (cr_buyToken b) \<and> u256String (cr_sellAmount b) \<and> u256String (cr_minBuyAmount b) \<and>
     u256String (cr_quoteBuyAmount b) \<and> list_all interactionSchema (cr_interactions b) \<and>
     u256String (cr_validUntil b) \<and> u256String (cr_nonce b) \<and> hexString (cr_signature b) \<and>
     (case cr_subSolverAddress b of None \<Rightarrow> True | Some a \<Rightarrow> addressString a)"

record parsed_proposal =
  pq_orderUid :: string
  pq_orderUidHash :: string
  pq_sellToken :: string
  pq_buyToken :: string
  pq_sellAmount :: int
  pq_minBuyAmount :: int
  pq_quoteBuyAmount :: int
  pq_interactions :: "interaction list"
  pq_interactionsHash :: string
  pq_validUntil :: int
  pq_nonce :: int
  pq_signature :: string
  pq_subSolverAddress :: "string option"

definition parseInteraction :: "interaction_json \<Rightarrow> interaction option" where
  "parseInteraction i = map_option (\<lambda>v. \<lparr>i_target = ij_target i, i_value = v, i_callData = add_0x (ij_callData i)\<rparr>)
     (BigInt (ij_value i))"

text \<open>\<open>None\<close> is a thrown parse error.\<close>

definition parseCreateProposalRequest :: "sig_lib \<Rightarrow> create_request \<Rightarrow> parsed_proposal option" where
  "parseCreateProposalRequest lib b = do {
     let orderUidHex = add_0x (lower (cr_orderUid b));
     interactions \<leftarrow> those (map parseInteraction (cr_interactions b));
     sellAmount \<leftarrow> BigInt (cr_sellAmount b);
     minBuyAmount \<leftarrow> BigInt (cr_minBuyAmount b);
     quoteBuyAmount \<leftarrow> BigInt (cr_quoteBuyAmount b);
     validUntil \<leftarrow> BigInt (cr_validUntil b);
     nonce \<leftarrow> BigInt (cr_nonce b);
     Some \<lparr>pq_orderUid = orderUidHex, pq_orderUidHash = sg_keccak lib orderUidHex,
       pq_sellToken = lower (cr_sellToken b), pq_buyToken = lower (cr_buyToken b), pq_sellAmount = sellAmount,
       pq_minBuyAmount = minBuyAmount, pq_quoteBuyAmount = quoteBuyAmount, pq_interactions = interactions,
       pq_interactionsHash = computeInteractionsHash lib interactions, pq_validUntil = validUntil, pq_nonce = nonce,
       pq_signature = add_0x (cr_signature b), pq_subSolverAddress = map_option lower (cr_subSolverAddress b)\<rparr>
   }"

lemma parseInteraction_schema: "interactionSchema i \<Longrightarrow> \<exists>x. parseInteraction i = Some x"
  using u256String_parses [of "ij_value i"] by (auto simp: interactionSchema_def parseInteraction_def)

lemma those_total: "list_all (\<lambda>x. \<exists>y. f x = Some y) xs \<Longrightarrow> \<exists>ys. those (map f xs) = Some ys"
  by (induction xs) auto

lemma parse_schema:
  assumes "createProposalRequestSchema b"
  shows "\<exists>p. parseCreateProposalRequest lib b = Some p \<and> 0 \<le> pq_sellAmount p \<and> 0 \<le> pq_minBuyAmount p \<and>
    0 \<le> pq_quoteBuyAmount p \<and> 0 \<le> pq_validUntil p \<and> 0 \<le> pq_nonce p \<and> pq_sellAmount p \<le> U256_MAX \<and>
    pq_minBuyAmount p \<le> U256_MAX \<and> pq_quoteBuyAmount p \<le> U256_MAX"
proof -
  have "list_all (\<lambda>i. \<exists>x. parseInteraction i = Some x) (cr_interactions b)"
    using assms parseInteraction_schema by (auto simp: createProposalRequestSchema_def list_all_iff)
  then obtain xs where "those (map parseInteraction (cr_interactions b)) = Some xs" using those_total by blast
  moreover obtain v1 v2 v3 v4 v5 where
    "BigInt (cr_sellAmount b) = Some v1 \<and> 0 \<le> v1 \<and> v1 \<le> U256_MAX" "BigInt (cr_minBuyAmount b) = Some v2 \<and> 0 \<le> v2 \<and> v2 \<le> U256_MAX"
    "BigInt (cr_quoteBuyAmount b) = Some v3 \<and> 0 \<le> v3 \<and> v3 \<le> U256_MAX" "BigInt (cr_validUntil b) = Some v4 \<and> 0 \<le> v4 \<and> v4 \<le> U256_MAX"
    "BigInt (cr_nonce b) = Some v5 \<and> 0 \<le> v5 \<and> v5 \<le> U256_MAX"
    using assms u256String_parses unfolding createProposalRequestSchema_def by metis
  ultimately show ?thesis by (simp add: parseCreateProposalRequest_def Let_def)
qed

section \<open>Timestamps\<close>

text \<open>\<open>Date.prototype.toISOString\<close> of milliseconds since the epoch, for years of four digits.\<close>

definition pad_number :: "nat \<Rightarrow> int \<Rightarrow> string" where
  "pad_number w n = (let s = nat_str (nat n) in replicate (w - length s) CHR ''0'' @ s)"

definition civil_from_days :: "int \<Rightarrow> int \<times> int \<times> int" where
  "civil_from_days days =
     (let z = days + 719468; era = z div 146097; doe = z mod 146097;
          yoe = (doe - doe div 1460 + doe div 36524 - doe div 146096) div 365;
          doy = doe - (365 * yoe + yoe div 4 - yoe div 100);
          mp = (5 * doy + 2) div 153;
          d = doy - (153 * mp + 2) div 5 + 1;
          m = (if mp < 10 then mp + 3 else mp - 9);
          y = yoe + era * 400
      in (if m \<le> 2 then y + 1 else y, m, d))"

definition toISOString :: "int \<Rightarrow> string" where
  "toISOString ms =
     (case civil_from_days (ms div 86400000) of (y, m, d) \<Rightarrow>
        let t = ms mod 86400000 in
        pad_number 4 y @ ''-'' @ pad_number 2 m @ ''-'' @ pad_number 2 d @ ''T'' @ pad_number 2 (t div 3600000) @ '':'' @
        pad_number 2 (t div 60000 mod 60) @ '':'' @ pad_number 2 (t div 1000 mod 60) @ ''.'' @ pad_number 3 (t mod 1000) @ ''Z'')"

lemma iso_examples:
  "toISOString 0 = ''1970-01-01T00:00:00.000Z''"
  "toISOString 951868799999 = ''2000-02-29T23:59:59.999Z''"
  "toISOString 1735689600000 = ''2025-01-01T00:00:00.000Z''"
  by code_simp+

section \<open>Responses\<close>

fun status_name :: "status \<Rightarrow> string" where
  "status_name Submitted = ''submitted''"
| "status_name Rejected = ''rejected''"
| "status_name Settled = ''settled''"
| "status_name SettleFailed = ''settleFailed''"
| "status_name SimFailed = ''simFailed''"
| "status_name Cancelled = ''cancelled''"
| "status_name Lost = ''lost''"
| "status_name CandidateStatus = ''candidate''"

fun reason_name :: "rejection_reason \<Rightarrow> string" where
  "reason_name InsufficientEscrow = ''InsufficientEscrow''"
| "reason_name ExposureCapExceeded = ''ExposureCapExceeded''"
| "reason_name UnsupportedOrder = ''UnsupportedOrder''"
| "reason_name AmountMismatch = ''AmountMismatch''"
| "reason_name TokenMismatch = ''TokenMismatch''"
| "reason_name OrderNotFound = ''OrderNotFound''"
| "reason_name Unprofitable = ''Unprofitable''"
| "reason_name TradeValueCapExceeded = ''TradeValueCapExceeded''"
| "reason_name SubsolverOutbid = ''SubsolverOutbid''"
| "reason_name SolverOutbid = ''SolverOutbid''"
| "reason_name ProposedSlippageOutrange = ''ProposedSlippageOutrange''"
| "reason_name SimulationMissingExecutedEvent = ''SimulationMissingExecutedEvent''"
| "reason_name NativePriceUnavailable = ''NativePriceUnavailable''"
| "reason_name InflightPriceUnavailable = ''InflightPriceUnavailable''"
| "reason_name AuctionClosed = ''AuctionClosed''"
| "reason_name UnknownOutput = ''UnknownOutput''"

definition spread :: "bool \<Rightarrow> string \<Rightarrow> json \<Rightarrow> (string \<times> json) list" where
  "spread present key v = (if present then [(key, v)] else [])"

definition opt_str :: "string option \<Rightarrow> json" where
  "opt_str v = (case v of None \<Rightarrow> JNull | Some s \<Rightarrow> JStr s)"

definition failureParamsJson :: "simulation_failure_params \<Rightarrow> json" where
  "failureParamsJson f = JObj [(''chainId'', JNum (sf_chainId f)), (''blockNumber'', JStr (sf_blockNumber f)),
     (''timestamp'', JNum (sf_timestamp f)), (''from'', JStr (sf_from f)), (''to'', JStr (sf_to f)), (''calldata'', JStr (sf_calldata f))]"

definition sharedTail :: "proposal \<Rightarrow> (string \<times> json) list" where
  "sharedTail p =
     (''status'', JStr (status_name (p_status p))) #
     (''createdAt'', JStr (toISOString (p_createdAt p))) #
     (''statusChangedAt'', JStr (toISOString (p_statusChangedAt p))) #
     (case p_rejectionReason p of None \<Rightarrow> [] | Some r \<Rightarrow> [(''rejectionReason'', JStr (reason_name r))]) @
     (case p_gasUsed p of None \<Rightarrow> [] | Some g \<Rightarrow> [(''gasUsed'', JStr (bigint_str g))]) @
     spread (\<not> falsy (p_trampoline p)) ''trampoline'' (opt_str (p_trampoline p)) @
     spread (\<not> falsy (p_settlementTxHash p)) ''settlementTxHash'' (opt_str (p_settlementTxHash p)) @
     spread (\<not> falsy (p_penaltyTxHash p)) ''penaltyTxHash'' (opt_str (p_penaltyTxHash p))"

definition sharedHead :: "proposal \<Rightarrow> (string \<times> json) list" where
  "sharedHead p =
     [(''id'', JNum (p_id p)), (''subSolver'', JStr (p_subSolver p)), (''orderUid'', JStr (p_orderUid p)),
      (''sellToken'', JStr (p_sellToken p)), (''buyToken'', JStr (p_buyToken p)), (''sellAmount'', JStr (bigint_str (p_sellAmount p))),
      (''minBuyAmount'', JStr (bigint_str (p_minBuyAmount p))), (''quoteBuyAmount'', JStr (bigint_str (p_quoteBuyAmount p)))]"

definition proposalToGetResponse :: "proposal \<Rightarrow> json" where
  "proposalToGetResponse p = JObj (sharedHead p @
     [(''interactions'', JArr (map (\<lambda>i. JObj [(''target'', JStr (i_target i)), (''value'', JStr (bigint_str (i_value i))),
         (''callData'', JStr (i_callData i))]) (p_interactions p))),
      (''validUntil'', JStr (bigint_str (p_validUntil p))), (''nonce'', JStr (bigint_str (p_nonce p))), (''signature'', JStr (p_signature p))] @
     sharedTail p @
     (case p_simulationFailureParams p of None \<Rightarrow> [] | Some f \<Rightarrow> [(''simulationFailureParams'', failureParamsJson f)]) @
     spread (p_sellTokenRefPrice p \<noteq> None) ''sellTokenRefPrice'' (opt_str (p_sellTokenRefPrice p)) @
     spread (p_surplusTokenRefPrice p \<noteq> None) ''surplusTokenRefPrice'' (opt_str (p_surplusTokenRefPrice p)) @
     spread (p_auctionGasPrice p \<noteq> None) ''auctionGasPrice'' (opt_str (p_auctionGasPrice p)) @
     (case p_clearingPrices p of None \<Rightarrow> [] | Some ps \<Rightarrow> [(''clearingPrices'', JObj (map (\<lambda>(k, v). (k, JStr v)) ps))]) @
     (case p_simulationBuyAmount p of None \<Rightarrow> [] | Some b \<Rightarrow> [(''simulationBuyAmount'', JStr (bigint_str b))]))"

definition proposalToMetadata :: "proposal \<Rightarrow> json" where
  "proposalToMetadata p = JObj (sharedHead p @ (''validUntil'', JStr (bigint_str (p_validUntil p))) # sharedTail p)"

definition proposalToListResponse :: "proposal list \<Rightarrow> json" where
  "proposalToListResponse ps = JObj [(''proposals'', JArr (map proposalToMetadata ps))]"

text \<open>A property of a JSON object.\<close>

fun json_field :: "string \<Rightarrow> json \<Rightarrow> json option" where
  "json_field k (JObj fs) = map_of fs k"
| "json_field k _ = None"

lemma get_response_owner:
  "json_field ''subSolver'' (proposalToGetResponse p) = Some (JStr (p_subSolver p))"
  "json_field ''id'' (proposalToGetResponse p) = Some (JNum (p_id p))"
  "json_field ''subSolver'' (proposalToMetadata p) = Some (JStr (p_subSolver p))"
  by (simp_all add: proposalToGetResponse_def proposalToMetadata_def sharedHead_def)

end
