(* ===== verification/Ingestion.thy ===== *)
theory Ingestion
  imports Responses Solve Penalty_Worker
begin

text \<open>
  The sub-solver facing routes (\<open>apps/byos/src/infra/api/routes.ts\<close>): creating, reading, listing and
  cancelling proposals, and the buffer balance. The limiter and the balance cache are the two stores of
  \<open>Middleware\<close>; validation is \<open>ProposalValidator_validate\<close>; typed-data recovery is \<open>sig_lib\<close>. A
  request's outcome is a body, an \<open>AppError\<close>, or an exception (\<open>Inl None\<close>). Log lines are left out.
\<close>

section \<open>State and outcomes\<close>

record ('l, 'b) ingestion =
  ig_db :: db
  ig_store :: candidate_store
  ig_gate :: "'l \<times> 'b"
  ig_cache :: sim_cache
  ig_audit :: "audit_event list"

type_synonym 'a outcome = "app_error option + 'a"

text \<open>The routes' configuration, with the two stores behind the gate.\<close>

record ('l, 'b) routes_config =
  rc_domain :: typed_domain
  rc_maxProposalLifetimeSecs :: int
  rc_cL :: int
  rc_limiter :: "'l limiter"
  rc_balances :: "int \<Rightarrow> string \<Rightarrow> 'b \<Rightarrow> int option option \<times> 'b"
  rc_signerLimit :: signer_limit_config
  rc_subsolverWhitelist :: "string list option"
  rc_verifyEip1271 :: "(string \<Rightarrow> string \<Rightarrow> string \<Rightarrow> bool) option"
  rc_sig :: sig_lib
  rc_validator :: validator_config

text \<open>
  What one request meets: the time, the auction state it reads (\<open>None\<close> when the read throws), the reads
  of its validation, the escrow balance the cache answers, and whether the database refuses.
\<close>

record request_env =
  re_now :: int
  re_state :: "auction_state option option"
  re_validation :: validation_env
  re_escrow :: "int option"
  re_allocFails :: bool
  re_logFails :: bool

definition fail :: "api_kind \<Rightarrow> 'a outcome" where
  "fail k = Inl (Some (AppError k None))"

definition throws :: "'a outcome" where
  "throws = Inl None"

section \<open>Creating a proposal\<close>

definition signatureDigits :: "string \<Rightarrow> nat" where
  "signatureDigits s = (if has_0x s then length s - 2 else length s)"

definition signatureLengthOk :: "create_request \<Rightarrow> bool" where
  "signatureLengthOk b =
     (if cr_subSolverAddress b = None then signatureDigits (cr_signature b) = 130
      else \<not> (signatureDigits (cr_signature b) = 0 \<or> signatureDigits (cr_signature b) > 8192))"

definition parsedContract :: "parsed_proposal \<Rightarrow> contract_proposal" where
  "parsedContract p =
     \<lparr>cp_orderUidHash = pq_orderUidHash p, cp_sellToken = pq_sellToken p, cp_buyToken = pq_buyToken p,
      cp_sellAmount = pq_sellAmount p, cp_minBuyAmount = pq_minBuyAmount p, cp_quoteBuyAmount = pq_quoteBuyAmount p,
      cp_validUntil = pq_validUntil p, cp_nonce = pq_nonce p\<rparr>"

definition resolveSubSolver :: "('l, 'b) routes_config \<Rightarrow> parsed_proposal \<Rightarrow> api_kind + string" where
  "resolveSubSolver cfg p =
     (let recovered = recoverProposer (rc_sig cfg) (pq_signature p) (rc_domain cfg) (parsedContract p) (pq_interactionsHash p) in
      (case pq_subSolverAddress p of
         None \<Rightarrow> (case recovered of None \<Rightarrow> Inl K_SignatureRecoveryFailed | Some a \<Rightarrow> Inr a)
       | Some declared \<Rightarrow>
           if (case recovered of None \<Rightarrow> False | Some a \<Rightarrow> lower a = lower declared) then Inr declared
           else (case rc_verifyEip1271 cfg of
              None \<Rightarrow> Inl K_Eip1271NotAvailable
            | Some verify \<Rightarrow>
                if verify declared (hashProposalData (rc_sig cfg) (rc_domain cfg) (parsedContract p) (pq_interactionsHash p))
                     (pq_signature p)
                then Inr declared else Inl K_SignatureRecoveryFailed)))"

definition proposalForValidation :: "int \<Rightarrow> int \<Rightarrow> int \<Rightarrow> string \<Rightarrow> parsed_proposal \<Rightarrow> proposal" where
  "proposalForValidation now i auctionId subSolver p =
     \<lparr>p_id = i, p_subSolver = subSolver, p_auctionId = Some auctionId, p_orderUid = pq_orderUid p,
      p_orderUidHash = pq_orderUidHash p, p_sellAmount = pq_sellAmount p, p_minBuyAmount = pq_minBuyAmount p,
      p_quoteBuyAmount = pq_quoteBuyAmount p, p_sellToken = pq_sellToken p, p_buyToken = pq_buyToken p,
      p_interactions = pq_interactions p, p_interactionsHash = pq_interactionsHash p, p_validUntil = pq_validUntil p,
      p_nonce = pq_nonce p, p_signature = pq_signature p, p_status = Submitted, p_rejectionReason = None,
      p_gasUsed = None, p_trampoline = None, p_settlementTxHash = None, p_penaltyTxHash = None,
      p_simulationFailureParams = None, p_createdAt = now, p_statusChangedAt = now, p_settlementPenaltyCap = None,
      p_sellTokenRefPrice = None, p_buyTokenRefPrice = None, p_surplusTokenRefPrice = None,
      p_auctionGasPrice = None, p_clearingPrices = None, p_simulationBuyAmount = None\<rparr>"

definition candidateOf :: "int \<Rightarrow> int \<Rightarrow> int \<Rightarrow> string \<Rightarrow> parsed_proposal \<Rightarrow> simulation_outcome \<Rightarrow> candidate" where
  "candidateOf now i auctionId subSolver p sim =
     \<lparr>c_id = i, c_subSolver = subSolver, c_orderUid = pq_orderUid p, c_orderUidHash = pq_orderUidHash p,
      c_sellAmount = pq_sellAmount p, c_minBuyAmount = pq_minBuyAmount p, c_quoteBuyAmount = pq_quoteBuyAmount p,
      c_sellToken = so_sellToken sim, c_buyToken = so_buyToken sim, c_interactions = pq_interactions p,
      c_interactionsHash = pq_interactionsHash p, c_validUntil = pq_validUntil p, c_nonce = pq_nonce p,
      c_signature = pq_signature p, c_auctionId = auctionId, c_gasUsed = so_gasUsed sim,
      c_trampoline = so_trampoline sim, c_simulationBuyAmount = Some (so_simulationBuyAmount sim),
      c_sellTokenRefPrice = bigint_str (so_sellTokenRefPrice sim), c_createdAt = now\<rparr>"

definition receivedProposal :: "proposal \<Rightarrow> simulation_outcome \<Rightarrow> proposal" where
  "receivedProposal p sim = p\<lparr>p_sellToken := so_sellToken sim, p_buyToken := so_buyToken sim,
     p_gasUsed := Some (so_gasUsed sim), p_trampoline := Some (so_trampoline sim),
     p_simulationBuyAmount := Some (so_simulationBuyAmount sim),
     p_sellTokenRefPrice := Some (bigint_str (so_sellTokenRefPrice sim))\<rparr>"

text \<open>\<open>allocateId\<close>: \<open>nextval\<close> of the proposals' sequence, never rolled back.\<close>

definition allocateId :: "db \<Rightarrow> int \<times> db" where
  "allocateId d = (proposalSeq d, d\<lparr>proposalSeq := proposalSeq d + 1\<rparr>)"

text \<open>A refusal recorded in the permanent log, and its audit event when there is one.\<close>

definition recordRefusal :: "request_env \<Rightarrow> int \<Rightarrow> proposal \<Rightarrow> status \<Rightarrow> rejection_reason option \<Rightarrow>
    simulation_failure_params option \<Rightarrow> bool \<Rightarrow> api_kind \<Rightarrow> ('l, 'b) ingestion \<Rightarrow> int outcome \<times> ('l, 'b) ingestion" where
  "recordRefusal env i p st reason params audited kind s =
     (if re_logFails env then (throws, s)
      else (fail kind, s\<lparr>ig_db := writeToLog (re_now env) i p st reason params (ig_db s),
        ig_audit := ig_audit s @ (if audited
          then [(re_now env, StatusChanged i (p_subSolver p) (p_orderUid p) Submitted st reason None)] else [])\<rparr>))"

text \<open>What follows the validator's answer; \<open>validate\<close> throwing counts as a deferral.\<close>

definition afterVerdict :: "request_env \<Rightarrow> int \<Rightarrow> int \<Rightarrow> string \<Rightarrow> parsed_proposal \<Rightarrow> validation \<Rightarrow>
    ('l, 'b) ingestion \<Rightarrow> int outcome \<times> ('l, 'b) ingestion" where
  "afterVerdict env i auctionId subSolver p v s =
     (let pv = proposalForValidation (re_now env) i auctionId subSolver p in
      (case v of
         Deferred \<Rightarrow> recordRefusal env i pv Rejected (Some AuctionClosed) None False K_NoActiveAuction s
       | Throws \<Rightarrow> recordRefusal env i pv Rejected (Some AuctionClosed) None False K_NoActiveAuction s
       | Verdict (Reject reason) \<Rightarrow> recordRefusal env i pv Rejected (Some reason) None True K_ProposalRejected s
       | Verdict (SimFailedVerdict params revertReason) \<Rightarrow>
           let isFilled = (revertReason = Some ''GPv2: order filled'') in
           recordRefusal env i pv (if isFilled then Rejected else SimFailed) (if isFilled then Some SolverOutbid else None)
             params True K_ProposalRejected s
       | Verdict (Accept None) \<Rightarrow> (fail K_Internal, s)
       | Verdict (Accept (Some sim)) \<Rightarrow>
           (Inr i, s\<lparr>ig_store := add_candidate (candidateOf (re_now env) i auctionId subSolver p sim) (ig_store s),
              ig_audit := ig_audit s @ [(re_now env, Received (receivedProposal pv sim))]\<rparr>)))"

text \<open>From the expiry check on, for a sub-solver the gate admitted.\<close>

definition admitProposal :: "('l, 'b) routes_config \<Rightarrow> request_env \<Rightarrow> string \<Rightarrow> parsed_proposal \<Rightarrow>
    ('l, 'b) ingestion \<Rightarrow> int outcome \<times> ('l, 'b) ingestion" where
  "admitProposal cfg env subSolver p s =
     (let now = re_now env div 1000 in
      if pq_validUntil p \<le> now then (fail K_ProposalExpired, s)
      else if pq_validUntil p > now + rc_maxProposalLifetimeSecs cfg then (fail K_ProposalLifetimeExceeded, s)
      else (case re_state env of
         None \<Rightarrow> (throws, s)
       | Some None \<Rightarrow> (fail K_NoActiveAuction, s)
       | Some (Some st) \<Rightarrow>
           if jm_get (as_orders st) (lower (pq_orderUid p)) = None then (fail K_UnknownOrder, s)
           else if re_allocFails env then (throws, s)
           else let (i, d) = allocateId (ig_db s);
                    (v, cache) = ProposalValidator_validate (rc_validator cfg) (re_escrow env) (re_validation env)
                      (proposalForValidation (re_now env) i (as_auctionId st) subSolver p) (ig_cache s)
                in afterVerdict env i (as_auctionId st) subSolver p v (s\<lparr>ig_db := d, ig_cache := cache\<rparr>)))"

text \<open>\<open>POST /proposals\<close>; \<open>None\<close> is a body that is not JSON.\<close>

definition postProposal :: "('l, 'b) routes_config \<Rightarrow> request_env \<Rightarrow> create_request option \<Rightarrow>
    ('l, 'b) ingestion \<Rightarrow> int outcome \<times> ('l, 'b) ingestion" where
  "postProposal cfg env body s =
     (case body of
        None \<Rightarrow> (throws, s)
      | Some b \<Rightarrow>
          if \<not> createProposalRequestSchema b then (fail K_BadRequest, s)
          else if \<not> signatureLengthOk b then (fail K_InvalidSignature, s)
          else (case parseCreateProposalRequest (rc_sig cfg) b of
             None \<Rightarrow> (fail K_BadRequest, s)
           | Some p \<Rightarrow>
             (case resolveSubSolver cfg p of
                Inl k \<Rightarrow> (fail k, s)
              | Inr subSolver \<Rightarrow>
                  if (case rc_subsolverWhitelist cfg of None \<Rightarrow> False | Some ws \<Rightarrow> lower subSolver \<notin> set ws)
                  then (fail K_SubsolverNotAllowed, s)
                  else (case enforceSignerLimit (rc_limiter cfg) (rc_balances cfg) (rc_signerLimit cfg) True (re_now env)
                          subSolver (ig_gate s) of
                     (Inl e, g) \<Rightarrow> (Inl (Some e), s\<lparr>ig_gate := g\<rparr>)
                   | (Inr _, g) \<Rightarrow> admitProposal cfg env subSolver p (s\<lparr>ig_gate := g\<rparr>)))))"

section \<open>Reading\<close>

text \<open>
  The reader a read token names, admitted by the gate. \<open>header\<close> is the signature header; a signature
  nothing is recovered from is refused before the gate.
\<close>

definition authorizeReader :: "('l, 'b) routes_config \<Rightarrow> request_env \<Rightarrow> string option \<Rightarrow> ('l, 'b) ingestion \<Rightarrow>
    string outcome \<times> ('l, 'b) ingestion" where
  "authorizeReader cfg env header s =
     (case extractSignature header of
        Inl e \<Rightarrow> (Inl (Some e), s)
      | Inr sig \<Rightarrow>
     (case recoverReader (rc_sig cfg) sig (rc_domain cfg) of
        None \<Rightarrow> (fail K_SignatureRecoveryFailed, s)
      | Some reader \<Rightarrow>
     (case enforceSignerLimit (rc_limiter cfg) (rc_balances cfg) (rc_signerLimit cfg) False (re_now env) reader (ig_gate s) of
        (Inl e, g) \<Rightarrow> (Inl (Some e), s\<lparr>ig_gate := g\<rparr>)
      | (Inr _, g) \<Rightarrow> (Inr reader, s\<lparr>ig_gate := g\<rparr>))))"

definition withReader :: "('l, 'b) routes_config \<Rightarrow> request_env \<Rightarrow> string option \<Rightarrow>
    (string \<Rightarrow> ('l, 'b) ingestion \<Rightarrow> json outcome) \<Rightarrow> ('l, 'b) ingestion \<Rightarrow> json outcome \<times> ('l, 'b) ingestion" where
  "withReader cfg env header answer s =
     (case authorizeReader cfg env header s of
        (Inl e, s') \<Rightarrow> (Inl e, s')
      | (Inr reader, s') \<Rightarrow> (answer reader s', s'))"

text \<open>\<open>Number(id)\<close> of the path: \<open>None\<close> when it is no integer.\<close>

definition pathId :: "int option \<Rightarrow> int option" where
  "pathId n = (case n of None \<Rightarrow> None | Some i \<Rightarrow> if \<not> isSafeInteger i \<or> i < 0 then None else Some i)"

definition readOne :: "int \<Rightarrow> string \<Rightarrow> ('l, 'b) ingestion \<Rightarrow> json outcome" where
  "readOne i reader s =
     (case candidateForOwner i reader (ig_store s) of
        Some c \<Rightarrow> Inr (proposalToGetResponse (candidateToProposal CandidateStatus c))
      | None \<Rightarrow>
          (case getForOwner i reader (ig_db s) of
             None \<Rightarrow> throws
           | Some (Inl _) \<Rightarrow> fail K_ProposalNotFound
           | Some (Inr p) \<Rightarrow> Inr (proposalToGetResponse p)))"

definition getProposal :: "('l, 'b) routes_config \<Rightarrow> request_env \<Rightarrow> int option \<Rightarrow> string option \<Rightarrow>
    ('l, 'b) ingestion \<Rightarrow> json outcome \<times> ('l, 'b) ingestion" where
  "getProposal cfg env n header s =
     (case pathId n of
        None \<Rightarrow> (fail K_BadRequest, s)
      | Some i \<Rightarrow> withReader cfg env header (readOne i) s)"

definition listOwn :: "bool \<Rightarrow> string \<Rightarrow> ('l, 'b) ingestion \<Rightarrow> json outcome" where
  "listOwn includeArchived reader s =
     (let dbProposals = listBySubSolver reader includeArchived (ig_db s);
          candidateProposals = (if includeArchived then []
            else map (candidateToProposal CandidateStatus)
              (filter (\<lambda>c. lower (c_subSolver c) = lower reader) (getAll (ig_store s))))
      in Inr (proposalToListResponse (candidateProposals @ dbProposals)))"

definition listBySubSolverRoute :: "('l, 'b) routes_config \<Rightarrow> request_env \<Rightarrow> bool \<Rightarrow> string option \<Rightarrow>
    ('l, 'b) ingestion \<Rightarrow> json outcome \<times> ('l, 'b) ingestion" where
  "listBySubSolverRoute cfg env includeArchived header s = withReader cfg env header (listOwn includeArchived) s"

definition listByOrderRoute :: "('l, 'b) routes_config \<Rightarrow> request_env \<Rightarrow> string \<Rightarrow> bool \<Rightarrow> string option \<Rightarrow>
    ('l, 'b) ingestion \<Rightarrow> json outcome \<times> ('l, 'b) ingestion" where
  "listByOrderRoute cfg env orderUid includeArchived header s =
     withReader cfg env header
       (\<lambda>reader s. Inr (proposalToListResponse (listByOrderUidForOwner orderUid reader includeArchived (ig_db s)))) s"

definition bufferEntryJson :: "buffer_row \<Rightarrow> json" where
  "bufferEntryJson e = JObj [(''proposalId'', JNum (b_proposalId e)), (''orderUid'', JStr (b_orderUid e)),
     (''buyToken'', JStr (b_buyToken e)), (''delta'', JStr (b_delta e)), (''gap'', JStr (b_gap e)),
     (''nativeTokenAmount'', JStr (b_nativeTokenAmount e)), (''createdAt'', JStr (toISOString (b_createdAt e)))]"

definition bufferBalanceOf :: "('l, 'b) routes_config \<Rightarrow> string \<Rightarrow> ('l, 'b) ingestion \<Rightarrow> json outcome" where
  "bufferBalanceOf cfg reader s =
     (let entries = unclearedBufferEntries reader (ig_db s) in
      (case sumBigInts (map b_nativeTokenAmount entries) of
         None \<Rightarrow> throws
       | Some outstanding \<Rightarrow>
           Inr (JObj [(''outstandingBalance'', JStr (bigint_str outstanding)), (''threshold'', JStr (bigint_str (rc_cL cfg))),
             (''entries'', JArr (map bufferEntryJson entries))])))"

definition bufferBalanceRoute :: "('l, 'b) routes_config \<Rightarrow> request_env \<Rightarrow> string option \<Rightarrow> ('l, 'b) ingestion \<Rightarrow>
    json outcome \<times> ('l, 'b) ingestion" where
  "bufferBalanceRoute cfg env header s = withReader cfg env header (bufferBalanceOf cfg) s"

section \<open>Cancelling\<close>

text \<open>\<open>DELETE /proposal/:id\<close> once the canceller is known; \<open>get\<close> may throw on a corrupt row.\<close>

definition cancelOwn :: "request_env \<Rightarrow> int \<Rightarrow> string \<Rightarrow> ('l, 'b) ingestion \<Rightarrow> unit outcome \<times> ('l, 'b) ingestion" where
  "cancelOwn env i canceller s =
     (case candidateForOwner i canceller (ig_store s) of
        Some c \<Rightarrow>
          let s1 = s\<lparr>ig_store := remove_candidate i (ig_store s)\<rparr> in
          if re_logFails env then (throws, s1)
          else (Inr (), s1\<lparr>ig_db := writeToLog (re_now env) i (candidateToProposal Cancelled c) Cancelled None None (ig_db s1),
            ig_audit := ig_audit s1 @ [(re_now env, CancelledEvent i canceller (c_orderUid c))]\<rparr>)
      | None \<Rightarrow>
          (case get_proposal i (ig_db s) of
             None \<Rightarrow> (throws, s)
           | Some None \<Rightarrow> (fail K_ProposalNotFound, s)
           | Some (Some p) \<Rightarrow>
               if lower (p_subSolver p) \<noteq> lower canceller then (fail K_ProposalNotFound, s)
               else (fail K_ProposalNotCancellable, s)))"

definition deleteProposal :: "('l, 'b) routes_config \<Rightarrow> request_env \<Rightarrow> int option \<Rightarrow> string option \<Rightarrow>
    ('l, 'b) ingestion \<Rightarrow> unit outcome \<times> ('l, 'b) ingestion" where
  "deleteProposal cfg env n header s =
     (case pathId n of
        None \<Rightarrow> (fail K_BadRequest, s)
      | Some i \<Rightarrow>
     (case extractSignature header of
        Inl e \<Rightarrow> (Inl (Some e), s)
      | Inr sig \<Rightarrow>
     (case recoverCanceller (rc_sig cfg) sig (rc_domain cfg) i of
        None \<Rightarrow> (fail K_SignatureRecoveryFailed, s)
      | Some canceller \<Rightarrow>
     (case enforceSignerLimit (rc_limiter cfg) (rc_balances cfg) (rc_signerLimit cfg) False (re_now env) canceller (ig_gate s) of
        (Inl e, g) \<Rightarrow> (Inl (Some e), s\<lparr>ig_gate := g\<rparr>)
      | (Inr _, g) \<Rightarrow> cancelOwn env i canceller (s\<lparr>ig_gate := g\<rparr>)))))"

section \<open>Who a request speaks for\<close>

text \<open>
  The evidence that a proposal is its sub-solver's: the address is recovered from the signature over
  exactly its content under the service's domain, or it is the declared contract that accepted it.
\<close>

definition authenticates :: "('l, 'b) routes_config \<Rightarrow> parsed_proposal \<Rightarrow> string \<Rightarrow> bool" where
  "authenticates cfg p a \<longleftrightarrow>
     (\<exists>r. recoverProposer (rc_sig cfg) (pq_signature p) (rc_domain cfg) (parsedContract p) (pq_interactionsHash p) = Some r \<and>
        lower r = lower a) \<or>
     (pq_subSolverAddress p = Some a \<and> (\<exists>verify. rc_verifyEip1271 cfg = Some verify \<and>
        verify a (hashProposalData (rc_sig cfg) (rc_domain cfg) (parsedContract p) (pq_interactionsHash p)) (pq_signature p)))"

lemma resolveSubSolver_InrD: "resolveSubSolver cfg p = Inr a \<Longrightarrow> authenticates cfg p a"
  by (auto simp: resolveSubSolver_def authenticates_def Let_def split: option.splits if_splits)

section \<open>Creating\<close>

text \<open>Without a verifier no contract sub-solver is admitted, whatever its contract would answer.\<close>

lemma contract_signers_unavailable:
  assumes "rc_verifyEip1271 cfg = None" "pq_subSolverAddress p = Some declared"
    and "\<forall>a. recoverProposer (rc_sig cfg) (pq_signature p) (rc_domain cfg) (parsedContract p) (pq_interactionsHash p) = Some a \<longrightarrow>
      lower a \<noteq> lower declared"
  shows "resolveSubSolver cfg p = Inl K_Eip1271NotAvailable"
  using assms by (auto simp: resolveSubSolver_def Let_def split: option.split)

lemma fail_not_Inr [simp]: "fail k \<noteq> Inr x" "throws \<noteq> Inr x"
  by (simp_all add: fail_def throws_def)

lemma recordRefusal_not_Inr [simp]: "recordRefusal env i p st reason params audited k s \<noteq> (Inr x, s')"
  by (simp add: recordRefusal_def)

lemma afterVerdict_InrD:
  assumes "afterVerdict env i auctionId subSolver p v s = (Inr j, s')"
  shows "\<exists>sim. v = Verdict (Accept (Some sim)) \<and> j = i \<and>
    ig_store s' = add_candidate (candidateOf (re_now env) i auctionId subSolver p sim) (ig_store s) \<and>
    ig_db s' = ig_db s \<and> ig_gate s' = ig_gate s \<and> ig_cache s' = ig_cache s"
  using assms by (auto simp: afterVerdict_def Let_def split: validation.splits verdict.splits option.splits if_splits)

text \<open>The stages a create request passes before its id is allocated.\<close>

definition admitted :: "('l, 'b) routes_config \<Rightarrow> request_env \<Rightarrow> create_request option \<Rightarrow> parsed_proposal \<Rightarrow> string \<Rightarrow>
    auction_state \<Rightarrow> bool" where
  "admitted cfg env body p a st \<longleftrightarrow>
     (\<exists>b. body = Some b \<and> createProposalRequestSchema b \<and> signatureLengthOk b \<and>
        parseCreateProposalRequest (rc_sig cfg) b = Some p) \<and>
     resolveSubSolver cfg p = Inr a \<and>
     (case rc_subsolverWhitelist cfg of None \<Rightarrow> True | Some ws \<Rightarrow> lower a \<in> set ws) \<and>
     re_now env div 1000 < pq_validUntil p \<and> pq_validUntil p \<le> re_now env div 1000 + rc_maxProposalLifetimeSecs cfg \<and>
     re_state env = Some (Some st) \<and> jm_get (as_orders st) (lower (pq_orderUid p)) \<noteq> None"

definition validationOf :: "('l, 'b) routes_config \<Rightarrow> request_env \<Rightarrow> int \<Rightarrow> parsed_proposal \<Rightarrow> string \<Rightarrow> auction_state \<Rightarrow>
    sim_cache \<Rightarrow> validation \<times> sim_cache" where
  "validationOf cfg env i p a st cache =
     ProposalValidator_validate (rc_validator cfg) (re_escrow env) (re_validation env)
       (proposalForValidation (re_now env) i (as_auctionId st) a p) cache"

lemma admitProposal_cases:
  obtains e where "admitProposal cfg env a p s = (Inl e, s)"
  | st where "re_state env = Some (Some st)" "jm_get (as_orders st) (lower (pq_orderUid p)) \<noteq> None"
      "re_now env div 1000 < pq_validUntil p" "pq_validUntil p \<le> re_now env div 1000 + rc_maxProposalLifetimeSecs cfg"
      "admitProposal cfg env a p s =
         afterVerdict env (proposalSeq (ig_db s)) (as_auctionId st) a p
           (fst (validationOf cfg env (proposalSeq (ig_db s)) p a st (ig_cache s)))
           (s\<lparr>ig_db := (ig_db s)\<lparr>proposalSeq := proposalSeq (ig_db s) + 1\<rparr>,
              ig_cache := snd (validationOf cfg env (proposalSeq (ig_db s)) p a st (ig_cache s))\<rparr>)"
proof (cases "pq_validUntil p \<le> re_now env div 1000 \<or> pq_validUntil p > re_now env div 1000 + rc_maxProposalLifetimeSecs cfg")
  case True
  then have "\<exists>e. admitProposal cfg env a p s = (Inl e, s)"
    by (cases "pq_validUntil p \<le> re_now env div 1000") (simp_all add: admitProposal_def Let_def fail_def)
  then show thesis using that(1) by blast
next
  case life: False
  show thesis
  proof (cases "re_state env")
    case None
    then show thesis using life that(1) by (simp add: admitProposal_def Let_def throws_def)
  next
    case (Some x)
    show thesis
    proof (cases x)
      case None
      then show thesis using life Some that(1) by (simp add: admitProposal_def Let_def fail_def)
    next
      case st: (Some st)
      show thesis
      proof (cases "jm_get (as_orders st) (lower (pq_orderUid p)) = None \<or> re_allocFails env")
        case True
        then show thesis using life Some st that(1)
          by (cases "jm_get (as_orders st) (lower (pq_orderUid p))") (simp_all add: admitProposal_def Let_def fail_def throws_def)
      next
        case False
        then obtain rec where rec: "jm_get (as_orders st) (lower (pq_orderUid p)) = Some rec" by auto
        show thesis
          by (rule that(2) [of st])
            (use life Some st rec False in \<open>simp_all add: admitProposal_def Let_def allocateId_def validationOf_def split: prod.split\<close>)
      qed
    qed
  qed
qed

text \<open>
  A create request: it is refused with nothing but the gate's counters touched, or it was admitted, got
  the next id of the sequence, and the validator's answer decides.
\<close>

lemma postProposal_cases:
  obtains e g where "postProposal cfg env body s = (Inl e, s\<lparr>ig_gate := g\<rparr>)"
  | p a st g where "admitted cfg env body p a st"
      "postProposal cfg env body s =
         afterVerdict env (proposalSeq (ig_db s)) (as_auctionId st) a p
           (fst (validationOf cfg env (proposalSeq (ig_db s)) p a st (ig_cache s)))
           (s\<lparr>ig_gate := g, ig_db := (ig_db s)\<lparr>proposalSeq := proposalSeq (ig_db s) + 1\<rparr>,
              ig_cache := snd (validationOf cfg env (proposalSeq (ig_db s)) p a st (ig_cache s))\<rparr>)"
proof -
  let ?passes = "\<exists>b p a. body = Some b \<and> createProposalRequestSchema b \<and> signatureLengthOk b \<and>
    parseCreateProposalRequest (rc_sig cfg) b = Some p \<and> resolveSubSolver cfg p = Inr a \<and>
    (case rc_subsolverWhitelist cfg of None \<Rightarrow> True | Some ws \<Rightarrow> lower a \<in> set ws)"
  show thesis
  proof (cases ?passes)
    case False
    then have "\<exists>e. postProposal cfg env body s = (Inl e, s\<lparr>ig_gate := ig_gate s\<rparr>)"
      by (auto simp: postProposal_def fail_def throws_def split: option.splits sum.splits)
    then show thesis using that(1) by blast
  next
    case True
    then obtain b p a where b: "body = Some b" "createProposalRequestSchema b" "signatureLengthOk b"
      "parseCreateProposalRequest (rc_sig cfg) b = Some p" "resolveSubSolver cfg p = Inr a"
      and wl: "case rc_subsolverWhitelist cfg of None \<Rightarrow> True | Some ws \<Rightarrow> lower a \<in> set ws" by blast
    obtain r g where gate: "enforceSignerLimit (rc_limiter cfg) (rc_balances cfg) (rc_signerLimit cfg) True (re_now env) a (ig_gate s) = (r, g)"
      by (metis surj_pair)
    have post: "postProposal cfg env body s =
        (case r of Inl e \<Rightarrow> (Inl (Some e), s\<lparr>ig_gate := g\<rparr>) | Inr _ \<Rightarrow> admitProposal cfg env a p (s\<lparr>ig_gate := g\<rparr>))"
      using b wl by (simp add: postProposal_def gate split: option.splits sum.splits)
    show thesis
    proof (cases r)
      case (Inl e)
      then show thesis using post that(1) by simp
    next
      case (Inr u)
      show thesis
      proof (cases rule: admitProposal_cases [of cfg env a p "s\<lparr>ig_gate := g\<rparr>"])
        case (1 e)
        then show thesis using post Inr that(1) by simp
      next
        case (2 st)
        have "admitted cfg env body p a st" using b wl 2 by (auto simp: admitted_def)
        then show thesis using that(2) [of p a st g] post Inr 2(5) by simp
      qed
    qed
  qed
qed

text \<open>
  C7. A proposal that is answered with an id was vetted and is the next one: its sub-solver is
  authenticated over exactly this content and admitted by the whitelist, its lifetime is inside the
  bounds, its order is in the open auction, and the validator accepted it with a simulation; then it is
  held as a candidate of that auction with the amounts that were signed, and no table was written.
\<close>

theorem created_proposal_vetted:
  assumes "postProposal cfg env body s = (Inr i, s')"
  shows "\<exists>p a st out. admitted cfg env body p a st \<and> authenticates cfg p a \<and> i = proposalSeq (ig_db s) \<and>
    fst (validationOf cfg env i p a st (ig_cache s)) = Verdict (Accept (Some out)) \<and>
    get_candidate i (ig_store s') = Some (candidateOf (re_now env) i (as_auctionId st) a p out) \<and>
    (\<forall>j. j \<noteq> i \<longrightarrow> get_candidate j (ig_store s') = get_candidate j (ig_store s)) \<and>
    ig_db s' = (ig_db s)\<lparr>proposalSeq := i + 1\<rparr>"
proof (cases rule: postProposal_cases [of cfg env body s])
  case (1 e g)
  then show ?thesis using assms by simp
next
  case (2 p a st g)
  let ?i = "proposalSeq (ig_db s)"
  let ?v = "validationOf cfg env ?i p a st (ig_cache s)"
  let ?s = "s\<lparr>ig_gate := g, ig_db := (ig_db s)\<lparr>proposalSeq := ?i + 1\<rparr>, ig_cache := snd ?v\<rparr>"
  have "afterVerdict env ?i (as_auctionId st) a p (fst ?v) ?s = (Inr i, s')" using assms 2(2) by simp
  from afterVerdict_InrD [OF this] obtain out where "fst ?v = Verdict (Accept (Some out))" "i = ?i"
    "ig_store s' = add_candidate (candidateOf (re_now env) ?i (as_auctionId st) a p out) (ig_store s)"
    "ig_db s' = (ig_db s)\<lparr>proposalSeq := ?i + 1\<rparr>" by auto
  moreover have "authenticates cfg p a" using 2(1) resolveSubSolver_InrD by (auto simp: admitted_def)
  moreover have "c_id (candidateOf (re_now env) ?i (as_auctionId st) a p out) = ?i" for out by (simp add: candidateOf_def)
  ultimately show ?thesis using 2(1) by (auto simp: get_add)
qed

text \<open>What a refusal leaves in the log.\<close>

definition refusal_row :: "api_kind \<Rightarrow> proposal_row \<Rightarrow> bool" where
  "refusal_row k l \<longleftrightarrow>
     (k = K_NoActiveAuction \<and> r_status l = Rejected \<and> r_rejectionReason l = Some AuctionClosed) \<or>
     (k = K_ProposalRejected \<and> r_status l = Rejected \<and>
        (\<exists>r \<in> insert SolverOutbid validation_reasons. r_rejectionReason l = Some r)) \<or>
     (k = K_ProposalRejected \<and> r_status l = SimFailed \<and> r_rejectionReason l = None)"

lemma recordRefusal_row:
  assumes "recordRefusal env i pv st reason params audited k s = (Inl e, s')" "\<not> re_logFails env"
    and "logRow (ig_db s) i = None"
  shows "e = Some (AppError k None) \<and> ig_store s' = ig_store s \<and>
    logRow (ig_db s') i = Some (logRowOf (re_now env) i pv st reason params) \<and>
    (\<forall>j. j \<noteq> i \<longrightarrow> logRow (ig_db s') j = logRow (ig_db s) j) \<and> (\<forall>j. liveRow (ig_db s') j = liveRow (ig_db s) j)"
  using assms by (auto simp: recordRefusal_def fail_def writeToLog_rows split: option.splits)

lemma afterVerdict_refusal:
  assumes r: "afterVerdict env i auctionId a p v s = (Inl e, s')" and ok: "\<not> re_logFails env"
    and fresh: "logRow (ig_db s) i = None"
    and typed: "\<And>u. v = Verdict u \<Longrightarrow> well_typed_verdict vc u"
  shows "(\<exists>k l. e = Some (AppError k None) \<and> logRow (ig_db s') i = Some l \<and> refusal_row k l \<and> r_subSolver l = lower a \<and>
      r_nonce l = bigint_str (pq_nonce p)) \<and> ig_store s' = ig_store s \<and>
    (\<forall>j. j \<noteq> i \<longrightarrow> logRow (ig_db s') j = logRow (ig_db s) j) \<and> (\<forall>j. liveRow (ig_db s') j = liveRow (ig_db s) j)"
proof -
  let ?pv = "proposalForValidation (re_now env) i auctionId a p"
  have row: "r_status (logRowOf t i ?pv st reason params) = st" "r_rejectionReason (logRowOf t i ?pv st reason params) = reason"
    "r_subSolver (logRowOf t i ?pv st reason params) = lower a" "r_nonce (logRowOf t i ?pv st reason params) = bigint_str (pq_nonce p)"
    for t st reason params by (simp_all add: logRowOf_def proposalForValidation_def)
  have closed: ?thesis if "recordRefusal env i ?pv Rejected (Some AuctionClosed) None False K_NoActiveAuction s = (Inl e, s')"
    using recordRefusal_row [OF that ok fresh] by (auto simp: refusal_row_def row)
  show ?thesis
  proof (cases v)
    case (Verdict u)
    show ?thesis
    proof (cases u)
      case (Accept so)
      then obtain sim where "so = Some sim" using typed [OF Verdict] by (cases so) (auto simp: well_typed_verdict_def)
      then show ?thesis using r Verdict Accept by (simp add: afterVerdict_def Let_def)
    next
      case (Reject reason)
      then have "recordRefusal env i ?pv Rejected (Some reason) None True K_ProposalRejected s = (Inl e, s')"
        using r Verdict by (simp add: afterVerdict_def Let_def)
      from recordRefusal_row [OF this ok fresh] typed [OF Verdict] Reject
      show ?thesis by (auto simp: refusal_row_def row well_typed_verdict_def)
    next
      case (SimFailedVerdict params why)
      show ?thesis
      proof (cases "why = Some ''GPv2: order filled''")
        case True
        then have "recordRefusal env i ?pv Rejected (Some SolverOutbid) params True K_ProposalRejected s = (Inl e, s')"
          using r Verdict SimFailedVerdict unfolding afterVerdict_def Let_def by simp
        from recordRefusal_row [OF this ok fresh] show ?thesis by (auto simp: refusal_row_def row)
      next
        case False
        then have "recordRefusal env i ?pv SimFailed None params True K_ProposalRejected s = (Inl e, s')"
          using r Verdict SimFailedVerdict unfolding afterVerdict_def Let_def by simp
        from recordRefusal_row [OF this ok fresh] show ?thesis by (auto simp: refusal_row_def row)
      qed
    qed
  qed (use r closed in \<open>simp_all add: afterVerdict_def Let_def\<close>)
qed


section \<open>Concrete requests\<close>

definition exampleSignature :: string where
  "exampleSignature = ''0x'' @ replicate 130 CHR ''1''"

definition exampleRequest :: create_request where
  "exampleRequest = \<lparr>cr_orderUid = exampleUid, cr_sellToken = exampleToken CHR ''a'', cr_buyToken = exampleToken CHR ''b'',
     cr_sellAmount = ''50'', cr_minBuyAmount = ''16'', cr_quoteBuyAmount = ''20'', cr_interactions = [], cr_validUntil = ''60'',
     cr_nonce = ''1'', cr_signature = exampleSignature, cr_subSolverAddress = None\<rparr>"

definition exampleSigLib :: sig_lib where
  "exampleSigLib = \<lparr>sg_recover = \<lambda>d m s. Some ''0x5A'', sg_hash = \<lambda>d m. ''0x'', sg_encodeInteractions = \<lambda>is. ''0x'', sg_keccak = \<lambda>s. s\<rparr>"

definition exampleRoutes :: "(unit, unit) routes_config" where
  "exampleRoutes = \<lparr>rc_domain = byosDomain 100 ''0x90'', rc_maxProposalLifetimeSecs = 60, rc_cL = 1000, rc_limiter = allowAll,
     rc_balances = unknownBalances, rc_signerLimit = \<lparr>sl_tier = \<lparr>rateUnitWei = 1, ratePerUnit = 1, minRate = 1, maxRate = 2\<rparr>,
     sl_windowSecs = 60, sl_floorWei = 7\<rparr>, rc_subsolverWhitelist = None, rc_verifyEip1271 = None, rc_sig = exampleSigLib,
     rc_validator = exampleConfig\<rparr>"

definition exampleOpen :: auction_state where
  "exampleOpen = \<lparr>as_auctionId = 1, as_orders = [(exampleUid, exampleRecord\<lparr>order := exampleOrder
       \<lparr>o_sellToken := exampleToken CHR ''a'', o_buyToken := exampleToken CHR ''b''\<rparr>\<rparr>)],
     as_prices = [(exampleToken CHR ''a'', 10 ^ 18), (exampleToken CHR ''b'', 10 ^ 18)], as_gasPrice = 0\<rparr>"

definition exampleRequestEnv :: request_env where
  "exampleRequestEnv = \<lparr>re_now = 0, re_state = Some (Some exampleOpen),
     re_validation = exampleReads\<lparr>ve_state := Some (Some exampleOpen)\<rparr>, re_escrow = Some 5000, re_allocFails = False, re_logFails = False\<rparr>"

definition exampleIngestion :: "(unit, unit) ingestion" where
  "exampleIngestion = \<lparr>ig_db = emptyDb, ig_store = [], ig_gate = ((), ()), ig_cache = emptyCache, ig_audit = []\<rparr>"

lemma lower_exampleToken: "lower (exampleToken CHR ''a'') = exampleToken CHR ''a''" "lower (exampleToken CHR ''b'') = exampleToken CHR ''b''"
  by (simp_all add: exampleToken_def lower_append map_replicate lower_def lower_char_def)

lemma token_neq: "exampleToken CHR ''a'' \<noteq> exampleToken CHR ''b''"
  by (simp add: exampleToken_def)

lemma example_schema: "createProposalRequestSchema exampleRequest" "signatureLengthOk exampleRequest"
  by code_simp+

definition exampleParsed :: parsed_proposal where
  "exampleParsed = \<lparr>pq_orderUid = exampleUid, pq_orderUidHash = exampleUid, pq_sellToken = exampleToken CHR ''a'',
     pq_buyToken = exampleToken CHR ''b'', pq_sellAmount = 50, pq_minBuyAmount = 16, pq_quoteBuyAmount = 20, pq_interactions = [],
     pq_interactionsHash = ''0x'', pq_validUntil = 60, pq_nonce = 1, pq_signature = exampleSignature, pq_subSolverAddress = None\<rparr>"

lemma example_numbers: "BigInt ''50'' = Some 50" "BigInt ''16'' = Some 16" "BigInt ''20'' = Some 20" "BigInt ''60'' = Some 60"
  "BigInt ''1'' = Some 1"
  by code_simp+

lemma example_parse: "parseCreateProposalRequest exampleSigLib exampleRequest = Some exampleParsed"
  by (simp add: parseCreateProposalRequest_def exampleRequest_def exampleParsed_def exampleSigLib_def lower_exampleUid
      lower_exampleToken example_numbers computeInteractionsHash_def Let_def)
    (simp add: add_0x_def has_0x_def exampleUid_def exampleSignature_def)

definition exampleValidated :: proposal where
  "exampleValidated = proposalForValidation 0 1 1 ''0x5A'' exampleParsed"

lemma example_static:
  "staticGates exampleConfig exampleOpen exampleValidated =
     Inr (exampleRecord\<lparr>order := exampleOrder\<lparr>o_sellToken := exampleToken CHR ''a'', o_buyToken := exampleToken CHR ''b''\<rparr>\<rparr>,
       1000000000000000000, 1000000000000000000)"
  using token_neq
  by (simp add: staticGates_def exampleValidated_def proposalForValidation_def exampleParsed_def exampleOpen_def lower_exampleUid
      lower_exampleToken example_defs exampleConfig_def surplusToken_def checkEnvelope_def checkPartialFill_def
      checkProposalSlippage_def NATIVE_PRICE_SCALE_def Let_def)

lemma example_judged:
  "judgeResponse exampleConfig (exampleReads\<lparr>ve_state := Some (Some exampleOpen)\<rparr>) exampleOpen exampleValidated
     (exampleRecord\<lparr>order := exampleOrder\<lparr>o_sellToken := exampleToken CHR ''a'', o_buyToken := exampleToken CHR ''b''\<rparr>\<rparr>,
       1000000000000000000, 1000000000000000000) ''0x77'' sim =
     Verdict (Accept (Some (exampleOutcome\<lparr>so_sellToken := exampleToken CHR ''a'', so_buyToken := exampleToken CHR ''b''\<rparr>)))"
  by code_simp

lemma example_validated:
  "fst (ProposalValidator_validate exampleConfig (Some 5000) (exampleReads\<lparr>ve_state := Some (Some exampleOpen)\<rparr>)
     exampleValidated emptyCache) =
   Verdict (Accept (Some (exampleOutcome\<lparr>so_sellToken := exampleToken CHR ''a'', so_buyToken := exampleToken CHR ''b''\<rparr>)))"
proof -
  have esc: "escrowVerdict (vc_minCollateral exampleConfig) (Some 5000) = Some (Accept None)"
    by (simp add: escrowVerdict_def exampleConfig_def)
  have reads: "p_trampoline exampleValidated = None" "ve_addressOf exampleReads x = Inr ''0x77''"
    "ve_authenticator exampleReads = Some ''0x92''" "trampolineCache emptyCache = []" "authenticatorCache emptyCache = None" for x
    by (simp_all add: exampleValidated_def proposalForValidation_def exampleReads_def emptyCache_def)
  show ?thesis
    unfolding ProposalValidator_validate_def esc option.case verdict.case
    by (simp add: SimulationValidator_validate_def example_static example_judged reads chooseTrampoline_def
        resolveTrampoline_def resolveAuthenticator_def)
qed

lemma example_admit:
  "resolveSubSolver exampleRoutes exampleParsed = Inr ''0x5A''"
  "enforceSignerLimit (rc_limiter exampleRoutes) (rc_balances exampleRoutes) (rc_signerLimit exampleRoutes) True 0 ''0x5A'' ((), ()) =
     (Inr (), ((), ()))"
  "as_auctionId exampleOpen = 1"
  "jm_get (as_orders exampleOpen) (lower (pq_orderUid exampleParsed)) \<noteq> None"
  by (simp_all add: resolveSubSolver_def exampleParsed_def recoverProposer_def exampleRoutes_def exampleSigLib_def
      enforceSignerLimit_def readBalance_def unknownBalances_def rateForBalance_def checkBudget_def allowAll_def exampleOpen_def lower_exampleUid)

lemma example_post:
  "fst (postProposal exampleRoutes (exampleRequestEnv\<lparr>re_escrow := e\<rparr>) (Some exampleRequest) exampleIngestion) =
     fst (afterVerdict (exampleRequestEnv\<lparr>re_escrow := e\<rparr>) 1 1 ''0x5A'' exampleParsed
       (fst (ProposalValidator_validate exampleConfig e (exampleReads\<lparr>ve_state := Some (Some exampleOpen)\<rparr>) exampleValidated emptyCache))
       (exampleIngestion\<lparr>ig_db := emptyDb\<lparr>proposalSeq := 2\<rparr>,
         ig_cache := snd (ProposalValidator_validate exampleConfig e (exampleReads\<lparr>ve_state := Some (Some exampleOpen)\<rparr>)
           exampleValidated emptyCache)\<rparr>))"
proof -
  have fields: "rc_sig exampleRoutes = exampleSigLib" "rc_subsolverWhitelist exampleRoutes = None" "rc_validator exampleRoutes = exampleConfig"
    "rc_maxProposalLifetimeSecs exampleRoutes = 60" "re_now exampleRequestEnv = 0" "re_state exampleRequestEnv = Some (Some exampleOpen)"
    "re_allocFails exampleRequestEnv = False" "re_validation exampleRequestEnv = exampleReads\<lparr>ve_state := Some (Some exampleOpen)\<rparr>"
    "ig_gate exampleIngestion = ((), ())" "ig_db exampleIngestion = emptyDb" "ig_cache exampleIngestion = emptyCache"
    "pq_validUntil exampleParsed = 60" "proposalSeq emptyDb = 1"
    "exampleIngestion\<lparr>ig_gate := ((), ())\<rparr> = exampleIngestion"
    by (simp_all add: exampleRoutes_def exampleRequestEnv_def exampleIngestion_def exampleParsed_def emptyDb_def)
  show ?thesis
    by (simp add: postProposal_def example_schema fields example_parse example_admit admitProposal_def allocateId_def
        exampleValidated_def [symmetric] split: prod.split)
qed

lemma example_created: "fst (postProposal exampleRoutes exampleRequestEnv (Some exampleRequest) exampleIngestion) = Inr 1"
proof -
  have "exampleRequestEnv\<lparr>re_escrow := Some 5000\<rparr> = exampleRequestEnv" by (simp add: exampleRequestEnv_def)
  then show ?thesis using example_post [of "Some 5000"] unfolding example_validated by (simp add: afterVerdict_def Let_def)
qed

lemma example_deferred:
  "fst (postProposal exampleRoutes (exampleRequestEnv\<lparr>re_escrow := None\<rparr>) (Some exampleRequest) exampleIngestion) =
     Inl (Some (AppError K_NoActiveAuction None))"
proof -
  have "fst (ProposalValidator_validate exampleConfig None r exampleValidated emptyCache) = Deferred" for r
    by (simp add: ProposalValidator_validate_def escrowVerdict_def)
  then show ?thesis unfolding example_post
    by (simp add: afterVerdict_def recordRefusal_def exampleRequestEnv_def fail_def Let_def)
qed

theorem created_proposal_vetted_witness:
  "\<exists>a. authenticates exampleRoutes exampleParsed a \<and>
     (\<exists>out (st :: auction_state). get_candidate 1 (ig_store (snd (postProposal exampleRoutes exampleRequestEnv (Some exampleRequest) exampleIngestion))) =
        Some (candidateOf 0 1 (as_auctionId st) a exampleParsed out))"
proof -
  have run: "postProposal exampleRoutes exampleRequestEnv (Some exampleRequest) exampleIngestion =
      (Inr 1, snd (postProposal exampleRoutes exampleRequestEnv (Some exampleRequest) exampleIngestion))"
    using example_created by (metis prod.collapse)
  have parsed: "p = exampleParsed" if "admitted exampleRoutes exampleRequestEnv (Some exampleRequest) p a st" for p a st
    using that example_parse by (simp add: admitted_def exampleRoutes_def)
  have now: "re_now exampleRequestEnv = 0" by (simp add: exampleRequestEnv_def)
  from created_proposal_vetted [OF run] obtain p a st out where a1: "admitted exampleRoutes exampleRequestEnv (Some exampleRequest) p a st"
    and a2: "authenticates exampleRoutes p a"
    and a3: "get_candidate 1 (ig_store (snd (postProposal exampleRoutes exampleRequestEnv (Some exampleRequest) exampleIngestion))) =
       Some (candidateOf (re_now exampleRequestEnv) 1 (as_auctionId st) a p out)"
    by (elim exE conjE) (rule that)
  have "p = exampleParsed" using a1 by (rule parsed)
  show ?thesis using a2 a3 unfolding now \<open>p = exampleParsed\<close> by blast
qed


section \<open>Reading is scoped to the owner\<close>

text \<open>What one reader's answers may depend on: the candidates, rows and buffer entries of that reader.\<close>

definition same_view :: "string \<Rightarrow> ('l, 'b) ingestion \<Rightarrow> ('l, 'b) ingestion \<Rightarrow> bool" where
  "same_view reader s t \<longleftrightarrow>
     filter (\<lambda>(i, c). lower (c_subSolver c) = lower reader) (ig_store s) =
       filter (\<lambda>(i, c). lower (c_subSolver c) = lower reader) (ig_store t) \<and>
     filter (\<lambda>r. r_subSolver r = lower reader) (proposals (ig_db s)) = filter (\<lambda>r. r_subSolver r = lower reader) (proposals (ig_db t)) \<and>
     filter (\<lambda>r. r_subSolver r = lower reader) (proposalsLog (ig_db s)) =
       filter (\<lambda>r. r_subSolver r = lower reader) (proposalsLog (ig_db t)) \<and>
     filter (\<lambda>b. b_subSolver b = lower reader) (bufferEntries (ig_db s)) =
       filter (\<lambda>b. b_subSolver b = lower reader) (bufferEntries (ig_db t))"

lemma filter_conj: "filter (\<lambda>x. P x \<and> Q x) xs = filter Q (filter P xs)"
  by (induction xs) auto

lemma filter_conj2: "filter (\<lambda>x. Q x \<and> P x) xs = filter Q (filter P xs)"
  by (induction xs) auto

lemma find_conj: "find (\<lambda>x. Q x \<and> P x) xs = find Q (filter P xs)"
  by (induction xs) auto

lemma candidateForOwner_filter:
  assumes "store_ok cs"
  shows "candidateForOwner i reader cs = map_of (filter (\<lambda>(i, c). lower (c_subSolver c) = lower reader) cs) i"
proof -
  have "candidateForOwner i reader cs = map_of (filter (\<lambda>(i, c). lower (c_subSolver c) = lower reader) cs) i"
    if "jm_ok cs" for cs
    using that
  proof (induction cs)
    case (Cons x cs)
    obtain j c where x: "x = (j, c)" by (cases x)
    have tail: "jm_ok cs" and new: "j \<notin> set (map fst cs)" using Cons.prems by (simp_all add: jm_ok_def x)
    have none: "map_of (filter (\<lambda>(i, c). lower (c_subSolver c) = lower reader) cs) j = None"
      using new by (force simp: map_of_eq_None_iff)
    show ?case
      using Cons.IH [OF tail] none by (auto simp: x candidateForOwner_def get_candidate_def)
  qed (simp add: candidateForOwner_def get_candidate_def)
  then show ?thesis using assms by (simp add: store_ok_def)
qed

lemma getForOwner_filter:
  "getForOwner i reader d =
     (if \<not> isStorableId i then Some (Inl (NotFound i))
      else case find (\<lambda>r. r_id r = i) (filter (\<lambda>r. r_subSolver r = lower reader) (proposals d)) of
        Some r \<Rightarrow> map_option Inr (rowToProposal r)
      | None \<Rightarrow> (case find (\<lambda>r. r_id r = i) (filter (\<lambda>r. r_subSolver r = lower reader) (proposalsLog d)) of
             None \<Rightarrow> Some (Inl (NotFound i)) | Some r \<Rightarrow> map_option Inr (rowToProposal r)))"
  unfolding getForOwner_def find_conj by (rule refl)

lemma same_viewD:
  assumes "same_view reader s t"
  shows "filter (\<lambda>(i, c). lower (c_subSolver c) = lower reader) (ig_store s) =
      filter (\<lambda>(i, c). lower (c_subSolver c) = lower reader) (ig_store t)"
    and "filter (\<lambda>r. r_subSolver r = lower reader) (proposals (ig_db s)) =
      filter (\<lambda>r. r_subSolver r = lower reader) (proposals (ig_db t))"
    and "filter (\<lambda>r. r_subSolver r = lower reader) (proposalsLog (ig_db s)) =
      filter (\<lambda>r. r_subSolver r = lower reader) (proposalsLog (ig_db t))"
    and "filter (\<lambda>b. b_subSolver b = lower reader) (bufferEntries (ig_db s)) =
      filter (\<lambda>b. b_subSolver b = lower reader) (bufferEntries (ig_db t))"
  using assms by (simp_all add: same_view_def)

lemma readOne_view:
  assumes "same_view reader s t" "store_ok (ig_store s)" "store_ok (ig_store t)"
  shows "readOne i reader s = readOne i reader t"
proof -
  have c: "candidateForOwner i reader (ig_store s) = candidateForOwner i reader (ig_store t)"
    unfolding candidateForOwner_filter [OF assms(2)] candidateForOwner_filter [OF assms(3)] same_viewD(1) [OF assms(1)] by (rule refl)
  have g: "getForOwner i reader (ig_db s) = getForOwner i reader (ig_db t)"
    unfolding getForOwner_filter same_viewD(2,3) [OF assms(1)] by (rule refl)
  show ?thesis unfolding readOne_def c g by (rule refl)
qed

lemma own_candidates_view:
  "filter (\<lambda>c. lower (c_subSolver c) = lower reader) (getAll cs) =
   map snd (filter (\<lambda>(i, c). lower (c_subSolver c) = lower reader) cs)"
  by (induction cs) (auto simp: getAll_def)

lemma lists_view:
  assumes "same_view reader s t"
  shows "listOwn arch reader s = listOwn arch reader t"
    and "listByOrderUidForOwner uid reader arch (ig_db s) = listByOrderUidForOwner uid reader arch (ig_db t)"
    and "bufferBalanceOf cfg reader s = bufferBalanceOf cfg reader t"
proof -
  have f3: "filter (\<lambda>r. Q r \<and> P r \<and> R r) xs = filter (\<lambda>r. Q r \<and> R r) (filter P xs)" for P Q R and xs :: "proposal_row list"
    by (induction xs) auto
  note v = same_viewD [OF assms]
  show "listOwn arch reader s = listOwn arch reader t"
    unfolding listOwn_def own_candidates_view listBySubSolver_def filter_conj v by (rule refl)
  show "listByOrderUidForOwner uid reader arch (ig_db s) = listByOrderUidForOwner uid reader arch (ig_db t)"
    unfolding listByOrderUidForOwner_def f3 filter_conj2 v by (rule refl)
  show "bufferBalanceOf cfg reader s = bufferBalanceOf cfg reader t"
    unfolding bufferBalanceOf_def unclearedBufferEntries_def unclearedRows_def filter_conj v by (rule refl)
qed

text \<open>The reader a request's token names, before the gate.\<close>

definition tokenReader :: "('l, 'b) routes_config \<Rightarrow> string option \<Rightarrow> string option" where
  "tokenReader cfg header =
     (case extractSignature header of Inl _ \<Rightarrow> None | Inr sig \<Rightarrow> recoverReader (rc_sig cfg) sig (rc_domain cfg))"

lemma authorizeReader_frame:
  assumes "authorizeReader cfg env header s = (r, s')"
  shows "ig_store s' = ig_store s \<and> ig_db s' = ig_db s \<and> ig_audit s' = ig_audit s \<and> ig_cache s' = ig_cache s \<and>
    (\<forall>a. r = Inr a \<longrightarrow> tokenReader cfg header = Some a)"
  using assms by (auto simp: authorizeReader_def tokenReader_def fail_def split: sum.splits option.splits prod.splits)

lemma authorizeReader_gate:
  assumes "ig_gate s = ig_gate t"
  shows "fst (authorizeReader cfg env header s) = fst (authorizeReader cfg env header t)"
  using assms by (simp add: authorizeReader_def split: sum.split option.split prod.split)

lemma withReader_view:
  assumes gate: "ig_gate s = ig_gate t"
    and answers: "\<And>a s' t'. tokenReader cfg header = Some a \<Longrightarrow> ig_store s' = ig_store s \<Longrightarrow> ig_db s' = ig_db s \<Longrightarrow>
      ig_store t' = ig_store t \<Longrightarrow> ig_db t' = ig_db t \<Longrightarrow> answer a s' = answer a t'"
  shows "fst (withReader cfg env header answer s) = fst (withReader cfg env header answer t)"
proof -
  obtain r s' where s: "authorizeReader cfg env header s = (r, s')" by (metis surj_pair)
  obtain q t' where t: "authorizeReader cfg env header t = (q, t')" by (metis surj_pair)
  have "r = q" using authorizeReader_gate [OF gate, of cfg env header] s t by simp
  moreover have "answer a s' = answer a t'" if "r = Inr a" for a
    using authorizeReader_frame [OF s] authorizeReader_frame [OF t] answers that by blast
  ultimately show ?thesis by (simp add: withReader_def s t split: sum.split)
qed

lemma same_view_frame:
  "same_view a s t \<Longrightarrow> ig_store s' = ig_store s \<Longrightarrow> ig_db s' = ig_db s \<Longrightarrow> ig_store t' = ig_store t \<Longrightarrow> ig_db t' = ig_db t \<Longrightarrow>
   same_view a s' t'"
  by (simp add: same_view_def)

text \<open>
  C14. No existence oracle: what any read route answers depends on nothing but the reader's own candidates,
  rows and buffer entries. Two states that agree on those, and in the gate's counters, give the same body
  or the same error for a single proposal, for both lists and for the buffer balance, whatever other
  sub-solvers have; and no read changes the candidates, the tables or the audit trail.
\<close>

theorem reads_scoped_to_owner:
  fixes s t :: "('l, 'b) ingestion"
  assumes view: "\<And>a. tokenReader cfg header = Some a \<Longrightarrow> same_view a s t" and gate: "ig_gate s = ig_gate t"
    and ok: "store_ok (ig_store s)" "store_ok (ig_store t)"
  shows "fst (getProposal cfg env n header s) = fst (getProposal cfg env n header t) \<and>
    fst (listBySubSolverRoute cfg env arch header s) = fst (listBySubSolverRoute cfg env arch header t) \<and>
    fst (listByOrderRoute cfg env uid arch header s) = fst (listByOrderRoute cfg env uid arch header t) \<and>
    fst (bufferBalanceRoute cfg env header s) = fst (bufferBalanceRoute cfg env header t) \<and>
    (\<forall>answer. let s' = snd (withReader cfg env header answer s) in
       ig_store s' = ig_store s \<and> ig_db s' = ig_db s \<and> ig_audit s' = ig_audit s)"
proof -
  note frame = same_view_frame [OF view]
  have one: "fst (withReader cfg env header (readOne i) s) = fst (withReader cfg env header (readOne i) t)" for i
  proof (rule withReader_view [OF gate])
    fix a and s' t' :: "('l, 'b) ingestion" assume h: "tokenReader cfg header = Some a" "ig_store s' = ig_store s" "ig_db s' = ig_db s"
      "ig_store t' = ig_store t" "ig_db t' = ig_db t"
    show "readOne i a s' = readOne i a t'"
      by (rule readOne_view [OF frame [OF h]]) (use ok h in simp_all)
  qed
  have list: "fst (withReader cfg env header (listOwn arch) s) = fst (withReader cfg env header (listOwn arch) t)"
    by (rule withReader_view [OF gate], rule lists_view(1), rule frame)
  have by_order: "fst (withReader cfg env header (\<lambda>reader s. Inr (proposalToListResponse (listByOrderUidForOwner uid reader arch (ig_db s)))) s) =
      fst (withReader cfg env header (\<lambda>reader s. Inr (proposalToListResponse (listByOrderUidForOwner uid reader arch (ig_db s)))) t)"
  proof (rule withReader_view [OF gate])
    fix a and s' t' :: "('l, 'b) ingestion" assume h: "tokenReader cfg header = Some a" "ig_store s' = ig_store s" "ig_db s' = ig_db s"
      "ig_store t' = ig_store t" "ig_db t' = ig_db t"
    show "Inr (proposalToListResponse (listByOrderUidForOwner uid a arch (ig_db s'))) =
      (Inr (proposalToListResponse (listByOrderUidForOwner uid a arch (ig_db t'))) :: json outcome)"
      using lists_view(2) [OF frame [OF h]] by simp
  qed
  have buffer: "fst (withReader cfg env header (bufferBalanceOf cfg) s) = fst (withReader cfg env header (bufferBalanceOf cfg) t)"
    by (rule withReader_view [OF gate], rule lists_view(3), rule frame)
  have keep: "ig_store s' = ig_store s \<and> ig_db s' = ig_db s \<and> ig_audit s' = ig_audit s"
    if "s' = snd (withReader cfg env header answer s)" for answer s'
  proof -
    obtain r u where u: "authorizeReader cfg env header s = (r, u)" by (metis surj_pair)
    then show ?thesis using that authorizeReader_frame [OF u] by (simp add: withReader_def split: sum.splits)
  qed
  have single: "fst (getProposal cfg env n header s) = fst (getProposal cfg env n header t)"
    by (cases "pathId n") (simp_all add: getProposal_def one)
  show ?thesis
    unfolding listBySubSolverRoute_def listByOrderRoute_def bufferBalanceRoute_def Let_def
    by (rule conjI [OF single conjI [OF list conjI [OF by_order conjI [OF buffer allI [OF keep [OF refl]]]]]])
qed

theorem reads_scoped_to_owner_witness:
  "fst (getProposal exampleRoutes exampleRequestEnv (Some 7) (Some exampleSignature) exampleIngestion) =
   fst (getProposal exampleRoutes exampleRequestEnv (Some 7) (Some exampleSignature)
     (exampleIngestion\<lparr>ig_store := [(7, exampleCandidate\<lparr>c_subSolver := ''0x5B''\<rparr>)]\<rparr>))"
proof -
  let ?t = "exampleIngestion\<lparr>ig_store := [(7, exampleCandidate\<lparr>c_subSolver := ''0x5B''\<rparr>)]\<rparr>"
  have reader: "a = ''0x5A''" if "tokenReader exampleRoutes h = Some a" for a h
    using that by (auto simp: tokenReader_def recoverReader_def exampleRoutes_def exampleSigLib_def split: sum.splits)
  have "lower ''0x5B'' \<noteq> lower ''0x5A''" by code_simp
  then have "same_view ''0x5A'' exampleIngestion ?t" by (simp add: same_view_def exampleIngestion_def)
  then show ?thesis
    by (intro reads_scoped_to_owner [THEN conjunct1])
      (auto dest: reader simp: exampleIngestion_def store_ok_def jm_ok_def exampleCandidate_def)
qed

section \<open>Cancelling is the owner's\<close>

lemma cancelOwn_cases:
  obtains e where "cancelOwn env i a s = (Inl e, s)"
      "\<forall>c. get_candidate i (ig_store s) = Some c \<longrightarrow> lower (c_subSolver c) \<noteq> lower a"
  | c where "get_candidate i (ig_store s) = Some c" "lower (c_subSolver c) = lower a"
      "cancelOwn env i a s = (if re_logFails env then (throws, s\<lparr>ig_store := remove_candidate i (ig_store s)\<rparr>)
        else (Inr (), s\<lparr>ig_store := remove_candidate i (ig_store s),
          ig_db := writeToLog (re_now env) i (candidateToProposal Cancelled c) Cancelled None None (ig_db s),
          ig_audit := ig_audit s @ [(re_now env, CancelledEvent i a (c_orderUid c))]\<rparr>))"
proof (cases "candidateForOwner i a (ig_store s)")
  case None
  then have "\<forall>c. get_candidate i (ig_store s) = Some c \<longrightarrow> lower (c_subSolver c) \<noteq> lower a"
    by (auto simp: candidateForOwner_def split: option.splits if_splits)
  moreover have "\<exists>e. cancelOwn env i a s = (Inl e, s)"
    using None by (auto simp: cancelOwn_def fail_def throws_def split: option.split)
  ultimately show thesis using that(1) by blast
next
  case (Some c)
  then have "get_candidate i (ig_store s) = Some c" "lower (c_subSolver c) = lower a"
    by (auto simp: candidateForOwner_def split: option.splits if_splits)
  then show thesis using that(2) Some by (simp add: cancelOwn_def Let_def)
qed

text \<open>A cancel request ends before it reaches a candidate, or runs for the canceller its signature names.\<close>

lemma deleteProposal_cases:
  obtains e g where "deleteProposal cfg env n header s = (Inl e, s\<lparr>ig_gate := g\<rparr>)"
  | i sig a g where "n = Some i" "extractSignature header = Inr sig" "recoverCanceller (rc_sig cfg) sig (rc_domain cfg) i = Some a"
      "deleteProposal cfg env n header s = cancelOwn env i a (s\<lparr>ig_gate := g\<rparr>)"
proof -
  have same: "s\<lparr>ig_gate := ig_gate s\<rparr> = s" by simp
  show thesis
  proof (cases "\<exists>i sig a. pathId n = Some i \<and> extractSignature header = Inr sig \<and>
      recoverCanceller (rc_sig cfg) sig (rc_domain cfg) i = Some a")
    case False
    then have "\<exists>e. deleteProposal cfg env n header s = (Inl e, s)"
      by (auto simp: deleteProposal_def fail_def split: option.split sum.split)
    then show thesis using that(1) same by metis
  next
    case True
    then obtain i sig a where h: "pathId n = Some i" "extractSignature header = Inr sig"
      "recoverCanceller (rc_sig cfg) sig (rc_domain cfg) i = Some a" by blast
    obtain r g where gate: "enforceSignerLimit (rc_limiter cfg) (rc_balances cfg) (rc_signerLimit cfg) False (re_now env) a (ig_gate s) = (r, g)"
      by (metis surj_pair)
    have n: "n = Some i" using h(1) by (auto simp: pathId_def split: option.splits if_splits)
    show thesis
    proof (cases r)
      case (Inl e)
      then show thesis using that(1) h by (simp add: deleteProposal_def gate)
    next
      case (Inr u)
      then show thesis using that(2) [OF n h(2,3), of g] h by (simp add: deleteProposal_def gate)
    qed
  qed
qed

text \<open>
  C13. Only the owner cancels, and only a candidate: whatever the request, no live row changes and at most
  one candidate leaves the store; it leaves only on a signature that, over the cancellation of that very
  id, recovers to its sub-solver; a success is recorded in the log and the audit trail. For a key that
  signs as viem documents, a token signed to read or to cancel another proposal never suffices.
\<close>

theorem cancel_needs_owner:
  assumes run: "deleteProposal cfg env n header s = (r, s')"
  shows "(\<forall>j. liveRow (ig_db s') j = liveRow (ig_db s) j) \<and>
    (\<forall>j c. get_candidate j (ig_store s) = Some c \<and> get_candidate j (ig_store s') \<noteq> Some c \<longrightarrow>
       n = Some j \<and> get_candidate j (ig_store s') = None \<and>
       (\<exists>sig a. extractSignature header = Inr sig \<and> recoverCanceller (rc_sig cfg) sig (rc_domain cfg) j = Some a \<and>
          lower a = lower (c_subSolver c) \<and>
          (\<forall>sign k. signs_for (rc_sig cfg) sign a \<longrightarrow>
             sig \<noteq> signReadAuth sign (rc_domain cfg) \<and> (sig = signCancellation sign (rc_domain cfg) k \<longrightarrow> k = j))) \<and>
       (r = Inr () \<or> re_logFails env)) \<and>
    (r = Inr () \<longrightarrow> (\<exists>j c. get_candidate j (ig_store s) = Some c \<and> n = Some j \<and> get_candidate j (ig_store s') = None \<and>
       (\<exists>l. logRow (ig_db s') j = Some l \<and> (logRow (ig_db s) j = None \<longrightarrow> r_status l = Cancelled))))"
proof (cases rule: deleteProposal_cases [of cfg env n header s])
  case (1 e g)
  then show ?thesis using run by auto
next
  case (2 i sig a g)
  have scope: "sig \<noteq> signReadAuth sign (rc_domain cfg) \<and> (sig = signCancellation sign (rc_domain cfg) k \<longrightarrow> k = i)"
    if "signs_for (rc_sig cfg) sign a" for sign k
    using signature_scope(2,4) [OF that] 2(3) by auto
  show ?thesis
  proof (cases rule: cancelOwn_cases [of env i a "s\<lparr>ig_gate := g\<rparr>"])
    case (1 e)
    then show ?thesis using run 2(4) by auto
  next
    case c: (2 c)
    have run': "cancelOwn env i a (s\<lparr>ig_gate := g\<rparr>) = (r, s')" using run 2(4) by simp
    show ?thesis
    proof (cases "re_logFails env")
      case True
      then have "r = throws" "s' = s\<lparr>ig_gate := g, ig_store := remove_candidate i (ig_store s)\<rparr>" using run' c(3) by simp_all
      then show ?thesis using c(1,2) 2(1-3) scope True by (auto simp: get_remove throws_def)
    next
      case False
      then have "r = Inr ()" "ig_store s' = remove_candidate i (ig_store s)"
        "ig_db s' = writeToLog (re_now env) i (candidateToProposal Cancelled c) Cancelled None None (ig_db s)"
        using run' c(3) by auto
      moreover have "r_status (logRowOf (re_now env) i p Cancelled None None) = Cancelled" for p by (simp add: logRowOf_def)
      ultimately show ?thesis using c(1,2) 2(1-3) scope
        by (auto simp: get_remove writeToLog_rows split: option.splits)
    qed
  qed
qed

theorem cancel_needs_owner_witness:
  "get_candidate 7 (ig_store (snd (deleteProposal exampleRoutes exampleRequestEnv (Some 7) (Some exampleSignature)
     (exampleIngestion\<lparr>ig_store := [(7, exampleCandidate)]\<rparr>)))) = None"
proof -
  let ?s = "exampleIngestion\<lparr>ig_store := [(7, exampleCandidate)]\<rparr>"
  have sig: "extractSignature (Some exampleSignature) = Inr exampleSignature" by code_simp
  have own: "get_candidate 7 (ig_store ?s) = Some exampleCandidate" "lower (c_subSolver exampleCandidate) = lower ''0x5A''"
    by (simp_all add: get_candidate_def exampleCandidate_def)
  obtain r s' where run: "deleteProposal exampleRoutes exampleRequestEnv (Some 7) (Some exampleSignature) ?s = (r, s')" by (metis surj_pair)
  have gate: "ig_gate exampleIngestion = ((), ())" "re_now exampleRequestEnv = 0" "re_logFails exampleRequestEnv = False"
    "pathId (Some 7) = Some 7" "recoverCanceller (rc_sig exampleRoutes) x y z = Some ''0x5A''" for x y z
    by (simp_all add: exampleIngestion_def exampleRequestEnv_def pathId_def isSafeInteger_def recoverCanceller_def
        exampleRoutes_def exampleSigLib_def)
  have "r = Inr ()"
    using run own by (simp add: deleteProposal_def sig gate example_admit(2) enforceSignerLimit_def cancelOwn_def candidateForOwner_def
        readBalance_def exampleRoutes_def unknownBalances_def rateForBalance_def checkBudget_def allowAll_def Let_def exampleSigLib_def
        recoverCanceller_def)
  from cancel_needs_owner [OF run] this obtain j where "Some 7 = Some j" "get_candidate j (ig_store s') = None" by blast
  then show ?thesis by (simp add: run)
qed

end
