(* ===== verification/Service.thy ===== *)
theory Service
  imports Ingestion
begin

text \<open>
  The service as a whole: replicas, each with its candidates in memory, over one database. Steps are the
  requests that create, cancel or settle proposals on some replica (\<open>POST /proposals\<close>,
  \<open>DELETE /proposal/:id\<close>, the second half of \<open>POST /solve\<close>) and any statement that adds no proposal id
  (the workers' writes, the price publication). The invariant is what the competition relies on: every
  candidate is held by one replica, has no row yet, and carries unsigned amounts.
\<close>

record service =
  srv_db :: db
  srv_stores :: "nat \<Rightarrow> candidate_store"

text \<open>
  What the node documents of its answers: the decoded delta and the gas used are unsigned.
\<close>

definition rpc_ok :: "validator_config \<Rightarrow> validation_env \<Rightarrow> bool" where
  "rpc_ok cfg env \<longleftrightarrow>
     (\<forall>topics data delta. vc_decodeExecuted cfg topics data = Some delta \<longrightarrow> 0 \<le> delta) \<and>
     (\<forall>rq call gas. ve_simulate env rq = SimResult call \<and> BigInt (ca_gasUsed call) = Some gas \<longrightarrow> 0 \<le> gas)"

text \<open>Statements on other columns and tables, and deletions of live rows.\<close>

definition adds_no_id :: "db \<Rightarrow> db \<Rightarrow> bool" where
  "adds_no_id d d' \<longleftrightarrow> proposalSeq d' = proposalSeq d \<and>
     (\<forall>k. liveRow d k = None \<longrightarrow> liveRow d' k = None) \<and> (\<forall>k. logRow d k = None \<longrightarrow> logRow d' k = None)"

inductive service_step :: "service \<Rightarrow> service \<Rightarrow> bool" where
  step_post: "postProposal (cfg :: (counters option, bal_store option) routes_config) env body s = (r, s') \<Longrightarrow>
     ig_db s = srv_db w \<Longrightarrow> ig_store s = srv_stores w i \<Longrightarrow> rpc_ok (rc_validator cfg) (re_validation env) \<Longrightarrow>
     service_step w (w\<lparr>srv_db := ig_db s', srv_stores := (srv_stores w)(i := ig_store s')\<rparr>)"
| step_post_stub: "postProposal (cfg :: (unit, unit) routes_config) env body s = (r, s') \<Longrightarrow>
     ig_db s = srv_db w \<Longrightarrow> ig_store s = srv_stores w i \<Longrightarrow> rpc_ok (rc_validator cfg) (re_validation env) \<Longrightarrow>
     service_step w (w\<lparr>srv_db := ig_db s', srv_stores := (srv_stores w)(i := ig_store s')\<rparr>)"
| step_delete: "deleteProposal (cfg :: (counters option, bal_store option) routes_config) env n header s = (u, s') \<Longrightarrow>
     ig_db s = srv_db w \<Longrightarrow> ig_store s = srv_stores w i \<Longrightarrow>
     service_step w (w\<lparr>srv_db := ig_db s', srv_stores := (srv_stores w)(i := ig_store s')\<rparr>)"
| step_delete_stub: "deleteProposal (cfg :: (unit, unit) routes_config) env n header s = (u, s') \<Longrightarrow>
     ig_db s = srv_db w \<Longrightarrow> ig_store s = srv_stores w i \<Longrightarrow>
     service_step w (w\<lparr>srv_db := ig_db s', srv_stores := (srv_stores w)(i := ig_store s')\<rparr>)"
| step_close: "solveClose scfg senv now a auctionId gasPrice v = (resp, v') \<Longrightarrow>
     sw_db v = srv_db w \<Longrightarrow> sw_store v = srv_stores w i \<Longrightarrow>
     service_step w (w\<lparr>srv_db := sw_db v', srv_stores := (srv_stores w)(i := sw_store v')\<rparr>)"
| step_other: "adds_no_id (srv_db w) d' \<Longrightarrow> service_step w (w\<lparr>srv_db := d'\<rparr>)"

definition service_init :: "service \<Rightarrow> bool" where
  "service_init w \<longleftrightarrow> (\<forall>i. srv_stores w i = []) \<and>
     (\<forall>k. proposalSeq (srv_db w) \<le> k \<longrightarrow> liveRow (srv_db w) k = None \<and> logRow (srv_db w) k = None)"

definition no_row :: "db \<Rightarrow> int \<Rightarrow> bool" where
  "no_row d k \<longleftrightarrow> liveRow d k = None \<and> logRow d k = None"

definition book_ok :: "service \<Rightarrow> bool" where
  "book_ok w \<longleftrightarrow>
     (\<forall>i. store_ok (srv_stores w i)) \<and>
     (\<forall>i k c. get_candidate k (srv_stores w i) = Some c \<longrightarrow>
        candidate_amounts_ok c \<and> k < proposalSeq (srv_db w) \<and> no_row (srv_db w) k \<and>
        (\<forall>j. j \<noteq> i \<longrightarrow> get_candidate k (srv_stores w j) = None)) \<and>
     (\<forall>k. proposalSeq (srv_db w) \<le> k \<longrightarrow> no_row (srv_db w) k)"

text \<open>
  What a request does on the replica that serves it: the candidates after it are old ones without a new
  row, or a new one under an id of the sequence, and rows appear only for its own former candidates and
  the ids it allocated.
\<close>

definition replica_step :: "service \<Rightarrow> nat \<Rightarrow> db \<Rightarrow> candidate_store \<Rightarrow> bool" where
  "replica_step w i d' cs' \<longleftrightarrow> store_ok cs' \<and> proposalSeq (srv_db w) \<le> proposalSeq d' \<and>
     (\<forall>k c. get_candidate k cs' = Some c \<longrightarrow> get_candidate k (srv_stores w i) = Some c \<and> no_row d' k \<or>
        (proposalSeq (srv_db w) \<le> k \<and> k < proposalSeq d' \<and> no_row d' k \<and> candidate_amounts_ok c)) \<and>
     (\<forall>k. no_row (srv_db w) k \<longrightarrow> \<not> no_row d' k \<longrightarrow>
        get_candidate k (srv_stores w i) \<noteq> None \<or> (proposalSeq (srv_db w) \<le> k \<and> k < proposalSeq d'))"

lemma replica_stepI:
  assumes "store_ok cs'" "proposalSeq (srv_db w) \<le> proposalSeq d'"
    and "\<And>k c. get_candidate k cs' = Some c \<Longrightarrow> get_candidate k (srv_stores w i) = Some c \<and> no_row d' k \<or>
      (proposalSeq (srv_db w) \<le> k \<and> k < proposalSeq d' \<and> no_row d' k \<and> candidate_amounts_ok c)"
    and "\<And>k. no_row (srv_db w) k \<Longrightarrow> \<not> no_row d' k \<Longrightarrow>
      get_candidate k (srv_stores w i) \<noteq> None \<or> (proposalSeq (srv_db w) \<le> k \<and> k < proposalSeq d')"
  shows "replica_step w i d' cs'"
  using assms unfolding replica_step_def by blast

lemma book_step:
  assumes inv: "book_ok w" and step: "replica_step w i d' cs'"
  shows "book_ok (w\<lparr>srv_db := d', srv_stores := (srv_stores w)(i := cs')\<rparr>)"
proof -
  have ok: "store_ok cs'" and seq: "proposalSeq (srv_db w) \<le> proposalSeq d'"
    and old: "get_candidate k cs' = Some c \<Longrightarrow> get_candidate k (srv_stores w i) = Some c \<and> no_row d' k \<or>
      (proposalSeq (srv_db w) \<le> k \<and> k < proposalSeq d' \<and> no_row d' k \<and> candidate_amounts_ok c)"
    and rows: "no_row (srv_db w) k \<Longrightarrow> \<not> no_row d' k \<Longrightarrow>
      get_candidate k (srv_stores w i) \<noteq> None \<or> (proposalSeq (srv_db w) \<le> k \<and> k < proposalSeq d')" for k c
    using step unfolding replica_step_def by blast+
  have cand: "candidate_amounts_ok c" "k < proposalSeq (srv_db w)" "no_row (srv_db w) k"
    "j \<noteq> l \<Longrightarrow> get_candidate k (srv_stores w j) = None"
    if "get_candidate k (srv_stores w l) = Some c" for k l j c
    using inv that unfolding book_ok_def by blast+
  have high: "no_row (srv_db w) k" if "proposalSeq (srv_db w) \<le> k" for k using inv that unfolding book_ok_def by blast
  let ?st = "(srv_stores w)(i := cs')"
  have "candidate_amounts_ok c \<and> k < proposalSeq d' \<and> no_row d' k \<and> (\<forall>j. j \<noteq> l \<longrightarrow> get_candidate k (?st j) = None)"
    if get: "get_candidate k (?st l) = Some c" for l k c
  proof (cases "l = i")
    case True
    then have get': "get_candidate k cs' = Some c" using get by simp
    from old [OF get'] show ?thesis
    proof
      assume h: "get_candidate k (srv_stores w i) = Some c \<and> no_row d' k"
      then show ?thesis using cand [of k i c] seq True by auto
    next
      assume h: "proposalSeq (srv_db w) \<le> k \<and> k < proposalSeq d' \<and> no_row d' k \<and> candidate_amounts_ok c"
      have "get_candidate k (srv_stores w j) = None" for j
        using cand(2) [of k j] h by (cases "get_candidate k (srv_stores w j)") auto
      then show ?thesis using h True by simp
    qed
  next
    case False
    then have get': "get_candidate k (srv_stores w l) = Some c" using get by simp
    have none: "get_candidate k (srv_stores w i) = None" using cand(4) [OF get'] False by simp
    have "no_row d' k"
    proof (rule ccontr)
      assume "\<not> no_row d' k"
      from rows [OF cand(3) [OF get'] this] none cand(2) [OF get'] show False by simp
    qed
    moreover have "get_candidate k cs' = None"
    proof (rule ccontr)
      assume "get_candidate k cs' \<noteq> None"
      then obtain c' where "get_candidate k cs' = Some c'" by blast
      from old [OF this] none cand(2) [OF get'] show False by simp
    qed
    ultimately show ?thesis using cand [OF get'] seq by (auto split: if_splits)
  qed
  moreover have "store_ok (?st l)" for l using ok inv by (simp add: book_ok_def)
  moreover have "no_row d' k" if "proposalSeq d' \<le> k" for k
  proof (rule ccontr)
    assume "\<not> no_row d' k"
    moreover have "no_row (srv_db w) k" using high that seq by simp
    ultimately show False using rows [of k] that cand(2) [of k i] seq by (cases "get_candidate k (srv_stores w i)") auto
  qed
  ultimately show ?thesis unfolding book_ok_def by simp
qed


section \<open>Creating\<close>

lemma writeToLog_seq: "proposalSeq (writeToLog now i p st reason params d) = proposalSeq d"
  by (simp add: writeToLog_def)

lemma afterVerdict_book:
  assumes r: "afterVerdict env i auctionId a p v s = (r, s')"
  obtains sim where "v = Verdict (Accept (Some sim))"
      "ig_store s' = add_candidate (candidateOf (re_now env) i auctionId a p sim) (ig_store s)" "ig_db s' = ig_db s"
  | "ig_store s' = ig_store s" "proposalSeq (ig_db s') = proposalSeq (ig_db s)"
      "\<forall>k. k \<noteq> i \<longrightarrow> no_row (ig_db s') k = no_row (ig_db s) k"
proof (cases "\<exists>sim. v = Verdict (Accept (Some sim))")
  case True
  then show thesis using r that(1) by (auto simp: afterVerdict_def Let_def)
next
  case False
  have refusal: "ig_store s' = ig_store s \<and> proposalSeq (ig_db s') = proposalSeq (ig_db s) \<and>
      (\<forall>k. k \<noteq> i \<longrightarrow> no_row (ig_db s') k = no_row (ig_db s) k)"
    if "recordRefusal env i pv st reason params audited kind s = (r, s')" for pv st reason params audited kind
    using that by (auto simp: recordRefusal_def no_row_def writeToLog_rows writeToLog_seq split: if_splits option.splits)
  have "ig_store s' = ig_store s \<and> proposalSeq (ig_db s') = proposalSeq (ig_db s) \<and>
      (\<forall>k. k \<noteq> i \<longrightarrow> no_row (ig_db s') k = no_row (ig_db s) k)"
  proof (cases v)
    case (Verdict u)
    then show ?thesis using r False refusal by (cases u) (auto simp: afterVerdict_def Let_def split: option.splits)
  qed (use r refusal in \<open>auto simp: afterVerdict_def Let_def\<close>)
  then show thesis using that(2) by blast
qed

text \<open>What the node answers keeps the amounts of an accepted proposal unsigned.\<close>

lemma accepted_amounts:
  assumes ok: "rpc_ok cfg env" and acc: "fst (ProposalValidator_validate cfg bal env p c) = Verdict (Accept (Some sim))"
  shows "0 \<le> so_gasUsed sim \<and> 0 \<le> so_simulationBuyAmount sim"
proof -
  from proposal_validate_AcceptD [OF acc]
  have "fst (SimulationValidator_validate cfg env p c) = Verdict (Accept (Some sim))" by blast
  from validate_AcceptD [OF this] obtain st rec refPrice surplusPrice trampoline authenticator call where
    call: "ve_simulate env (simulateRequest cfg (simulationFor cfg rec p trampoline authenticator)) = SimResult call"
    and j: "judgeExecuted cfg env st p (rec, refPrice, surplusPrice) trampoline call = Verdict (Accept (Some sim))" by blast
  from judgeExecuted_AcceptD [OF j]
  have "parseExecutedDelta (vc_decodeExecuted cfg) (ca_logs call) trampoline = Some (so_simulationBuyAmount sim)"
    "BigInt (ca_gasUsed call) = Some (so_gasUsed sim)" by auto
  then show ?thesis using parseExecutedDelta_SomeD call ok unfolding rpc_ok_def by blast
qed

lemma post_replica_step:
  fixes cfg :: "('l, 'b) routes_config" and s :: "('l, 'b) ingestion"
  assumes inv: "book_ok w" and r: "postProposal cfg env body s = (r, s')"
    and at: "ig_db s = srv_db w" "ig_store s = srv_stores w i"
    and rpc: "rpc_ok (rc_validator cfg) (re_validation env)"
  shows "replica_step w i (ig_db s') (ig_store s')"
proof -
  have ok: "store_ok (ig_store s)" using inv at by (simp add: book_ok_def)
  have old: "no_row (ig_db s) k" if "get_candidate k (ig_store s) = Some c" for k c
    using inv that at unfolding book_ok_def by metis
  have high: "no_row (ig_db s) k" if "proposalSeq (ig_db s) \<le> k" for k using inv that at unfolding book_ok_def by metis
  have below: "k < proposalSeq (ig_db s)" if "get_candidate k (ig_store s) = Some c" for k c
    using inv that at unfolding book_ok_def by metis
  show ?thesis
  proof (cases rule: postProposal_cases [of cfg env body s])
    case (1 e g)
    then show ?thesis using r ok old at by (intro replica_stepI) (auto simp: no_row_def)
  next
    case (2 p a st g)
    let ?n = "proposalSeq (ig_db s)"
    let ?s1 = "s\<lparr>ig_gate := g, ig_db := (ig_db s)\<lparr>proposalSeq := ?n + 1\<rparr>,
              ig_cache := snd (validationOf cfg env ?n p a st (ig_cache s))\<rparr>"
    have rows: "no_row (ig_db ?s1) k = no_row (ig_db s) k" for k by (simp add: no_row_def liveRow_def logRow_def)
    have after: "afterVerdict env ?n (as_auctionId st) a p (fst (validationOf cfg env ?n p a st (ig_cache s))) ?s1 = (r, s')"
      using 2(2) r by simp
    show ?thesis
    proof (cases rule: afterVerdict_book [OF after])
      case (1 sim)
      obtain b where "createProposalRequestSchema b" "parseCreateProposalRequest (rc_sig cfg) b = Some p"
        using 2(1) by (auto simp: admitted_def)
      then have "0 \<le> pq_sellAmount p" "0 \<le> pq_quoteBuyAmount p" using parse_schema [of b "rc_sig cfg"] by auto
      moreover have "0 \<le> so_gasUsed sim \<and> 0 \<le> so_simulationBuyAmount sim"
        using accepted_amounts [OF rpc] 1(1) unfolding validationOf_def by blast
      ultimately have amounts: "candidate_amounts_ok (candidateOf (re_now env) ?n (as_auctionId st) a p sim)"
        by (simp add: candidate_amounts_ok_def candidateOf_def candidateBuy_def effectiveBuy_def)
      have "no_row (ig_db s) ?n" using high by simp
      then show ?thesis using 1 amounts old ok below at rows
        by (intro replica_stepI)
          (auto simp: store_ok_add get_add candidateOf_def split: if_splits)
    next
      case 2
      have "no_row (ig_db s') k" if "get_candidate k (ig_store s) = Some c" for k c
        using old [OF that] below [OF that] 2(3) rows by auto
      then show ?thesis using 2 ok at rows by (intro replica_stepI) auto
    qed
  qed
qed


section \<open>Cancelling and settling\<close>

lemma delete_replica_step:
  fixes cfg :: "('l, 'b) routes_config" and s :: "('l, 'b) ingestion"
  assumes inv: "book_ok w" and r: "deleteProposal cfg env n header s = (u, s')"
    and at: "ig_db s = srv_db w" "ig_store s = srv_stores w i"
  shows "replica_step w i (ig_db s') (ig_store s')"
proof -
  have ok: "store_ok (ig_store s)" using inv at by (simp add: book_ok_def)
  have old: "no_row (ig_db s) k" if "get_candidate k (ig_store s) = Some c" for k c
    using inv that at unfolding book_ok_def by metis
  have same: ?thesis if "ig_store s' = ig_store s" "ig_db s' = ig_db s"
    using that ok old at by (intro replica_stepI) auto
  show ?thesis
  proof (cases rule: deleteProposal_cases [of cfg env n header s])
    case (1 e g)
    then show ?thesis using r same by simp
  next
    case (2 j sig a g)
    let ?s1 = "s\<lparr>ig_gate := g\<rparr>"
    show ?thesis
    proof (cases rule: cancelOwn_cases [of env j a ?s1])
      case (1 e)
      then have "s' = ?s1" using r 2(4) by simp
      then show ?thesis using same by simp
    next
      case (2 c)
      have store: "ig_store s' = remove_candidate j (ig_store s)" and seq: "proposalSeq (ig_db s') = proposalSeq (ig_db s)"
        using r \<open>deleteProposal cfg env n header s = cancelOwn env j a ?s1\<close> 2(3)
        by (auto simp: writeToLog_seq split: if_splits)
      have rows: "no_row (ig_db s') k = no_row (ig_db s) k" if "k \<noteq> j" for k
        using r \<open>deleteProposal cfg env n header s = cancelOwn env j a ?s1\<close> 2(3) that
        by (auto simp: no_row_def writeToLog_rows split: if_splits option.splits)
      have mine: "get_candidate j (srv_stores w i) = Some c" using 2(1) at by simp
      show ?thesis
      proof (rule replica_stepI)
        show "store_ok (ig_store s')" using ok store by (simp add: store_ok_remove)
        show "proposalSeq (srv_db w) \<le> proposalSeq (ig_db s')" using seq at by simp
      next
        fix k c' assume "get_candidate k (ig_store s') = Some c'"
        then have "k \<noteq> j" "get_candidate k (ig_store s) = Some c'" by (auto simp: store get_remove split: if_splits)
        then show "get_candidate k (srv_stores w i) = Some c' \<and> no_row (ig_db s') k \<or>
            proposalSeq (srv_db w) \<le> k \<and> k < proposalSeq (ig_db s') \<and> no_row (ig_db s') k \<and> candidate_amounts_ok c'"
          using old rows at by metis
      next
        fix k assume "no_row (srv_db w) k" "\<not> no_row (ig_db s') k"
        then have "k = j" using rows at by metis
        then show "get_candidate k (srv_stores w i) \<noteq> None \<or> proposalSeq (srv_db w) \<le> k \<and> k < proposalSeq (ig_db s')"
          using mine by simp
      qed
    qed
  qed
qed

lemma selection_seq: "proposalSeq (sl_db (selectAll cfg env now a auctionId gp cs d)) = proposalSeq d"
  unfolding selectAll_def
proof (rule fold_invariant [where Q = "\<lambda>o'. o' \<in> set (au_orders a)"])
  fix o' and s :: selected assume o: "o' \<in> set (au_orders a)" and inv: "proposalSeq (sl_db s) = proposalSeq d"
  have ins: "proposalSeq d' = proposalSeq (sl_db s)" if "insertSelected cfg env now a o' gp c sol (sl_db s) = Some d'" for c sol d'
    using insertSelected_SomeD [OF that] by (auto simp: insertProposal_def Let_def split: if_splits)
  show "proposalSeq (sl_db (selectOrder cfg env now a auctionId gp (groupByOrder cs) o' s)) = proposalSeq d"
    by (cases rule: selectOrder_cases [OF o, of cfg env now auctionId gp cs s]) (use inv ins in \<open>auto split: option.splits\<close>)
qed simp_all

lemma flush_frame:
  "proposalSeq (fold (flushCandidate env now uids) cs d) = proposalSeq d \<and>
   (k \<notin> c_id ` set cs \<longrightarrow> no_row (fold (flushCandidate env now uids) cs d) k = no_row d k)"
  by (induction cs arbitrary: d) (auto simp: flushCandidate_def no_row_def writeToLog_rows writeToLog_seq)

lemma close_replica_step:
  assumes inv: "book_ok w" and r: "solveClose cfg env now a auctionId gasPrice v = (resp, v')"
    and at: "sw_db v = srv_db w" "sw_store v = srv_stores w i"
  shows "replica_step w i (sw_db v') (sw_store v')"
proof -
  have ok: "store_ok (sw_store v)" using inv at by (simp add: book_ok_def)
  have old: "no_row (sw_db v) k" if "get_candidate k (sw_store v) = Some c" for k c
    using inv that at unfolding book_ok_def by metis
  show ?thesis
  proof (cases auctionId)
    case None
    then have "sw_store v' = sw_store v" "sw_db v' = sw_db v"
      using r by (auto simp: solveClose_def Let_def selectAll_quote_db)
    then show ?thesis using ok old at by (intro replica_stepI) auto
  next
    case (Some n)
    let ?cs = "snapshotForAuction n (sw_store v)"
    let ?s = "selectAll cfg env now a (Some n) gasPrice ?cs (sw_db v)"
    let ?flush = "filter (\<lambda>c. c_id c \<notin> set (sl_ids ?s)) ?cs"
    let ?d = "fold (flushCandidate env now (sl_uids ?s)) ?flush (sl_db ?s)"
    have sel: "selection_ok now ?cs (sw_db v) ?s" using snapshot_inj [OF ok] by (rule selectAll_ok)
    have v': "sw_db v' = ?d"
      "sw_store v' = removeAll_candidates (map c_id ?flush) (removeAll_candidates (sl_ids ?s) (sw_store v))"
      using r Some by (auto simp: solveClose_def closeAuction_def Let_def split: if_splits)
    have sub: "set (sl_ids ?s) \<subseteq> c_id ` set ?cs" using sel by (fastforce simp: selection_ok_def)
    have gone: "get_candidate k (sw_store v') = (if k \<in> c_id ` set ?cs then None else get_candidate k (sw_store v))" for k
      using sub by (auto simp: v'(2) get_removeAll)
    have rows: "no_row (sw_db v') k = no_row (sw_db v) k" if "k \<notin> c_id ` set ?cs" for k
    proof -
      have "k \<notin> set (sl_ids ?s)" "k \<notin> c_id ` set ?flush" using sub that by auto
      then show ?thesis using sel flush_frame [of env now "sl_uids ?s" ?flush "sl_db ?s" k]
        by (simp add: v'(1) selection_ok_def no_row_def)
    qed
    show ?thesis
    proof (rule replica_stepI)
      show "store_ok (sw_store v')" using ok by (simp add: v'(2) store_ok_removeAll)
      show "proposalSeq (srv_db w) \<le> proposalSeq (sw_db v')" using flush_frame selection_seq at by (simp add: v'(1))
    next
      fix k c assume "get_candidate k (sw_store v') = Some c"
      then have "k \<notin> c_id ` set ?cs" "get_candidate k (sw_store v) = Some c" by (auto simp: gone split: if_splits)
      then show "get_candidate k (srv_stores w i) = Some c \<and> no_row (sw_db v') k \<or>
          proposalSeq (srv_db w) \<le> k \<and> k < proposalSeq (sw_db v') \<and> no_row (sw_db v') k \<and> candidate_amounts_ok c"
        using old rows at by metis
    next
      fix k assume "no_row (srv_db w) k" "\<not> no_row (sw_db v') k"
      then have "k \<in> c_id ` set ?cs" using rows at by metis
      then obtain c where "c \<in> set ?cs" "c_id c = k" by auto
      then have "get_candidate k (sw_store v) \<noteq> None" using snapshot_iff [OF ok] by auto
      then show "get_candidate k (srv_stores w i) \<noteq> None \<or> proposalSeq (srv_db w) \<le> k \<and> k < proposalSeq (sw_db v')"
        using at by simp
    qed
  qed
qed

lemma other_keeps_book: "book_ok w \<Longrightarrow> adds_no_id (srv_db w) d' \<Longrightarrow> book_ok (w\<lparr>srv_db := d'\<rparr>)"
  by (simp add: book_ok_def adds_no_id_def no_row_def)

lemma service_step_cases:
  assumes step: "service_step w w'" and inv: "book_ok w"
  obtains i d' cs' where "replica_step w i d' cs'" "w' = w\<lparr>srv_db := d', srv_stores := (srv_stores w)(i := cs')\<rparr>"
  | d' where "adds_no_id (srv_db w) d'" "w' = w\<lparr>srv_db := d'\<rparr>"
  using step
proof cases
  case (step_post cfg env body s r s' i)
  then show thesis using that(1) post_replica_step [OF inv step_post(2-5)] by blast
next
  case (step_post_stub cfg env body s r s' i)
  then show thesis using that(1) post_replica_step [OF inv step_post_stub(2-5)] by blast
next
  case (step_delete cfg env n header s u s' i)
  then show thesis using that(1) delete_replica_step [OF inv step_delete(2-4)] by blast
next
  case (step_delete_stub cfg env n header s u s' i)
  then show thesis using that(1) delete_replica_step [OF inv step_delete_stub(2-4)] by blast
next
  case (step_close scfg senv now a auctionId gasPrice v resp v' i)
  then show thesis using that(1) close_replica_step [OF inv step_close(2-4)] by blast
next
  case (step_other d')
  then show thesis using that(2) by blast
qed

interpretation book: invariant_machine service_init service_step book_ok
proof unfold_locales
  show "book_ok w" if "service_init w" for w
    using that by (simp add: service_init_def book_ok_def no_row_def get_candidate_def)
next
  show "book_ok w'" if inv: "book_ok w" and step: "service_step w w'" for w w'
    using service_step_cases [OF step inv] inv book_step other_keeps_book by metis
qed


section \<open>The life of one proposal\<close>

text \<open>
  What the service promises of an id, without its tables and stores: it is unused, then a candidate of one
  replica, then recorded; it may be dropped from any of them (a cancelled candidate whose log write failed,
  a row the retention job deleted) and never comes back.
\<close>

datatype phase = Unused | Held nat | Recorded | Dropped

inductive phase_step :: "phase \<Rightarrow> phase \<Rightarrow> bool" where
  phase_stay: "phase_step p p"
| phase_hold: "phase_step Unused (Held i)"
| phase_record: "p = Unused \<or> p = Held i \<Longrightarrow> phase_step p Recorded"
| phase_drop: "phase_step p Dropped"

inductive_simps phase_step_iff: "phase_step p q"

definition phase_of :: "service \<Rightarrow> int \<Rightarrow> phase \<Rightarrow> bool" where
  "phase_of w k p \<longleftrightarrow>
     (case p of
        Unused \<Rightarrow> proposalSeq (srv_db w) \<le> k
      | Held i \<Rightarrow> get_candidate k (srv_stores w i) \<noteq> None
      | Recorded \<Rightarrow> k < proposalSeq (srv_db w) \<and> \<not> no_row (srv_db w) k
      | Dropped \<Rightarrow> k < proposalSeq (srv_db w) \<and> no_row (srv_db w) k \<and> (\<forall>i. get_candidate k (srv_stores w i) = None))"

lemma phase_exists: "\<exists>p. phase_of w k p"
proof (cases "\<exists>i. get_candidate k (srv_stores w i) \<noteq> None")
  case True
  then obtain i where "phase_of w k (Held i)" by (auto simp: phase_of_def)
  then show ?thesis by blast
next
  case False
  then have "phase_of w k (if proposalSeq (srv_db w) \<le> k then Unused else if no_row (srv_db w) k then Dropped else Recorded)"
    by (auto simp: phase_of_def)
  then show ?thesis by blast
qed

lemma phase_unique:
  assumes inv: "book_ok w" and p: "phase_of w k p" and q: "phase_of w k q"
  shows "p = q"
proof -
  have held: "k < proposalSeq (srv_db w) \<and> no_row (srv_db w) k \<and> (j = i \<or> get_candidate k (srv_stores w j) = None)"
    if "get_candidate k (srv_stores w i) = Some c" for i j c using inv that unfolding book_ok_def by metis
  show ?thesis using p q held by (cases p; cases q) (fastforce simp: phase_of_def)+
qed

lemma phase_refines:
  assumes inv: "book_ok w" and step: "service_step w w'" and p: "phase_of w k p" and q: "phase_of w' k q"
  shows "phase_step p q"
  using service_step_cases [OF step inv]
proof cases
  case (1 i d' cs')
  have held: "k < proposalSeq (srv_db w) \<and> no_row (srv_db w) k \<and> (\<forall>j. j \<noteq> l \<longrightarrow> get_candidate k (srv_stores w j) = None)"
    if "get_candidate k (srv_stores w l) = Some c" for l c using inv that unfolding book_ok_def by blast
  note rs = 1(1) [unfolded replica_step_def]
  have seq: "proposalSeq (srv_db w) \<le> proposalSeq d'" using rs by blast
  show ?thesis
  proof (cases q)
    case Unused
    then have "phase_of w k Unused" using q seq by (simp add: phase_of_def 1(2))
    then show ?thesis using phase_unique [OF inv p] Unused by (simp add: phase_stay)
  next
    case (Held j)
    show ?thesis
    proof (cases "phase_of w k (Held j)")
      case True
      then show ?thesis using phase_unique [OF inv p True] Held by (simp add: phase_stay)
    next
      case False
      then have "j = i" "get_candidate k cs' \<noteq> None" using q Held by (auto simp: phase_of_def 1(2) split: if_splits)
      moreover from this have "get_candidate k (srv_stores w i) = None" using False by (simp add: phase_of_def)
      ultimately have "proposalSeq (srv_db w) \<le> k" using rs by fastforce
      then have "p = Unused" using phase_unique [OF inv p, of Unused] by (simp add: phase_of_def)
      then show ?thesis using Held by (simp add: phase_hold)
    qed
  next
    case Recorded
    have row: "\<not> no_row d' k" using q Recorded by (simp add: phase_of_def 1(2))
    consider "no_row (srv_db w) k" | "\<not> no_row (srv_db w) k" by blast
    then show ?thesis
    proof cases
      case 1
      then have "get_candidate k (srv_stores w i) \<noteq> None \<or> proposalSeq (srv_db w) \<le> k" using rs row by blast
      then have "phase_of w k (Held i) \<or> phase_of w k Unused" by (simp add: phase_of_def)
      then show ?thesis using phase_unique [OF inv p] Recorded by (auto intro: phase_record)
    next
      case 2
      have "k < proposalSeq (srv_db w)" using inv 2 unfolding book_ok_def by (meson not_le)
      then have "phase_of w k Recorded" using 2 by (simp add: phase_of_def)
      then show ?thesis using phase_unique [OF inv p] Recorded by (simp add: phase_stay)
    qed
  qed (simp add: phase_drop)
next
  case (2 d')
  have same: "phase_of w k q" if "q \<noteq> Dropped"
  proof (cases q)
    case Recorded
    then show ?thesis using q 2 by (auto simp: phase_of_def adds_no_id_def no_row_def)
  qed (use q 2 that in \<open>auto simp: phase_of_def adds_no_id_def\<close>)
  show ?thesis
  proof (cases "q = Dropped")
    case False
    then show ?thesis using phase_unique [OF inv p same] by (simp add: phase_stay)
  qed (simp add: phase_drop)
qed


section \<open>A request served\<close>

definition exampleService :: service where
  "exampleService = \<lparr>srv_db = emptyDb, srv_stores = \<lambda>_. []\<rparr>"

lemma exampleService_reachable: "reachable service_init service_step exampleService"
  by (rule reachable.intros) (simp add: service_init_def exampleService_def liveRow_def logRow_def emptyDb_def)

text \<open>Replica 0 serves a create request that is accepted.\<close>

definition exampleServed :: service where
  "exampleServed = (let s = snd (postProposal exampleRoutes exampleRequestEnv (Some exampleRequest) exampleIngestion) in
     exampleService\<lparr>srv_db := ig_db s, srv_stores := (srv_stores exampleService)(0 := ig_store s)\<rparr>)"

lemma example_rpc: "rpc_ok (rc_validator exampleRoutes) (re_validation exampleRequestEnv)"
proof -
  have "BigInt ''0x10'' = Some 16" by code_simp
  then have gas: "BigInt (ca_gasUsed exampleCall) = Some 16" by (simp add: exampleCall_def)
  show ?thesis by (auto simp: rpc_ok_def exampleRoutes_def exampleRequestEnv_def exampleReads_def exampleConfig_def gas)
qed

lemma exampleServed_step: "service_step exampleService exampleServed"
proof -
  have "postProposal exampleRoutes exampleRequestEnv (Some exampleRequest) exampleIngestion =
      (fst (postProposal exampleRoutes exampleRequestEnv (Some exampleRequest) exampleIngestion),
       snd (postProposal exampleRoutes exampleRequestEnv (Some exampleRequest) exampleIngestion))" by simp
  then show ?thesis unfolding exampleServed_def Let_def
    by (rule step_post_stub) (simp_all add: exampleIngestion_def exampleService_def example_rpc)
qed

lemma exampleServed_reachable: "reachable service_init service_step exampleServed"
  using exampleService_reachable exampleServed_step by (rule reach_step)

lemma exampleServed_holds: "\<exists>c. get_candidate 1 (srv_stores exampleServed 0) = Some c \<and> c_id c = 1"
proof -
  let ?run = "postProposal exampleRoutes exampleRequestEnv (Some exampleRequest) exampleIngestion"
  show ?thesis
  proof (cases rule: postProposal_cases [of exampleRoutes exampleRequestEnv "Some exampleRequest" exampleIngestion])
    case (1 e g)
    then show ?thesis using example_created by simp
  next
    case (2 p a st g)
    have run: "?run = (Inr 1, snd ?run)" using example_created by (metis prod.collapse)
    from afterVerdict_InrD [OF trans [OF 2(2) [symmetric] run]] obtain sim where
      "ig_store (snd ?run) = add_candidate (candidateOf (re_now exampleRequestEnv) 1 (as_auctionId st) a p sim) []"
      by (auto simp: exampleIngestion_def emptyDb_def)
    then have "get_candidate 1 (ig_store (snd ?run)) = Some (candidateOf (re_now exampleRequestEnv) 1 (as_auctionId st) a p sim)"
      by (simp add: get_add candidateOf_def)
    then show ?thesis by (simp add: exampleServed_def Let_def candidateOf_def)
  qed
qed



end
