(* ===== verification/Outcomes.thy ===== *)
theory Outcomes
  imports Ingestion
begin

text \<open>
  How a submitted proposal learns its fate: \<open>POST /notify\<close> (\<open>infra/api/notify.ts\<close>), which records the
  driver's evidence and then moves the proposals it names, the outcome worker
  (\<open>infra/jobs/outcome-worker.ts\<close>), which declares proposals lost that stayed silent too long, and the
  retention worker (\<open>infra/jobs/retention.ts\<close>). Between the statements of one request other requests
  may write; they are parameters of the request's environment. Log lines are left out.
\<close>

section \<open>Driver notifications\<close>

definition txHashString :: "string \<Rightarrow> bool" where
  "txHashString s \<longleftrightarrow> has_0x s \<and> length (drop 2 s) = 64 \<and> list_all is_hex_digit (drop 2 s)"

definition notificationSchema :: "notification \<Rightarrow> bool" where
  "notificationSchema n \<longleftrightarrow> list_all (\<lambda>i. 0 \<le> i) (nt_solutionIds n) \<and> optional txHashString (nt_transaction n)"

definition outcomeOf :: "notification \<Rightarrow> settlement_outcome option" where
  "outcomeOf n =
     (if nt_kind n = ''settlementStarted'' then Some Started
      else if nt_kind n = ''success'' then
        (if falsy (nt_transaction n) then None else Some (Succeeded (the (nt_transaction n))))
      else if nt_kind n = ''revert'' then
        (if falsy (nt_transaction n) then None else Some (Reverted (the (nt_transaction n))))
      else if nt_kind n \<in> {''cancelled'', ''expired'', ''fail''} then Some Abandoned
      else None)"

text \<open>\<open>new Set(ids)\<close> in insertion order.\<close>

definition parseSolutionIds :: "notification \<Rightarrow> int list" where
  "parseSolutionIds n = fold js_add (nt_solutionIds n) []"

definition driverNotified :: "int \<Rightarrow> proposal \<Rightarrow> string \<Rightarrow> audit_event" where
  "driverNotified now p kind = (now, DriverNotified (p_id p) (p_subSolver p) (p_orderUid p) kind)"

text \<open>
  What a request meets: what others write before its evidence and before its write for a proposal, and
  the proposals whose write the database refuses.
\<close>

record notify_env =
  ne_now :: int
  ne_beforeRecord :: "db \<Rightarrow> db"
  ne_beforeWrite :: "int \<Rightarrow> db \<Rightarrow> db"
  ne_writeFails :: "int \<Rightarrow> bool"

record notify_world =
  nw_db :: db
  nw_audit :: "audit_event list"

text \<open>The loop body; \<open>False\<close> is an exception, which ends the request.\<close>

definition settles :: "settlement_outcome \<Rightarrow> bool" where
  "settles oc \<longleftrightarrow> isSucceeded oc \<or> isReverted oc"

definition notifyStep :: "notify_env \<Rightarrow> string \<Rightarrow> settlement_outcome \<Rightarrow> proposal \<Rightarrow> notify_world \<Rightarrow> bool \<times> notify_world" where
  "notifyStep env kind oc p w =
     (let d = ne_beforeWrite env (p_id p) (nw_db w) in
      if ne_writeFails env (p_id p) then (False, w\<lparr>nw_db := d\<rparr>)
      else if p_status p = Lost \<and> settles oc then
        (case applyLateLostCorrection (ne_now env) (p_id p) oc d of
           (Inl _, d') \<Rightarrow> (True, w\<lparr>nw_db := d'\<rparr>)
         | (Inr e, d') \<Rightarrow> (True, w\<lparr>nw_db := d', nw_audit := nw_audit w @ [e]\<rparr>))
      else
        (case applySettlementOutcome (ne_now env) p oc d of
           (Inl (NotFound _), d') \<Rightarrow>
             if settles oc then
               (case applyLateLostCorrection (ne_now env) (p_id p) oc d' of
                  (Inl _, d'') \<Rightarrow> (True, w\<lparr>nw_db := d''\<rparr>)
                | (Inr e, d'') \<Rightarrow> (True, w\<lparr>nw_db := d'', nw_audit := nw_audit w @ [e]\<rparr>))
             else (True, w\<lparr>nw_db := d'\<rparr>)
         | (Inl _, d') \<Rightarrow> (True, w\<lparr>nw_db := d'\<rparr>)
         | (Inr (Some e, cancelled), d') \<Rightarrow> (True, w\<lparr>nw_db := d', nw_audit := nw_audit w @ e # cancelled\<rparr>)
         | (Inr (None, _), d') \<Rightarrow>
             (True, w\<lparr>nw_db := d', nw_audit := nw_audit w @ [driverNotified (ne_now env) p kind]\<rparr>)))"

text \<open>\<open>POST /notify\<close>; \<open>None\<close> is a body that is not JSON or not of the schema's shape.\<close>

definition namedProposals :: "notification \<Rightarrow> db \<Rightarrow> proposal list" where
  "namedProposals n d = List.map_filter (\<lambda>i. getIncludingLog i d) (parseSolutionIds n)"

definition postNotify :: "(string \<Rightarrow> string) \<Rightarrow> notify_env \<Rightarrow> notification option \<Rightarrow> notify_world \<Rightarrow>
    unit outcome \<times> notify_world" where
  "postNotify keccak env body w =
     (case body of
        None \<Rightarrow> (fail K_BadRequest, w)
      | Some n \<Rightarrow>
          if \<not> notificationSchema n then (fail K_BadRequest, w)
          else if namedProposals n (nw_db w) = [] then (Inr (), w)
          else
            (let w1 = w\<lparr>nw_db := ne_beforeRecord env (nw_db w)\<rparr> in
             (case recordSettlementNotification keccak (ne_now env) n (nw_db w1) of
                None \<Rightarrow> (throws, w1)
              | Some (False, d') \<Rightarrow> (Inr (), w1\<lparr>nw_db := d'\<rparr>)
              | Some (True, d') \<Rightarrow>
                  (case outcomeOf n of
                     None \<Rightarrow> (Inr (), w1\<lparr>nw_db := d', nw_audit := nw_audit w1 @
                       map (\<lambda>p. driverNotified (ne_now env) p (nt_kind n)) (namedProposals n (nw_db w))\<rparr>)
                   | Some oc \<Rightarrow>
                       (case for_each (notifyStep env (nt_kind n) oc) (namedProposals n (nw_db w)) (w1\<lparr>nw_db := d'\<rparr>) of
                          (False, w2) \<Rightarrow> (throws, w2)
                        | (True, w2) \<Rightarrow> (Inr (), w2))))))"

section \<open>The outcome worker\<close>

definition STALENESS_WINDOW_MINS :: int where
  "STALENESS_WINDOW_MINS = 2"

text \<open>
  What a tick meets: its reads (\<open>None\<close> when the read throws; \<open>oc_logs\<close> answers a block range with the
  order uid of each \<open>Trade\<close> event), and per proposal what others write before and whether the write fails.
\<close>

record outcome_env =
  oc_now :: int
  oc_staleFails :: bool
  oc_blockNumber :: "int option"
  oc_logs :: "int \<Rightarrow> int \<Rightarrow> string option list option"
  oc_blockDurationMs :: int
  oc_beforeWrite :: "int \<Rightarrow> db \<Rightarrow> db"
  oc_writeFails :: "int \<Rightarrow> bool"

definition fetchTradedOrderUids :: "outcome_env \<Rightarrow> int \<Rightarrow> int \<Rightarrow> string list option" where
  "fetchTradedOrderUids env fromBlock toBlock =
     map_option (\<lambda>logs. fold (\<lambda>u s. if falsy u then s else js_add (lower (the u)) s) logs []) (oc_logs env fromBlock toBlock)"

definition lostReason :: "string list \<Rightarrow> string \<Rightarrow> rejection_reason" where
  "lostReason traded orderUid = (if lower orderUid \<in> set traded then SolverOutbid else UnknownOutput)"

text \<open>The loop body, with its own \<open>try\<close>.\<close>

definition lostStep :: "outcome_env \<Rightarrow> string list \<Rightarrow> int \<times> string \<times> string \<Rightarrow> notify_world \<Rightarrow> notify_world" where
  "lostStep env traded r w =
     (case r of (i, subSolver, orderUid) \<Rightarrow>
        let d = oc_beforeWrite env i (nw_db w) in
        if oc_writeFails env i then w\<lparr>nw_db := d\<rparr>
        else (case applyLostOutcome (oc_now env) i (lostReason traded orderUid) d of
            (LostOk e, d') \<Rightarrow> w\<lparr>nw_db := d', nw_audit := nw_audit w @ [e]\<rparr>
          | (_, d') \<Rightarrow> w\<lparr>nw_db := d'\<rparr>))"

definition runOutcomeCheck :: "outcome_env \<Rightarrow> notify_world \<Rightarrow> notify_world" where
  "runOutcomeCheck env w =
     (let windowMs = STALENESS_WINDOW_MINS * 60 * 1000 in
      if oc_staleFails env then w
      else let stale = fetchStaleSubmitted (oc_now env) windowMs (nw_db w) in
        if stale = [] then w
        else (case oc_blockNumber env of
            None \<Rightarrow> w
          | Some currentBlock \<Rightarrow>
              let windowBlocks = ceilDiv windowMs (oc_blockDurationMs env);
                  fromBlock = (if currentBlock > windowBlocks then currentBlock - windowBlocks else 0) in
              (case fetchTradedOrderUids env fromBlock currentBlock of
                 None \<Rightarrow> w
               | Some traded \<Rightarrow> fold (lostStep env traded) stale w)))"

section \<open>The retention worker\<close>

definition retentionTick :: "int \<Rightarrow> int \<Rightarrow> bool \<Rightarrow> db \<Rightarrow> db" where
  "retentionTick now logRedactionAfterSecs fails d =
     (if fails then d else snd (redactOldLogEntries now logRedactionAfterSecs d))"

section \<open>What one outcome does\<close>

text \<open>The lifecycle columns of the log after an outcome was applied to a live row.\<close>

definition cancelRow :: "int \<Rightarrow> proposal_row \<Rightarrow> proposal_row" where
  "cancelRow now r = r\<lparr>r_status := Cancelled, r_statusChangedAt := now\<rparr>"

definition isCancelled :: "settlement_outcome \<Rightarrow> proposal_row \<Rightarrow> proposal_row \<Rightarrow> bool" where
  "isCancelled oc locked r \<longleftrightarrow> isSucceeded oc \<and> isSibling locked (r_id locked) r"

lemma outcome_rows:
  assumes keys: "keys_ok d"
  obtains e where "applySettlementOutcome now p oc d = (Inl (NotFound e), d)" "liveRow d (p_id p) = None"
  | locked where "applySettlementOutcome now p oc d = (Inr (None, []), d)" "liveRow d (p_id p) = Some locked"
      "outcomeTarget (r_status locked) oc = None"
  | locked to h e cs d' where "applySettlementOutcome now p oc d = (Inr (Some e, cs), d')"
      "liveRow d (p_id p) = Some locked" "r_status locked = Submitted" "outcomeTarget Submitted oc = Some (to, h)"
      "keys_ok d'"
      "\<And>j. liveRow d' j = (case liveRow d j of None \<Rightarrow> None
         | Some r \<Rightarrow> if j = p_id p then (if to = Lost \<or> to = SettleFailed then None else Some (outcomeSet now p oc to h locked))
             else if isCancelled oc locked r then Some (cancelRow now r) else Some r)"
      "\<And>j. logRow d' j = (case liveRow d j of None \<Rightarrow> logRow d j
         | Some r \<Rightarrow> if j = p_id p then map_option (sync_cols (outcomeSet now p oc to h locked)) (logRow d j)
             else if isCancelled oc locked r then map_option (sync_cols (cancelRow now r)) (logRow d j) else logRow d j)"
proof (cases "liveRow d (p_id p)")
  case None
  then show thesis using that(1) by (simp add: applySettlementOutcome_def)
next
  case (Some locked)
  show thesis
  proof (cases "outcomeTarget (r_status locked) oc")
    case None
    then show thesis using that(2) Some by (simp add: applySettlementOutcome_def)
  next
    case target: (Some th)
    obtain to h where th: "th = (to, h)" by (cases th)
    have sub: "r_status locked = Submitted" using outcomeTarget_SomeD [OF target [unfolded th]] by blast
    let ?f = "outcomeSet now p oc to h"
    define d1 where "d1 = updateProposals (\<lambda>r. r_id r = p_id p) ?f d"
    define cs where "cs = (if isSucceeded oc then filter (isSibling locked (p_id p)) (proposals d1) else [])"
    define d2 where "d2 = (if cs = [] then d1 else updateProposals (\<lambda>r. r_id r \<in> r_id ` set cs) (cancelRow now) d1)"
    define d3 where "d3 = (if to = Lost \<or> to = SettleFailed then deleteProposals (\<lambda>r. r_id r = p_id p) d2 else d2)"
    have res: "\<exists>e evs. applySettlementOutcome now p oc d = (Inr (Some e, evs), d3)"
      using Some target th by (simp add: applySettlementOutcome_def Let_def d1_def d2_def d3_def cs_def cancelRow_def [abs_def])
    have f_id: "\<And>r. r_id (?f r) = r_id r" and g_id: "\<And>r. r_id (cancelRow now r) = r_id r"
      by (simp_all add: outcomeSet_def cancelRow_def)
    have lid: "r_id locked = p_id p" using liveRow_id [OF Some] by simp
    have k1: "keys_ok d1" unfolding d1_def by (rule keys_ok_update [OF keys f_id])
    have k2: "keys_ok d2" using k1 keys_ok_update [OF k1 g_id] by (simp add: d2_def)
    have k3: "keys_ok d3" using k2 keys_ok_delete by (simp add: d3_def)
    have live1: "liveRow d1 j = map_option (\<lambda>r. if j = p_id p then ?f r else r) (liveRow d j)" for j
      unfolding d1_def liveRow_update [of ?f, OF f_id] by (cases "liveRow d j") (auto dest: liveRow_id)
    have hit: "r_id r \<in> r_id ` set cs \<longleftrightarrow> j \<noteq> p_id p \<and> isCancelled oc locked r"
      if r: "liveRow d1 j = Some r" for j r
    proof -
      have j: "r_id r = j" "r \<in> set (proposals d1)" using liveRow_id [OF r] by auto
      have "r_id r \<in> r_id ` set cs \<longleftrightarrow> r \<in> set cs"
      proof
        assume "r_id r \<in> r_id ` set cs"
        then obtain x where "x \<in> set cs" "r_id x = r_id r" by auto
        moreover from this have "x \<in> set (proposals d1)" by (auto simp: cs_def split: if_splits)
        ultimately show "r \<in> set cs" using liveRow_in [OF k1, of x] r j by simp
      qed simp
      then show ?thesis using j lid by (auto simp: cs_def isCancelled_def isSibling_def split: if_splits)
    qed
    have live2: "liveRow d2 j = map_option (\<lambda>r. if j \<noteq> p_id p \<and> isCancelled oc locked r then cancelRow now r else r) (liveRow d1 j)" for j
    proof (cases "liveRow d1 j")
      case (Some r)
      then show ?thesis using hit [OF Some] by (auto simp: d2_def liveRow_update g_id)
    qed (simp add: d2_def liveRow_update g_id)
    have log1: "logRow d1 j = (case liveRow d j of None \<Rightarrow> logRow d j
        | Some r \<Rightarrow> if j = p_id p then map_option (sync_cols (?f r)) (logRow d j) else logRow d j)" for j
      unfolding d1_def logRow_update [OF keys f_id] by (cases "liveRow d j") (auto dest: liveRow_id)
    have log2: "logRow d2 j = (case liveRow d1 j of None \<Rightarrow> logRow d1 j
        | Some r \<Rightarrow> if j \<noteq> p_id p \<and> isCancelled oc locked r then map_option (sync_cols (cancelRow now r)) (logRow d1 j) else logRow d1 j)" for j
    proof (cases "liveRow d1 j")
      case (Some r)
      then show ?thesis using hit [OF Some] by (auto simp: d2_def logRow_update [OF k1 g_id])
    qed (simp add: d2_def logRow_update [OF k1 g_id])
    have live3: "liveRow d3 j = (case liveRow d j of None \<Rightarrow> None
         | Some r \<Rightarrow> if j = p_id p then (if to = Lost \<or> to = SettleFailed then None else Some (?f locked))
             else if isCancelled oc locked r then Some (cancelRow now r) else Some r)" for j
    proof (cases "liveRow d j")
      case None
      then show ?thesis by (simp add: d3_def liveRow_delete [OF k2] live2 live1)
    next
      case l: (Some r)
      have rid: "r_id r = j" using liveRow_id [OF l] by simp
      show ?thesis
      proof (cases "j = p_id p")
        case True
        then show ?thesis using Some lid f_id by (simp add: d3_def liveRow_delete [OF k2] live2 live1)
      next
        case False
        then show ?thesis using rid by (simp add: d3_def liveRow_delete [OF k2] live2 live1 g_id l)
      qed
    qed
    have log3: "logRow d3 j = (case liveRow d j of None \<Rightarrow> logRow d j
         | Some r \<Rightarrow> if j = p_id p then map_option (sync_cols (?f locked)) (logRow d j)
             else if isCancelled oc locked r then map_option (sync_cols (cancelRow now r)) (logRow d j) else logRow d j)" for j
      using Some by (cases "liveRow d j") (auto simp: d3_def log2 log1 live1)
    from res obtain e evs where "applySettlementOutcome now p oc d = (Inr (Some e, evs), d3)" by blast
    then show thesis using that(3) [OF _ Some sub _ k3 live3 log3] target th sub by simp
  qed
qed

section \<open>Evidence and the rows it moves\<close>

definition same_order :: "db \<Rightarrow> int \<Rightarrow> int \<Rightarrow> bool" where
  "same_order d i j \<longleftrightarrow> (\<exists>r s. liveRow d i = Some r \<and> liveRow d j = Some s \<and>
     r_subSolver r = r_subSolver s \<and> r_orderUid r = r_orderUid s)"

definition evidence_move :: "db \<Rightarrow> int set \<Rightarrow> settlement_outcome \<Rightarrow> int \<Rightarrow> proposal_row \<Rightarrow> proposal_row \<Rightarrow> bool" where
  "evidence_move d S oc i l l' \<longleftrightarrow>
     (case oc of
        Started \<Rightarrow> False
      | Succeeded h \<Rightarrow>
          i \<in> S \<and> r_status l \<in> {Submitted, Lost} \<and> r_status l' = Settled \<and> r_settlementTxHash l' = Some (lower h) \<or>
          r_status l = Submitted \<and> r_status l' = Cancelled \<and> (\<exists>j \<in> S. j \<noteq> i \<and> same_order d i j)
      | Reverted h \<Rightarrow>
          i \<in> S \<and> r_status l \<in> {Submitted, Lost} \<and> r_status l' = SettleFailed \<and> r_settlementTxHash l' = Some (lower h)
      | Abandoned \<Rightarrow> i \<in> S \<and> r_status l = Submitted \<and> r_status l' = Lost)"

definition same_life :: "proposal_row \<Rightarrow> proposal_row \<Rightarrow> bool" where
  "same_life l l' \<longleftrightarrow> r_status l' = r_status l \<and> r_settlementTxHash l' = r_settlementTxHash l"

definition evidence_run :: "int set \<Rightarrow> settlement_outcome \<Rightarrow> db \<Rightarrow> db \<Rightarrow> bool" where
  "evidence_run S oc d d' \<longleftrightarrow>
     (\<forall>i l. logRow d i = Some l \<longrightarrow> (\<exists>l'. logRow d' i = Some l' \<and> (same_life l l' \<or> evidence_move d S oc i l l'))) \<and>
     (\<forall>i r. liveRow d' i = Some r \<longrightarrow> (\<exists>r0. liveRow d i = Some r0 \<and> r_subSolver r = r_subSolver r0 \<and> r_orderUid r = r_orderUid r0)) \<and>
     (\<forall>i. logRow d i = None \<longrightarrow> logRow d' i = None)"

lemma evidence_run_refl [simp]: "evidence_run S oc d d"
  by (auto simp: evidence_run_def same_life_def)

lemma evidence_run_tables:
  "proposals d' = proposals d \<Longrightarrow> proposalsLog d' = proposalsLog d \<Longrightarrow> evidence_run S oc d d'"
  by (auto simp: evidence_run_def same_life_def liveRow_def logRow_def)

lemma evidence_run_trans:
  assumes 1: "evidence_run S oc d d1" and 2: "evidence_run T oc d1 d2"
  shows "evidence_run (S \<union> T) oc d d2"
proof -
  have live: "\<exists>r0. liveRow d i = Some r0 \<and> r_subSolver r = r_subSolver r0 \<and> r_orderUid r = r_orderUid r0"
    if "liveRow d1 i = Some r" for i r using 1 that unfolding evidence_run_def by blast
  have earlier: "same_order d i j" if "same_order d1 i j" for i j
    using that live unfolding same_order_def by metis
  have "\<exists>l2. logRow d2 i = Some l2 \<and> (same_life l l2 \<or> evidence_move d (S \<union> T) oc i l l2)" if l: "logRow d i = Some l" for i l
  proof -
    obtain l1 where l1: "logRow d1 i = Some l1" "same_life l l1 \<or> evidence_move d S oc i l l1"
      using 1 l unfolding evidence_run_def by blast
    obtain l2 where l2: "logRow d2 i = Some l2" "same_life l1 l2 \<or> evidence_move d1 T oc i l1 l2"
      using 2 l1(1) unfolding evidence_run_def by blast
    have "same_life l l2 \<or> evidence_move d (S \<union> T) oc i l l2"
      using l1(2) l2(2) earlier by (cases oc) (auto simp: same_life_def evidence_move_def)
    then show ?thesis using l2(1) by blast
  qed
  moreover have "\<exists>r0. liveRow d i = Some r0 \<and> r_subSolver r = r_subSolver r0 \<and> r_orderUid r = r_orderUid r0"
    if "liveRow d2 i = Some r" for i r using 2 that live unfolding evidence_run_def by metis
  moreover have "logRow d2 i = None" if "logRow d i = None" for i using 1 2 that unfolding evidence_run_def by blast
  ultimately show ?thesis unfolding evidence_run_def by blast
qed

lemma outcome_evidence:
  assumes inv: "store_inv d" and hash: "hash_ok oc"
  shows "evidence_run {p_id p} oc d (snd (applySettlementOutcome now p oc d))"
proof -
  have mid: "store_mid d" and keys: "keys_ok d" using inv store_midD(1) by (auto simp: store_inv_def)
  show ?thesis
  proof (cases rule: outcome_rows [OF keys, of now p oc])
    case (3 locked to h e cs d')
    have locked: "logRow d i = Some l \<Longrightarrow> liveRow d i = Some r \<Longrightarrow> mirrors l r" for i l r
      using store_midD(2) [OF mid] by fastforce
    have lid: "r_id locked = p_id p" using liveRow_id [OF 3(2)] by simp
    have "\<exists>l'. logRow d' i = Some l' \<and> (same_life l l' \<or> evidence_move d {p_id p} oc i l l')" if l: "logRow d i = Some l" for i l
    proof (cases "liveRow d i")
      case None
      then show ?thesis using l 3(7) [of i] by (simp add: same_life_def)
    next
      case (Some r)
      have m: "r_status l = r_status r" "r_settlementTxHash l = r_settlementTxHash r"
        using locked [OF l Some] by (simp_all add: mirrors_def)
      show ?thesis
      proof (cases "i = p_id p")
        case True
        then have "r = locked" using Some 3(2) by simp
        then show ?thesis using l Some m 3(3,4) 3(7) [of i] True hash
          by (cases oc) (auto simp: evidence_move_def outcomeSet_def falsy_def)
      next
        case False
        show ?thesis
        proof (cases "isCancelled oc locked r")
          case True
          then have sib: "isSucceeded oc" "isSibling locked (p_id p) r" by (simp_all add: isCancelled_def lid)
          then have "same_order d i (p_id p)" using Some 3(2) by (auto simp: same_order_def isSibling_def)
          then show ?thesis using l Some m sib True False 3(7) [of i]
            by (cases oc) (auto simp: evidence_move_def cancelRow_def isSibling_def)
        next
          case F: False
          then show ?thesis using l Some False 3(7) [of i] by (simp add: same_life_def)
        qed
      qed
    qed
    moreover have "\<exists>r0. liveRow d i = Some r0 \<and> r_subSolver r = r_subSolver r0 \<and> r_orderUid r = r_orderUid r0"
      if "liveRow d' i = Some r" for i r
      using that 3(2) 3(6) [of i] by (auto simp: outcomeSet_def cancelRow_def split: option.splits if_splits)
    moreover have "logRow d' i = None" if "logRow d i = None" for i
      using that 3(7) [of i] by (auto split: option.splits if_splits)
    ultimately show ?thesis using 3(1) unfolding evidence_run_def by simp
  qed (simp_all)
qed

lemma late_cases:
  assumes keys: "keys_ok d"
  obtains "applyLateLostCorrection now i oc d = (Inl (StaleTransition i Lost None), d)"
      "\<not> settles oc \<or> (\<forall>l. logRow d i = Some l \<longrightarrow> r_status l \<noteq> Lost)"
  | to h e d' l where "applyLateLostCorrection now i oc d = (Inr e, d')" "lateTarget oc = Some (to, h)"
      "logRow d i = Some l" "r_status l = Lost" "liveRow d' = liveRow d" "\<And>j. logRow d' j = map_option (\<lambda>l. if j = i \<and> r_status l = Lost
         then l\<lparr>r_status := to, r_settlementTxHash := Some (lower h), r_statusChangedAt := now\<rparr> else l) (logRow d j)"
proof (cases "lateTarget oc")
  case None
  then show thesis using that(1) by (cases oc) (simp_all add: applyLateLostCorrection_def settles_def)
next
  case (Some th)
  obtain to h where th: "th = (to, h)" by (cases th)
  let ?P = "\<lambda>l. r_id l = i \<and> r_status l = Lost"
  let ?f = "\<lambda>l. l\<lparr>r_status := to, r_settlementTxHash := Some (lower h), r_statusChangedAt := now\<rparr>"
  show thesis
  proof (cases "find ?P (proposalsLog d)")
    case None
    then have "\<forall>l. logRow d i = Some l \<longrightarrow> r_status l \<noteq> Lost"
      using logRow_id by (fastforce simp: find_None_iff)
    then show thesis using that(1) Some th None by (simp add: applyLateLostCorrection_def Let_def)
  next
    case row: (Some row)
    let ?d' = "d\<lparr>proposalsLog := sql_update ?P ?f (proposalsLog d)\<rparr>"
    have upd: "logRow ?d' j = map_option (\<lambda>l. if ?P l then ?f l else l) (logRow d j)" for j
      by (simp add: logRow_def find_update_key)
    have log: "logRow ?d' j = map_option (\<lambda>l. if j = i \<and> r_status l = Lost then ?f l else l) (logRow d j)" for j
    proof (cases "logRow d j")
      case l: (Some l)
      then have "r_id l = j" using logRow_id by blast
      then show ?thesis using upd [of j] l by simp
    qed (use upd [of j] in simp)
    have live: "liveRow ?d' = liveRow d" by (simp add: liveRow_def fun_eq_iff)
    have "row \<in> set (proposalsLog d)" "r_id row = i" "r_status row = Lost" using find_SomeD [OF row] by auto
    then have lost: "logRow d i = Some row" "r_status row = Lost" using logRow_in [OF keys, of row] by auto
    show thesis using that(2) [OF _ _ lost live log] Some th row by (simp add: applyLateLostCorrection_def Let_def)
  qed
qed

lemma late_evidence:
  assumes keys: "keys_ok d"
  shows "evidence_run {i} oc d (snd (applyLateLostCorrection now i oc d))"
proof (cases rule: late_cases [OF keys, of now i oc])
  case (2 to h e d' l)
  then show ?thesis by (cases oc) (auto simp: evidence_run_def evidence_move_def same_life_def)
qed simp

lemma outcomeOf_hash: "notificationSchema n \<Longrightarrow> outcomeOf n = Some oc \<Longrightarrow> hash_ok oc"
  by (auto simp: outcomeOf_def falsy_def split: if_splits option.splits)

text \<open>Without other writers, one turn of the loop is one outcome or one late correction.\<close>

definition alone :: "notify_env \<Rightarrow> bool" where
  "alone env \<longleftrightarrow> (\<forall>d. ne_beforeRecord env d = d) \<and> (\<forall>i d. ne_beforeWrite env i d = d)"

lemma notifyStep_db:
  assumes "alone env"
  shows "nw_db (snd (notifyStep env kind oc p w)) = nw_db w \<or>
     nw_db (snd (notifyStep env kind oc p w)) = snd (applyLateLostCorrection (ne_now env) (p_id p) oc (nw_db w)) \<or>
     nw_db (snd (notifyStep env kind oc p w)) = snd (applySettlementOutcome (ne_now env) p oc (nw_db w))"
proof -
  have same: "ne_beforeWrite env i d = d" for i d using assms by (simp add: alone_def)
  have notFound: "d' = d" if "applySettlementOutcome (ne_now env) p oc d = (Inl e, d')" for e d d'
    using that by (auto simp: applySettlementOutcome_def Let_def split: option.splits prod.splits)
  obtain r1 d1 where 1: "applyLateLostCorrection (ne_now env) (p_id p) oc (nw_db w) = (r1, d1)" by fastforce
  obtain r2 d2 where 2: "applySettlementOutcome (ne_now env) p oc (nw_db w) = (r2, d2)" by fastforce
  have r2: "d2 = nw_db w" if "r2 = Inl e" for e using notFound 2 that by blast
  show ?thesis
    using 1 2 r2
    by (auto simp: notifyStep_def Let_def same split: sum.split store_error.split option.split)
qed

lemma notifyStep_run:
  assumes inv: "store_inv (nw_db w)" and "alone env" "hash_ok oc"
  shows "store_inv (nw_db (snd (notifyStep env kind oc p w))) \<and>
    evidence_run {p_id p} oc (nw_db w) (nw_db (snd (notifyStep env kind oc p w)))"
proof -
  have mid: "store_mid (nw_db w)" "live_ok (nw_db w)" using inv by (auto simp: store_inv_def)
  show ?thesis
    using notifyStep_db [OF assms(2), of kind oc p w] inv late_moves [OF mid] outcome_moves [OF mid assms(3)]
      late_evidence [OF store_midD(1) [OF mid(1)]] outcome_evidence [OF inv assms(3)] by fastforce
qed

lemma notifyLoop_run:
  assumes inv: "store_inv (nw_db w)" and "alone env" "hash_ok oc"
  shows "store_inv (nw_db (snd (for_each (notifyStep env kind oc) ps w))) \<and>
    evidence_run (p_id ` set ps) oc (nw_db w) (nw_db (snd (for_each (notifyStep env kind oc) ps w)))"
  using inv
proof (induction ps arbitrary: w)
  case (Cons p ps)
  obtain b w1 where st: "notifyStep env kind oc p w = (b, w1)" by fastforce
  have w1: "store_inv (nw_db w1)" "evidence_run {p_id p} oc (nw_db w) (nw_db w1)"
    using notifyStep_run [OF Cons.prems assms(2,3), of kind p] st by auto
  have "evidence_run ({p_id p} \<union> p_id ` set ps) oc (nw_db w) (nw_db (snd (for_each (notifyStep env kind oc) ps w1)))"
    using evidence_run_trans [OF w1(2)] Cons.IH [OF w1(1)] by blast
  moreover have "evidence_run ({p_id p} \<union> p_id ` set ps) oc (nw_db w) (nw_db w1)"
    using evidence_run_trans [OF w1(2) evidence_run_refl] by simp
  ultimately show ?case using st w1(1) Cons.IH [OF w1(1)] by (cases b) simp_all
qed simp

text \<open>Recording evidence does not touch the proposals, and answers yes only to attributed bids.\<close>

lemma record_tables:
  assumes "recordSettlementNotification keccak now n d = Some (b, d')"
  shows "proposals d' = proposals d \<and> proposalsLog d' = proposalsLog d \<and>
    (b \<longrightarrow> (\<exists>auctionId ids. attribution n = Some (auctionId, ids) \<and> attributedBid auctionId ids (bidRows ids d) \<noteq> None))"
proof -
  have upd: "proposals (updateAttempts P f d) = proposals d" "proposalsLog (updateAttempts P f d) = proposalsLog d"
    "proposals (addEvidence e d) = proposals d" "proposalsLog (addEvidence e d) = proposalsLog d"
    "proposals (updateDebits Q g d) = proposals d" "proposalsLog (updateDebits Q g d) = proposalsLog d" for P f e Q g d
    by (simp_all add: updateAttempts_def addEvidence_def updateDebits_def)
  have marks: "proposals (fold (markConflict key n) ms d) = proposals d \<and> proposalsLog (fold (markConflict key n) ms d) = proposalsLog d"
    for key ms d by (induction ms arbitrary: d) (simp_all add: markConflict_def upd)
  have ens: "proposals (snd (ensureAttempt keccak key a ids bid d)) = proposals d \<and>
      proposalsLog (snd (ensureAttempt keccak key a ids bid d)) = proposalsLog d" for key a ids bid
    by (simp add: ensureAttempt_def Let_def split: option.split)
  show ?thesis
  proof (cases "attribution n")
    case (Some x)
    obtain a ids where x: "x = (a, ids)" by (cases x)
    show ?thesis
    proof (cases "attributedBid a ids (bidRows ids d)")
      case None
      then show ?thesis using assms Some x by (simp add: recordSettlementNotification_def)
    next
      case bid: (Some bid)
      show ?thesis
      proof (cases "\<exists>m \<in> set (memberships ids d). Some (m_attemptId m) \<noteq>
          map_option a_id (find (\<lambda>r. a_attemptKey r = attemptKeyOf a ids) (settlementAttempts d))")
        case True
        then show ?thesis using assms Some x bid marks by (auto simp: recordSettlementNotification_def Let_def)
      next
        case False
        then show ?thesis using assms Some x bid ens [of "attemptKeyOf a ids" a ids bid]
          by (auto simp: recordSettlementNotification_def Let_def upd split: prod.splits option.splits if_splits)
      qed
    qed
  qed (use assms in \<open>simp add: recordSettlementNotification_def\<close>)
qed

lemma rowToProposal_id: "rowToProposal r = Some p \<Longrightarrow> p_id p = r_id r \<and> p_status p = r_status r"
  by (auto simp: rowToProposal_def split: bind_splits)

lemma namedProposals_ids: "p_id ` set (namedProposals n d) \<subseteq> set (nt_solutionIds n)"
proof -
  have ids: "set (parseSolutionIds n) = set (nt_solutionIds n)"
  proof -
    have "set (fold js_add xs acc) = set acc \<union> set xs" for xs acc :: "int list" by (induction xs arbitrary: acc) auto
    then show ?thesis by (simp add: parseSolutionIds_def)
  qed
  have "p_id p = i" if "getIncludingLog i d = Some p" for i p
    using that rowToProposal_id liveRow_id logRow_id
    by (fastforce simp: getIncludingLog_def split: if_splits option.splits)
  then show ?thesis by (auto simp: namedProposals_def List.map_filter_def ids)
qed

lemma namedProposals_distinct: "distinct (map p_id (namedProposals n d))"
proof -
  have dist: "distinct (fold js_add xs acc)" if "distinct acc" for xs acc :: "int list"
    using that by (induction xs arbitrary: acc) auto
  have id: "p_id p = i" if "getIncludingLog i d = Some p" for i p
    using that rowToProposal_id liveRow_id logRow_id
    by (fastforce simp: getIncludingLog_def split: if_splits option.splits)
  have "distinct (map p_id (List.map_filter (\<lambda>i. getIncludingLog i d) xs)) \<and>
      p_id ` set (List.map_filter (\<lambda>i. getIncludingLog i d) xs) \<subseteq> set xs" if "distinct xs" for xs
    using that
  proof (induction xs)
    case (Cons i xs)
    then show ?case using id [of i] by (cases "getIncludingLog i d") (auto simp: map_filter_simps)
  qed (simp add: map_filter_simps)
  then show ?thesis using dist unfolding namedProposals_def parseSolutionIds_def by simp
qed

lemma postNotify_cases:
  assumes run: "postNotify keccak env body w = (r, w')" and "alone env"
  obtains "proposals (nw_db w') = proposals (nw_db w)" "proposalsLog (nw_db w') = proposalsLog (nw_db w)"
  | n oc d auctionId ids where "body = Some n" "notificationSchema n" "outcomeOf n = Some oc"
      "attribution n = Some (auctionId, ids)" "attributedBid auctionId ids (bidRows ids (nw_db w)) \<noteq> None"
      "recordSettlementNotification keccak (ne_now env) n (nw_db w) = Some (True, d)"
      "w' = snd (for_each (notifyStep env (nt_kind n) oc) (namedProposals n (nw_db w)) (w\<lparr>nw_db := d\<rparr>))"
proof -
  have same: "ne_beforeRecord env d = d" for d using assms(2) by (simp add: alone_def)
  show thesis
  proof (cases "\<exists>n d oc. body = Some n \<and> notificationSchema n \<and> namedProposals n (nw_db w) \<noteq> [] \<and>
      recordSettlementNotification keccak (ne_now env) n (nw_db w) = Some (True, d) \<and> outcomeOf n = Some oc")
    case False
    then show thesis
      using that(1) run record_tables [of keccak "ne_now env"]
      by (auto simp: postNotify_def Let_def same split: option.splits if_splits bool.splits prod.splits)
  next
    case True
    then obtain n d oc where n: "body = Some n" "notificationSchema n" "namedProposals n (nw_db w) \<noteq> []"
      "recordSettlementNotification keccak (ne_now env) n (nw_db w) = Some (True, d)" "outcomeOf n = Some oc" by blast
    obtain auctionId ids where att: "attribution n = Some (auctionId, ids)"
      "attributedBid auctionId ids (bidRows ids (nw_db w)) \<noteq> None" using record_tables [OF n(4)] by blast
    have "w' = snd (for_each (notifyStep env (nt_kind n) oc) (namedProposals n (nw_db w)) (w\<lparr>nw_db := d\<rparr>))"
      using run n by (auto simp: postNotify_def Let_def same split: prod.splits bool.splits)
    then show thesis using that(2) n att by blast
  qed
qed

text \<open>
  C9. A status moves on attributed evidence only. After a notification, whatever else the request did, a
  proposal whose logged status changed was bid in the auction the notification names, together with the
  other ids it lists: as one of them it became settled or failed with exactly the reported transaction
  hash, from submitted or lost, or lost from submitted on an abandonment; or it was submitted and is
  cancelled because a listed sibling for the same order by the same sub-solver was settled.
\<close>

theorem statuses_need_evidence:
  assumes inv: "store_inv (nw_db w)" and alone: "alone env" and run: "postNotify keccak env body w = (r, w')"
    and row: "logRow (nw_db w) i = Some l"
  shows "\<exists>l'. logRow (nw_db w') i = Some l' \<and>
    (r_status l' = r_status l \<and> r_settlementTxHash l' = r_settlementTxHash l \<or>
     (\<exists>n oc auctionId ids. body = Some n \<and> outcomeOf n = Some oc \<and> attribution n = Some (auctionId, ids) \<and>
        attributedBid auctionId ids (bidRows ids (nw_db w)) \<noteq> None \<and>
        evidence_move (nw_db w) (set ids) oc i l l'))"
proof (cases rule: postNotify_cases [OF run alone])
  case 1
  then show ?thesis using row by (simp add: logRow_def)
next
  case (2 n oc d auctionId ids)
  have t: "proposals d = proposals (nw_db w)" "proposalsLog d = proposalsLog (nw_db w)"
    using record_tables [OF 2(6)] by simp_all
  have inv': "store_inv (nw_db (w\<lparr>nw_db := d\<rparr>))"
    using inv t by (simp add: store_inv_def store_mid_def live_ok_def keys_ok_def liveRow_def logRow_def)
  have "evidence_run (p_id ` set (namedProposals n (nw_db w))) oc d (nw_db w')"
    using notifyLoop_run [OF inv' alone outcomeOf_hash [OF 2(2,3)]] 2(7) by simp
  moreover have "logRow d i = Some l" using row t by (simp add: logRow_def)
  ultimately obtain l' where l': "logRow (nw_db w') i = Some l'"
    "same_life l l' \<or> evidence_move d (p_id ` set (namedProposals n (nw_db w))) oc i l l'"
    unfolding evidence_run_def by blast
  have "same_order d = same_order (nw_db w)" using t by (simp add: same_order_def liveRow_def fun_eq_iff)
  moreover have "p_id ` set (namedProposals n (nw_db w)) \<subseteq> set ids"
    using namedProposals_ids 2(4) by (fastforce simp: attribution_def Let_def split: option.splits if_splits)
  ultimately have "evidence_move d (p_id ` set (namedProposals n (nw_db w))) oc i l l' \<Longrightarrow>
      evidence_move (nw_db w) (set ids) oc i l l'"
    by (cases oc) (auto simp: evidence_move_def)
  then show ?thesis using l' 2 unfolding same_life_def by blast
qed

section \<open>Notifications delivered twice\<close>

text \<open>Nothing is left for this outcome to do on proposal \<open>i\<close>.\<close>

definition done_with :: "settlement_outcome \<Rightarrow> int \<Rightarrow> db \<Rightarrow> bool" where
  "done_with oc i d \<longleftrightarrow>
     (\<forall>r. liveRow d i = Some r \<longrightarrow> outcomeTarget (r_status r) oc = None) \<and>
     (settles oc \<longrightarrow> (\<forall>l. logRow d i = Some l \<longrightarrow> r_status l \<noteq> Lost))"

lemma notifyStep_idle:
  assumes dw: "done_with oc (p_id p) (nw_db w)" and "alone env" and keys: "keys_ok (nw_db w)"
  shows "nw_db (snd (notifyStep env kind oc p w)) = nw_db w"
proof -
  have same: "ne_beforeWrite env i d = d" for i d using assms(2) by (simp add: alone_def)
  have late: "applyLateLostCorrection (ne_now env) (p_id p) oc (nw_db w) = (Inl (StaleTransition (p_id p) Lost None), nw_db w)"
  proof (cases rule: late_cases [OF keys, of "ne_now env" "p_id p" oc])
    case (2 to h e d' l)
    then have "settles oc" by (cases oc) (simp_all add: settles_def)
    then show ?thesis using dw 2 by (simp add: done_with_def)
  qed simp
  have out: "applySettlementOutcome (ne_now env) p oc (nw_db w) =
      (if liveRow (nw_db w) (p_id p) = None then Inl (NotFound (p_id p)) else Inr (None, []), nw_db w)"
    using dw by (auto simp: done_with_def applySettlementOutcome_def split: option.split)
  show ?thesis by (simp add: notifyStep_def Let_def same late out)
qed

lemma settled_stays:
  assumes inv: "store_inv d" and run: "evidence_run S oc d d'" and inv': "store_inv d'" and dw: "done_with oc i d"
  shows "done_with oc i d'"
proof -
  have "outcomeTarget (r_status r) oc = None" if r: "liveRow d' i = Some r" for r
  proof (rule ccontr)
    assume "outcomeTarget (r_status r) oc \<noteq> None"
    then obtain x where "outcomeTarget (r_status r) oc = Some x" by blast
    then have sub: "r_status r = Submitted" using outcomeTarget_SomeD by (cases x) blast
    obtain r0 where r0: "liveRow d i = Some r0" using run r unfolding evidence_run_def by blast
    obtain l where l: "logRow d i = Some l" "mirrors l r0" using inv r0 store_midD(2) unfolding store_inv_def by blast
    obtain l' where l': "logRow d' i = Some l'" "same_life l l' \<or> evidence_move d S oc i l l'"
      using run l(1) unfolding evidence_run_def by blast
    have "r_status l' = Submitted" using inv' r l'(1) sub store_midD(2) unfolding store_inv_def mirrors_def by fastforce
    then have "r_status r0 = Submitted" using l'(2) l(2)
      by (cases oc) (auto simp: same_life_def evidence_move_def mirrors_def)
    then show False using dw r0 \<open>outcomeTarget (r_status r) oc = Some x\<close> sub by (simp add: done_with_def)
  qed
  moreover have "r_status l' \<noteq> Lost" if "settles oc" "logRow d' i = Some l'" for l'
  proof (cases "logRow d i")
    case (Some l)
    then have "same_life l l' \<or> evidence_move d S oc i l l'" using run that(2) unfolding evidence_run_def by fastforce
    then show ?thesis using dw Some that(1)
      by (cases oc) (auto simp: same_life_def evidence_move_def done_with_def settles_def)
  next
    case None
    then show ?thesis using run that(2) unfolding evidence_run_def by force
  qed
  ultimately show ?thesis by (simp add: done_with_def)
qed

text \<open>A turn of the loop leaves nothing to do for its proposal.\<close>

lemma notifyStep_done:
  assumes inv: "store_inv (nw_db w)" and "alone env" and ok: "\<not> ne_writeFails env (p_id p)"
    and read: "p_status p = Lost \<Longrightarrow> liveRow (nw_db w) (p_id p) = None"
  shows "done_with oc (p_id p) (nw_db (snd (notifyStep env kind oc p w)))"
proof -
  let ?d = "nw_db w" and ?i = "p_id p"
  have same: "ne_beforeWrite env i d = d" for i d using assms(2) by (simp add: alone_def)
  have mid: "store_mid ?d" and live: "live_ok ?d" and keys: "keys_ok ?d" using inv store_midD(1) by (auto simp: store_inv_def)
  have late: "done_with oc ?i (snd (applyLateLostCorrection (ne_now env) ?i oc ?d))"
    if none: "liveRow ?d ?i = None" and s: "settles oc"
  proof (cases rule: late_cases [OF keys, of "ne_now env" ?i oc])
    case 1
    then show ?thesis using none s by (simp add: done_with_def)
  next
    case (2 to h e d' l)
    then have "to \<noteq> Lost" by (cases oc) auto
    then show ?thesis using 2 none by (auto simp: done_with_def)
  qed
  show ?thesis
  proof (cases "p_status p = Lost \<and> settles oc")
    case True
    then have "nw_db (snd (notifyStep env kind oc p w)) = snd (applyLateLostCorrection (ne_now env) ?i oc ?d)"
      by (auto simp: notifyStep_def Let_def same ok split: sum.split prod.split)
    then show ?thesis using late read True by simp
  next
    case False
    show ?thesis
    proof (cases rule: outcome_rows [OF keys, of "ne_now env" p oc])
      case (1 e)
      show ?thesis
      proof (cases "settles oc")
        case True
        then have "nw_db (snd (notifyStep env kind oc p w)) = snd (applyLateLostCorrection (ne_now env) ?i oc ?d)"
          using 1(1) False by (auto simp: notifyStep_def Let_def same ok split: sum.split prod.split)
        then show ?thesis using late 1(2) True by simp
      next
        case F: False
        then show ?thesis using 1 False by (simp add: notifyStep_def Let_def same ok done_with_def)
      qed
    next
      case (2 locked)
      have "r_status l \<noteq> Lost" if "logRow ?d ?i = Some l" for l
        using no_live [OF mid live that] 2(2) by auto
      then show ?thesis using 2 False by (auto simp: notifyStep_def Let_def same ok done_with_def)
    next
      case (3 locked to h e cs d')
      have db: "nw_db (snd (notifyStep env kind oc p w)) = d'" using 3(1) False by (auto simp: notifyStep_def Let_def same ok)
      have to: "outcomeTarget to oc = None" using 3(4) by (cases oc) (auto split: if_splits)
      have log: "logRow d' ?i = map_option (sync_cols (outcomeSet (ne_now env) p oc to h locked)) (logRow ?d ?i)"
        using 3(7) [of ?i] 3(2) by simp
      have "settles oc \<Longrightarrow> to \<noteq> Lost" using 3(4) by (cases oc) (auto simp: settles_def split: if_splits)
      then show ?thesis using 3(6) [of ?i] 3(2) to log unfolding db done_with_def
        by (auto simp: outcomeSet_def split: if_splits)
    qed
  qed
qed

text \<open>What a turn leaves of the proposals it is not about: their rows, but for a sibling's status.\<close>

definition keeps_row :: "int \<Rightarrow> db \<Rightarrow> db \<Rightarrow> bool" where
  "keeps_row i d d' \<longleftrightarrow>
     (case liveRow d i of
        None \<Rightarrow> liveRow d' i = None \<and> logRow d' i = logRow d i
      | Some r \<Rightarrow> \<exists>s t. liveRow d' i = Some (r\<lparr>r_status := s, r_statusChangedAt := t\<rparr>))"

lemma same_row: "\<exists>s t. (r :: proposal_row) = r\<lparr>r_status := s, r_statusChangedAt := t\<rparr>"
  by (rule exI [of _ "r_status r"], rule exI [of _ "r_statusChangedAt r"]) simp

lemma keeps_row_refl [simp]: "keeps_row i d d"
  by (cases "liveRow d i") (simp_all add: keeps_row_def same_row)

lemma keeps_row_trans: "keeps_row i d d1 \<Longrightarrow> keeps_row i d1 d2 \<Longrightarrow> keeps_row i d d2"
  by (cases "liveRow d i") (auto simp: keeps_row_def)

lemma unreadable_stays:
  assumes "keeps_row i d d'" "getIncludingLog i d = None"
  shows "getIncludingLog i d' = None"
proof -
  have same: "rowToProposal (r\<lparr>r_status := s, r_statusChangedAt := t\<rparr>) = None" if "rowToProposal r = None" for r s t
    using that unfolding rowToProposal_def
    by (cases "those (map jsonToInteraction (r_interactions r))", simp, cases "BigInt (r_sellAmount r)", simp,
        cases "BigInt (r_minBuyAmount r)", simp, cases "BigInt (r_quoteBuyAmount r)", simp, cases "BigInt (r_validUntil r)", simp,
        cases "BigInt (r_nonce r)", simp, cases "BigIntOpt (r_settlementPenaltyCap r)", simp,
        cases "BigIntOpt (r_simulationBuyAmount r)", simp, simp)
  show ?thesis
  proof (cases "liveRow d i")
    case None
    then show ?thesis using assms by (auto simp: keeps_row_def getIncludingLog_def split: if_splits option.splits)
  next
    case (Some r)
    then show ?thesis using assms same by (auto simp: keeps_row_def getIncludingLog_def split: if_splits)
  qed
qed

lemma notifyStep_keeps:
  assumes keys: "keys_ok (nw_db w)" and "alone env" and other: "i \<noteq> p_id p"
  shows "keeps_row i (nw_db w) (nw_db (snd (notifyStep env kind oc p w)))"
proof -
  have late: "keeps_row i (nw_db w) (snd (applyLateLostCorrection (ne_now env) (p_id p) oc (nw_db w)))"
  proof (cases rule: late_cases [OF keys, of "ne_now env" "p_id p" oc])
    case (2 to h e d' l)
    have "logRow d' i = logRow (nw_db w) i" using 2(6) [of i] other by (cases "logRow (nw_db w) i") auto
    then have "keeps_row i (nw_db w) d' = keeps_row i (nw_db w) (nw_db w)"
      unfolding keeps_row_def 2(5) by (cases "liveRow (nw_db w) i") simp_all
    then show ?thesis using 2(1) by simp
  qed simp
  have out: "keeps_row i (nw_db w) (snd (applySettlementOutcome (ne_now env) p oc (nw_db w)))"
  proof (cases rule: outcome_rows [OF keys, of "ne_now env" p oc])
    case (3 locked to h e cs d')
    have "keeps_row i (nw_db w) d'"
    proof (cases "liveRow (nw_db w) i")
      case None
      then show ?thesis using 3(6,7) [of i] by (simp add: keeps_row_def)
    next
      case (Some r)
      then show ?thesis using 3(6) [of i] other same_row by (auto simp: keeps_row_def cancelRow_def)
    qed
    then show ?thesis using 3(1) by simp
  qed simp_all
  show ?thesis using notifyStep_db [OF assms(2), of kind oc p w] late out by fastforce
qed

text \<open>The whole loop, when no write fails: its proposals are done, the others keep their rows.\<close>

lemma notifyLoop_done:
  assumes inv: "store_inv (nw_db w)" and env: "alone env" "\<And>i. \<not> ne_writeFails env i" "hash_ok oc"
    and "distinct (map p_id ps)"
    and "\<And>p. p \<in> set ps \<Longrightarrow> p_status p = Lost \<Longrightarrow> liveRow (nw_db w) (p_id p) = None"
  shows "(\<forall>p \<in> set ps. done_with oc (p_id p) (nw_db (snd (for_each (notifyStep env kind oc) ps w)))) \<and>
    (\<forall>i. i \<notin> p_id ` set ps \<longrightarrow> keeps_row i (nw_db w) (nw_db (snd (for_each (notifyStep env kind oc) ps w))))"
  using assms(1,5,6)
proof (induction ps arbitrary: w)
  case (Cons p ps)
  obtain b w1 where st0: "notifyStep env kind oc p w = (b, w1)" by fastforce
  then have "b" using env(2) [of "p_id p"]
    by (auto simp: notifyStep_def Let_def split: sum.splits store_error.splits option.splits prod.splits if_splits)
  then have st: "notifyStep env kind oc p w = (True, w1)" using st0 by simp
  then have w1: "w1 = snd (notifyStep env kind oc p w)" by simp
  have keys: "keys_ok (nw_db w)" using Cons.prems(1) store_midD(1) by (auto simp: store_inv_def)
  have run: "store_inv (nw_db w1)" "evidence_run {p_id p} oc (nw_db w) (nw_db w1)"
    unfolding w1 using notifyStep_run [OF Cons.prems(1) env(1,3)] by blast+
  have none: "liveRow (nw_db w1) (p_id q) = None" if "q \<in> set ps" "p_status q = Lost" for q
  proof -
    have "liveRow (nw_db w) (p_id q) = None" using Cons.prems(3) that by simp
    then show ?thesis using run(2) unfolding evidence_run_def by (cases "liveRow (nw_db w1) (p_id q)") fastforce+
  qed
  have rest: "(\<forall>q \<in> set ps. done_with oc (p_id q) (nw_db (snd (for_each (notifyStep env kind oc) ps w1)))) \<and>
    (\<forall>i. i \<notin> p_id ` set ps \<longrightarrow> keeps_row i (nw_db w1) (nw_db (snd (for_each (notifyStep env kind oc) ps w1))))"
    using Cons.IH [OF run(1)] Cons.prems(2) none by simp
  have loop: "store_inv (nw_db (snd (for_each (notifyStep env kind oc) ps w1)))"
    "evidence_run (p_id ` set ps) oc (nw_db w1) (nw_db (snd (for_each (notifyStep env kind oc) ps w1)))"
    using notifyLoop_run [OF run(1) env(1,3)] by blast+
  have "done_with oc (p_id p) (nw_db w1)"
    unfolding w1 using notifyStep_done [OF Cons.prems(1) env(1) env(2)] Cons.prems(3) by simp
  then have "done_with oc (p_id p) (nw_db (snd (for_each (notifyStep env kind oc) ps w1)))"
    using settled_stays [OF run(1) loop(2) loop(1)] by blast
  moreover have "keeps_row i (nw_db w) (nw_db (snd (for_each (notifyStep env kind oc) ps w1)))"
    if "i \<notin> p_id ` set (p # ps)" for i
    using that rest keeps_row_trans [OF notifyStep_keeps [OF keys env(1), of i p kind oc, folded w1]] by auto
  ultimately show ?case using st rest by simp
qed simp

text \<open>Evidence refused once is refused again.\<close>

lemma record_refused_again:
  assumes "recordSettlementNotification keccak now n d = Some (False, d')"
  shows "recordSettlementNotification keccak' now' n d' \<noteq> Some (True, d'')"
proof -
  have key: "map_option a_id (find (\<lambda>a. a_attemptKey a = k) (sql_update P f xs)) = map_option a_id (find (\<lambda>a. a_attemptKey a = k) xs)"
    if "\<And>a. a_id (f a) = a_id a" "\<And>a. a_attemptKey (f a) = a_attemptKey a" for k P f and xs :: "attempt_row list"
    by (induction xs) (simp_all add: sql_update_def that)
  have marks: "memberships ids (fold (markConflict k n) ms d) = memberships ids d \<and>
      bidRows ids (fold (markConflict k n) ms d) = bidRows ids d \<and>
      map_option a_id (find (\<lambda>a. a_attemptKey a = k') (settlementAttempts (fold (markConflict k n) ms d))) =
        map_option a_id (find (\<lambda>a. a_attemptKey a = k') (settlementAttempts d))" for ids k k' ms d
    by (induction ms arbitrary: d)
      (simp_all add: markConflict_def memberships_def bidRows_def updateAttempts_def addEvidence_def key)
  show ?thesis
  proof (cases "attribution n")
    case (Some x)
    obtain a ids where x: "x = (a, ids)" by (cases x)
    show ?thesis
    proof (cases "attributedBid a ids (bidRows ids d)")
      case None
      then have "d' = d" using assms Some x by (simp add: recordSettlementNotification_def)
      then show ?thesis using Some x None by (simp add: recordSettlementNotification_def)
    next
      case bid: (Some bid)
      let ?conflict = "\<lambda>d. \<exists>m \<in> set (memberships ids d). Some (m_attemptId m) \<noteq>
          map_option a_id (find (\<lambda>r. a_attemptKey r = attemptKeyOf a ids) (settlementAttempts d))"
      have c: "?conflict d" and d': "d' = fold (markConflict (attemptKeyOf a ids) n) (memberships ids d) d"
        using assms Some x bid by (auto simp: recordSettlementNotification_def Let_def split: prod.splits option.splits if_splits)
      have "?conflict d'" "bidRows ids d' = bidRows ids d" using c unfolding d' by (simp_all only: marks)
      then show ?thesis using Some x bid by (auto simp: recordSettlementNotification_def Let_def)
    qed
  qed (simp add: recordSettlementNotification_def)
qed

text \<open>
  C27. A notification delivered again changes no proposal: once a request has been answered, handling the
  same notification a second time, at any later moment before anything else writes, leaves the proposals
  and their log exactly as they are.
\<close>

theorem notification_idempotent:
  assumes inv: "store_inv (nw_db w)" and env: "alone env" "\<forall>i. \<not> ne_writeFails env i" and env': "alone env'"
    and first: "postNotify keccak env body w = (Inr (), w')" and again: "postNotify keccak env' body w' = (r, w'')"
  shows "proposals (nw_db w'') = proposals (nw_db w') \<and> proposalsLog (nw_db w'') = proposalsLog (nw_db w')"
proof (cases rule: postNotify_cases [OF again env'])
  case (2 n oc d auctionId ids)
  have t: "proposals d = proposals (nw_db w')" "proposalsLog d = proposalsLog (nw_db w')"
    using record_tables [OF 2(6)] by simp_all
  have same: "ne_beforeRecord env x = x" for x using env(1) by (simp add: alone_def)
  let ?ps = "namedProposals n (nw_db w)"
  have dist: "distinct (map p_id (namedProposals n x))" for x
    by (rule namedProposals_distinct)
  obtain d1 where d1: "?ps = [] \<and> w' = w \<or> recordSettlementNotification keccak (ne_now env) n (nw_db w) = Some (True, d1) \<and>
      w' = snd (for_each (notifyStep env (nt_kind n) oc) ?ps (w\<lparr>nw_db := d1\<rparr>))"
    using first 2(1-3,6) record_refused_again
    by (auto simp: postNotify_def Let_def same throws_def split: if_splits option.splits bool.splits prod.splits)
  have hash: "hash_ok oc" using outcomeOf_hash [OF 2(2,3)] .
  have read: "getIncludingLog (p_id p) x = Some p \<and> p_id p \<in> set (parseSolutionIds n)" if "p \<in> set (namedProposals n x)" for p x
    using that rowToProposal_id liveRow_id logRow_id
    by (fastforce simp: namedProposals_def List.map_filter_def getIncludingLog_def split: if_splits option.splits)
  have after: "done_with oc (p_id p) (nw_db w')" "keys_ok (nw_db w')" if p: "p \<in> set (namedProposals n (nw_db w'))" for p
  proof -
    from d1 p have rec: "recordSettlementNotification keccak (ne_now env) n (nw_db w) = Some (True, d1)"
      and w': "w' = snd (for_each (notifyStep env (nt_kind n) oc) ?ps (w\<lparr>nw_db := d1\<rparr>))" by auto
    have t1: "proposals d1 = proposals (nw_db w)" "proposalsLog d1 = proposalsLog (nw_db w)" using record_tables [OF rec] by simp_all
    have rows1: "liveRow d1 = liveRow (nw_db w)" "logRow d1 = logRow (nw_db w)"
      by (simp_all add: liveRow_def logRow_def t1 fun_eq_iff)
    have read1: "getIncludingLog j d1 = getIncludingLog j (nw_db w)" for j
      unfolding getIncludingLog_def rows1 by (rule refl)
    have inv1: "store_inv (nw_db (w\<lparr>nw_db := d1\<rparr>))"
      using inv t1 by (simp add: store_inv_def store_mid_def live_ok_def keys_ok_def liveRow_def logRow_def)
    have lost: "liveRow (nw_db (w\<lparr>nw_db := d1\<rparr>)) (p_id q) = None" if q: "q \<in> set ?ps" "p_status q = Lost" for q
    proof (cases "liveRow (nw_db w) (p_id q)")
      case (Some x)
      then have "r_status x = Lost" using read [OF q(1)] q(2) rowToProposal_id
        by (auto simp: getIncludingLog_def split: if_splits)
      then show ?thesis using inv Some unfolding store_inv_def live_ok_def by fastforce
    qed (simp add: liveRow_def t1)
    have fine: "\<not> ne_writeFails env j" for j using env(2) by simp
    note loop = notifyLoop_done [OF inv1 env(1) fine hash dist [of "nw_db w"] lost, of "nt_kind n", folded w']
    show "keys_ok (nw_db w')"
      using notifyLoop_run [OF inv1 env(1) hash, of "nt_kind n" ?ps, folded w'] store_midD(1) unfolding store_inv_def by blast
    show "done_with oc (p_id p) (nw_db w')"
    proof (cases "p_id p \<in> p_id ` set ?ps")
      case True
      then obtain q where "q \<in> set ?ps" "p_id q = p_id p" by auto
      then show ?thesis using loop by metis
    next
      case False
      have "getIncludingLog (p_id p) (nw_db w) = None"
      proof (rule ccontr)
        assume "getIncludingLog (p_id p) (nw_db w) \<noteq> None"
        then obtain q where q: "getIncludingLog (p_id p) (nw_db w) = Some q" by blast
        then have "q \<in> set ?ps" using read [OF p] by (force simp: namedProposals_def List.map_filter_def)
        moreover have "p_id q = p_id p" using q rowToProposal_id liveRow_id logRow_id
          by (fastforce simp: getIncludingLog_def split: if_splits option.splits)
        ultimately show False using False by (metis imageI)
      qed
      then have "getIncludingLog (p_id p) (nw_db (w\<lparr>nw_db := d1\<rparr>)) = None"
        by (simp add: read1)
      then have "getIncludingLog (p_id p) (nw_db w') = None" using unreadable_stays loop False by blast
      then show ?thesis using read [OF p] by simp
    qed
  qed
  have "nw_db w'' = d" unfolding 2(7)
  proof (rule for_each_inv [where I = "\<lambda>x :: notify_world. nw_db x = d"])
    fix p and x :: notify_world assume p: "p \<in> set (namedProposals n (nw_db w'))" and x: "nw_db x = d"
    have "done_with oc (p_id p) d" "keys_ok d"
      using after [OF p] t by (simp_all add: done_with_def keys_ok_def liveRow_def logRow_def)
    then show "nw_db (snd (notifyStep env' (nt_kind n) oc p x)) = d" using notifyStep_idle [OF _ env'] x by blast
  qed simp
  then show ?thesis using t by simp
qed simp_all

section \<open>What a tick of the outcome worker does\<close>

definition lostRow :: "int \<Rightarrow> rejection_reason \<Rightarrow> proposal_row \<Rightarrow> proposal_row" where
  "lostRow now reason r = r\<lparr>r_status := Lost, r_rejectionReason := Some reason, r_statusChangedAt := now\<rparr>"

lemma lost_rows:
  assumes keys: "keys_ok d" and run: "applyLostOutcome now i reason d = (res, d')"
  shows "keys_ok d' \<and> debitOperations d' = debitOperations d \<and> settlementAttempts d' = settlementAttempts d \<and>
    bufferEntries d' = bufferEntries d \<and>
    (\<forall>j. liveRow d' j = (if j = i \<and> (\<exists>r. liveRow d i = Some r \<and> r_status r = Submitted) then None else liveRow d j)) \<and>
    (\<forall>j. logRow d' j = (case liveRow d i of
        Some r \<Rightarrow> if j = i \<and> r_status r = Submitted then map_option (sync_cols (lostRow now reason r)) (logRow d j) else logRow d j
      | None \<Rightarrow> logRow d j))"
proof (cases "\<exists>r. liveRow d i = Some r \<and> r_status r = Submitted")
  case False
  then have "d' = d" using run by (auto simp: applyLostOutcome_def split: option.splits if_splits)
  then show ?thesis using keys False by (auto split: option.split)
next
  case True
  then obtain r where r: "liveRow d i = Some r" "r_status r = Submitted" by blast
  let ?f = "\<lambda>r. r\<lparr>r_status := Lost, r_rejectionReason := Some reason, r_statusChangedAt := now\<rparr>"
  let ?d1 = "updateProposals (\<lambda>r. r_id r = i) ?f d"
  have d': "d' = deleteProposals (\<lambda>r. r_id r = i) ?d1" using run r by (simp add: applyLostOutcome_def)
  have k1: "keys_ok ?d1" by (rule keys_ok_update [OF keys]) simp
  have live1: "liveRow ?d1 j = map_option (\<lambda>r. if r_id r = i then ?f r else r) (liveRow d j)" for j
    by (rule liveRow_update) simp
  have "liveRow d' j = (if j = i then None else liveRow d j)" for j
    unfolding d' liveRow_delete [OF k1] live1 by (cases "liveRow d j") (auto dest: liveRow_id)
  moreover have "logRow d' j = (if j = i then map_option (sync_cols (lostRow now reason r)) (logRow d j) else logRow d j)" for j
    unfolding d' logRow_delete logRow_update [of d ?f "\<lambda>r. r_id r = i", OF keys, simplified] lostRow_def
    using r by (cases "liveRow d j") (auto dest: liveRow_id)
  moreover have "keys_ok d'" unfolding d' by (rule keys_ok_delete [OF k1])
  moreover have "debitOperations d' = debitOperations d \<and> settlementAttempts d' = settlementAttempts d \<and> bufferEntries d' = bufferEntries d"
    unfolding d' by (simp add: deleteProposals_def updateProposals_def)
  ultimately show ?thesis using r by simp
qed

lemma lostStep_db:
  assumes "\<forall>i d. oc_beforeWrite env i d = d"
  shows "nw_db (lostStep env traded (i, s, u) w) = (if oc_writeFails env i then nw_db w
     else snd (applyLostOutcome (oc_now env) i (lostReason traded u) (nw_db w)))"
  using assms by (auto simp: lostStep_def Let_def split: lost_result.split prod.split)

lemma lostLoop:
  assumes "keys_ok (nw_db w)" and env: "\<forall>i d. oc_beforeWrite env i d = d" and "distinct (map fst rs)"
    and "\<forall>(i, s, u) \<in> set rs. \<exists>r. liveRow (nw_db w) i = Some r \<and> r_status r = Submitted \<and> r_orderUid r = u"
  shows "debitOperations (nw_db (fold (lostStep env traded) rs w)) = debitOperations (nw_db w) \<and>
    settlementAttempts (nw_db (fold (lostStep env traded) rs w)) = settlementAttempts (nw_db w) \<and>
    bufferEntries (nw_db (fold (lostStep env traded) rs w)) = bufferEntries (nw_db w) \<and>
    (\<forall>i. if i \<in> fst ` set rs \<and> \<not> oc_writeFails env i
      then liveRow (nw_db (fold (lostStep env traded) rs w)) i = None \<and>
        logRow (nw_db (fold (lostStep env traded) rs w)) i =
          map_option (sync_cols (lostRow (oc_now env) (lostReason traded (r_orderUid (the (liveRow (nw_db w) i)))) (the (liveRow (nw_db w) i))))
            (logRow (nw_db w) i)
      else liveRow (nw_db (fold (lostStep env traded) rs w)) i = liveRow (nw_db w) i \<and>
        logRow (nw_db (fold (lostStep env traded) rs w)) i = logRow (nw_db w) i)"
  using assms(1,3,4)
proof (induction rs arbitrary: w)
  case (Cons x rs)
  obtain i s u where x: "x = (i, s, u)" by (cases x)
  define w1 where "w1 = lostStep env traded x w"
  obtain r where r: "liveRow (nw_db w) i = Some r" "r_status r = Submitted" "r_orderUid r = u" using Cons.prems(3) x by auto
  obtain res d' where d': "applyLostOutcome (oc_now env) i (lostReason traded u) (nw_db w) = (res, d')" by fastforce
  note eff = lost_rows [OF Cons.prems(1) d']
  have db: "nw_db w1 = (if oc_writeFails env i then nw_db w else d')" using lostStep_db [OF env] d' by (simp add: w1_def x)
  have k1: "keys_ok (nw_db w1)" using eff Cons.prems(1) db by simp
  have other: "liveRow (nw_db w1) j = liveRow (nw_db w) j \<and> logRow (nw_db w1) j = logRow (nw_db w) j" if "j \<noteq> i" for j
    using eff that r by (simp add: db)
  have mine: "liveRow (nw_db w1) i = None \<and> logRow (nw_db w1) i =
      map_option (sync_cols (lostRow (oc_now env) (lostReason traded u) r)) (logRow (nw_db w) i)" if "\<not> oc_writeFails env i"
    using eff that r by (simp add: db)
  have "\<forall>(j, s, u) \<in> set rs. \<exists>r. liveRow (nw_db w1) j = Some r \<and> r_status r = Submitted \<and> r_orderUid r = u"
    using Cons.prems(2,3) other x by force
  note IH = Cons.IH [OF k1 _ this]
  have notin: "i \<notin> fst ` set rs" using Cons.prems(2) x by simp
  have tables: "debitOperations (nw_db w1) = debitOperations (nw_db w)" "settlementAttempts (nw_db w1) = settlementAttempts (nw_db w)"
    "bufferEntries (nw_db w1) = bufferEntries (nw_db w)" using eff by (simp_all add: db)
  have unf: "fold (lostStep env traded) (x # rs) w = fold (lostStep env traded) rs w1" by (simp add: w1_def)
  show ?case
    unfolding unf
  proof (intro conjI allI)
    fix j
    show "if j \<in> fst ` set (x # rs) \<and> \<not> oc_writeFails env j
      then liveRow (nw_db (fold (lostStep env traded) rs w1)) j = None \<and>
        logRow (nw_db (fold (lostStep env traded) rs w1)) j =
          map_option (sync_cols (lostRow (oc_now env) (lostReason traded (r_orderUid (the (liveRow (nw_db w) j)))) (the (liveRow (nw_db w) j))))
            (logRow (nw_db w) j)
      else liveRow (nw_db (fold (lostStep env traded) rs w1)) j = liveRow (nw_db w) j \<and>
        logRow (nw_db (fold (lostStep env traded) rs w1)) j = logRow (nw_db w) j"
    proof (cases "j = i")
      case True
      have "liveRow (nw_db (fold (lostStep env traded) rs w1)) i = liveRow (nw_db w1) i \<and>
          logRow (nw_db (fold (lostStep env traded) rs w1)) i = logRow (nw_db w1) i"
        using IH Cons.prems(2) notin by auto
      then show ?thesis using True mine r x db by (cases "oc_writeFails env i") auto
    next
      case False
      then show ?thesis using IH Cons.prems(2) other [OF False] x by auto
    qed
  qed (use IH Cons.prems(2) tables in auto)
qed simp

definition silent :: "outcome_env \<Rightarrow> db \<Rightarrow> int \<Rightarrow> proposal_row \<Rightarrow> bool" where
  "silent env d i r \<longleftrightarrow> liveRow d i = Some r \<and> r_status r = Submitted \<and> r_statusChangedAt r < oc_now env - 120000"

lemma stale_rows:
  assumes keys: "keys_ok d"
  shows "distinct (map fst (fetchStaleSubmitted now windowMs d)) \<and>
    (i, s, u) \<in> set (fetchStaleSubmitted now windowMs d) =
      (\<exists>r. liveRow d i = Some r \<and> r_status r = Submitted \<and> r_statusChangedAt r < now - windowMs \<and> s = r_subSolver r \<and> u = r_orderUid r)"
proof
  have "map fst (fetchStaleSubmitted now windowMs d) = map r_id (by_id (filter (\<lambda>r. r_status r = Submitted \<and>
      r_statusChangedAt r < now - windowMs) (proposals d)))" by (simp add: fetchStaleSubmitted_def)
  moreover have "distinct (map r_id (by_id (filter P (proposals d))))" for P
    using keys by (simp add: by_id_def keys_ok_def distinct_map inj_on_filter_key_eq) (auto simp: distinct_map inj_on_def)
  ultimately show "distinct (map fst (fetchStaleSubmitted now windowMs d))" by simp
  have "r \<in> set (proposals d) \<longleftrightarrow> liveRow d (r_id r) = Some r" for r
    using liveRow_in [OF keys] liveRow_id by blast
  then show "(i, s, u) \<in> set (fetchStaleSubmitted now windowMs d) =
      (\<exists>r. liveRow d i = Some r \<and> r_status r = Submitted \<and> r_statusChangedAt r < now - windowMs \<and> s = r_subSolver r \<and> u = r_orderUid r)"
    using liveRow_id by (auto simp: fetchStaleSubmitted_def by_id_def) blast+
qed


section \<open>What a late correction leaves out\<close>

text \<open>
  A correction rewrites the log only. The buffer accounting reads settled proposals from the live table,
  so a proposal corrected to settled never gets a buffer entry; and the row keeps the reason it was lost for.
\<close>

lemma late_correction_skips_buffer:
  "snapshotByStatuses sts (snd (applyLateLostCorrection now i oc d)) = snapshotByStatuses sts d"
  by (simp add: applyLateLostCorrection_def snapshotByStatuses_def Let_def split: option.split prod.split)

lemma late_correction_keeps_reason:
  assumes "keys_ok d" "logRow d i = Some l"
  shows "map_option r_rejectionReason (logRow (snd (applyLateLostCorrection now i oc d)) i) = Some (r_rejectionReason l)"
  by (cases rule: late_cases [OF assms(1), of now i oc]) (use assms(2) in auto)

section \<open>Concrete notifications\<close>

text \<open>A well-formed notification is always answered, whatever the evidence ledger holds.\<close>

lemma postNotify_answers:
  assumes "notificationSchema n" "attempts_inv (ne_beforeRecord env (nw_db w))" "\<forall>i. \<not> ne_writeFails env i"
  shows "fst (postNotify keccak env (Some n) w) = Inr ()"
proof -
  have loop: "fst (for_each (notifyStep env kind oc) ps w)" for kind oc ps w
  proof (induction ps arbitrary: w)
    case (Cons p ps)
    obtain b w1 where st: "notifyStep env kind oc p w = (b, w1)" by fastforce
    then have "b" using assms(3)
      by (auto simp: notifyStep_def Let_def split: sum.splits store_error.splits option.splits prod.splits if_splits)
    then show ?case using st Cons by simp
  qed simp
  obtain b d' where "recordSettlementNotification keccak (ne_now env) n (ne_beforeRecord env (nw_db w)) = Some (b, d')"
    using record_inv [OF assms(2)] by blast
  then show ?thesis using assms(1) loop
    by (auto simp: postNotify_def Let_def split: bool.split option.split prod.split) (metis fst_conv)
qed

definition exampleNotifyEnv :: notify_env where
  "exampleNotifyEnv = \<lparr>ne_now = 9, ne_beforeRecord = \<lambda>d. d, ne_beforeWrite = \<lambda>i d. d, ne_writeFails = \<lambda>i. False\<rparr>"

definition exampleRevert :: notification where
  "exampleRevert = \<lparr>nt_auctionId = Some ''1'', nt_solutionIds = [7], nt_kind = ''revert'', nt_transaction = Some (''0x'' @ replicate 64 CHR ''a'')\<rparr>"

definition exampleRow :: proposal_row where
  "exampleRow = submittedRow 5 exampleCandidate ''9'' examplePrices (Some 1000)"

definition exampleSubmitted :: notify_world where
  "exampleSubmitted = \<lparr>nw_db = emptyDb\<lparr>proposals := [exampleRow], proposalsLog := [exampleRow]\<rparr>, nw_audit = []\<rparr>"

lemma exampleSubmitted_inv: "store_inv (nw_db exampleSubmitted)" "attempts_inv (nw_db exampleSubmitted)"
proof -
  obtain d where d: "insertAsSubmitted 5 exampleCandidate ''9'' examplePrices (Some 1000) emptyDb = Some d"
    "reachable store_init store_step d" by (rule reach_example)
  have "d = nw_db exampleSubmitted" using d(1)
    by (simp add: exampleSubmitted_def exampleRow_def insertAsSubmitted_def insertProposal_def emptyDb_def mirror_insert_def sql_hit_def)
  then show "store_inv (nw_db exampleSubmitted)" using lifecycle.reachable_inv [OF d(2)] by simp
  show "attempts_inv (nw_db exampleSubmitted)"
    by (simp add: exampleSubmitted_def attempts_inv_def emptyDb_def evidence_def)
qed

lemma exampleNotify_alone: "alone exampleNotifyEnv" "\<forall>i. \<not> ne_writeFails exampleNotifyEnv i"
  by (simp_all add: alone_def exampleNotifyEnv_def)

lemma exampleRevert_schema: "notificationSchema exampleRevert"
  by (simp add: notificationSchema_def exampleRevert_def optional_def txHashString_def has_0x_def list_all_iff is_hex_digit_def base_val_def)

lemma exampleRow_logged: "logRow (nw_db exampleSubmitted) 7 = Some exampleRow" "r_status exampleRow = Submitted"
  by (simp_all add: exampleSubmitted_def exampleRow_def logRow_def submittedRow_def exampleCandidate_def)

lemma exampleReverted:
  "map_option r_status (logRow (nw_db (snd (postNotify (\<lambda>s. s) exampleNotifyEnv (Some exampleRevert) exampleSubmitted))) 7) = Some SettleFailed"
  by code_simp

theorem statuses_need_evidence_witness:
  "\<exists>l' auctionId ids. logRow (nw_db (snd (postNotify (\<lambda>s. s) exampleNotifyEnv (Some exampleRevert) exampleSubmitted))) 7 = Some l' \<and>
     r_status l' = SettleFailed \<and> attribution exampleRevert = Some (auctionId, ids) \<and>
     attributedBid auctionId ids (bidRows ids (nw_db exampleSubmitted)) \<noteq> None"
proof -
  let ?run = "postNotify (\<lambda>s. s) exampleNotifyEnv (Some exampleRevert) exampleSubmitted"
  have "?run = (fst ?run, snd ?run)" by simp
  from statuses_need_evidence [OF exampleSubmitted_inv(1) exampleNotify_alone(1) this exampleRow_logged(1)]
  obtain l' where l': "logRow (nw_db (snd ?run)) 7 = Some l'" and
    ev: "r_status l' = r_status exampleRow \<or> (\<exists>n oc auctionId ids. Some exampleRevert = Some n \<and> attribution n = Some (auctionId, ids) \<and>
        attributedBid auctionId ids (bidRows ids (nw_db exampleSubmitted)) \<noteq> None)" by blast
  have "r_status l' = SettleFailed" using exampleReverted l' by simp
  then show ?thesis using l' ev exampleRow_logged(2) by auto
qed

theorem notification_idempotent_witness:
  "\<exists>w'. postNotify (\<lambda>s. s) exampleNotifyEnv (Some exampleRevert) exampleSubmitted = (Inr (), w') \<and>
     proposalsLog (nw_db (snd (postNotify (\<lambda>s. s) exampleNotifyEnv (Some exampleRevert) w'))) = proposalsLog (nw_db w')"
proof -
  let ?run = "postNotify (\<lambda>s. s) exampleNotifyEnv (Some exampleRevert)"
  have "fst (?run exampleSubmitted) = Inr ()"
    using postNotify_answers exampleRevert_schema exampleSubmitted_inv(2) exampleNotify_alone(2)
    by (simp add: exampleNotifyEnv_def)
  then have first: "?run exampleSubmitted = (Inr (), snd (?run exampleSubmitted))" by (metis prod.collapse)
  have again: "?run (snd (?run exampleSubmitted)) = (fst (?run (snd (?run exampleSubmitted))), snd (?run (snd (?run exampleSubmitted))))"
    by simp
  from notification_idempotent [OF exampleSubmitted_inv(1) exampleNotify_alone exampleNotify_alone(1) first again]
  show ?thesis using first by blast
qed

definition exampleOutcomeEnv :: outcome_env where
  "exampleOutcomeEnv = \<lparr>oc_now = 200000, oc_staleFails = False, oc_blockNumber = Some 100, oc_logs = \<lambda>from to. Some [Some ''0xFF''],
     oc_blockDurationMs = 12000, oc_beforeWrite = \<lambda>i d. d, oc_writeFails = \<lambda>i. False\<rparr>"

lemma exampleSilent: "silent exampleOutcomeEnv (nw_db exampleSubmitted) 7 exampleRow"
  by (simp add: silent_def exampleOutcomeEnv_def exampleSubmitted_def exampleRow_def liveRow_def submittedRow_def exampleCandidate_def)


end
