(* ===== verification/Audit_Trail.thy ===== *)
theory Audit_Trail
  imports Responses
begin

text \<open>
  The audit trail (\<open>domain/audit.ts\<close>, \<open>infra/audit.ts\<close>, \<open>infra/jobs/audit-worker.ts\<close>): the row an event is
  stored as, and its way through the job queue, which carries JSON and therefore no bigint. A value of an event
  that is a bigint in the service is a \<open>js_amount\<close>: a bigint before the queue, a decimal string after it. Of the
  proposal in a received event only what the payload reads is kept.

  The property is that the queue is transparent: the worker stores the row a direct insert would have stored.
\<close>

datatype js_amount = Big int | Text string

fun amount_text :: "js_amount \<Rightarrow> string" where
  "amount_text (Big i) = bigint_str i"
| "amount_text (Text s) = s"

record audit_interaction =
  ai_target :: string
  ai_value :: js_amount
  ai_callData :: string

record audit_proposal =
  ap_id :: int
  ap_subSolver :: string
  ap_orderUid :: string
  ap_orderUidHash :: string
  ap_sellAmount :: js_amount
  ap_minBuyAmount :: js_amount
  ap_quoteBuyAmount :: js_amount
  ap_interactions :: "audit_interaction list"
  ap_interactionsHash :: string
  ap_validUntil :: js_amount
  ap_nonce :: js_amount
  ap_signature :: string

datatype js_audit_kind =
  JsReceived audit_proposal
| JsNonceConflict int string string string
| JsCancelled int string string
| JsStatusChanged int string string status status "rejection_reason option" "string option"
| JsPenalized int string string js_amount "string option" string
| JsNonSettlementDebited int string string js_amount string
| JsBufferDebited string js_amount string int
| JsDriverNotified int string string string

text \<open>An event of the service as the value its handlers pass on.\<close>

definition auditProposal :: "proposal \<Rightarrow> audit_proposal" where
  "auditProposal p =
     \<lparr>ap_id = p_id p, ap_subSolver = p_subSolver p, ap_orderUid = p_orderUid p, ap_orderUidHash = p_orderUidHash p,
      ap_sellAmount = Big (p_sellAmount p), ap_minBuyAmount = Big (p_minBuyAmount p), ap_quoteBuyAmount = Big (p_quoteBuyAmount p),
      ap_interactions = map (\<lambda>i. \<lparr>ai_target = i_target i, ai_value = Big (i_value i), ai_callData = i_callData i\<rparr>) (p_interactions p),
      ap_interactionsHash = p_interactionsHash p, ap_validUntil = Big (p_validUntil p), ap_nonce = Big (p_nonce p),
      ap_signature = p_signature p\<rparr>"

fun jsKind :: "audit_kind \<Rightarrow> js_audit_kind" where
  "jsKind (Received p) = JsReceived (auditProposal p)"
| "jsKind (NonceConflict i sub uid fingerprint) = JsNonceConflict i sub uid fingerprint"
| "jsKind (CancelledEvent i sub uid) = JsCancelled i sub uid"
| "jsKind (StatusChanged i sub uid from_status to_status reason hash) = JsStatusChanged i sub uid from_status to_status reason hash"
| "jsKind (Penalized i sub uid amount settlementHash penaltyHash) = JsPenalized i sub uid (Big amount) settlementHash penaltyHash"
| "jsKind (NonSettlementDebited i sub uid amount penaltyHash) = JsNonSettlementDebited i sub uid (Big amount) penaltyHash"
| "jsKind (BufferDebited sub amount clearHash count) = JsBufferDebited sub (Big amount) clearHash count"
| "jsKind (DriverNotified i sub uid kind) = JsDriverNotified i sub uid kind"

section \<open>Rows\<close>

definition changedType :: "status \<Rightarrow> string" where
  "changedType to_status =
     (case to_status of
        Rejected \<Rightarrow> ''rejected'' | SimFailed \<Rightarrow> ''sim_failed'' | Settled \<Rightarrow> ''settled'' | SettleFailed \<Rightarrow> ''settle_failed''
      | Cancelled \<Rightarrow> ''cancelled'' | Submitted \<Rightarrow> ''resubmitted'' | Lost \<Rightarrow> ''lost'' | CandidateStatus \<Rightarrow> ''status_changed'')"

fun eventType :: "js_audit_kind \<Rightarrow> string" where
  "eventType (JsReceived _) = ''received''"
| "eventType (JsNonceConflict _ _ _ _) = ''nonce_conflict''"
| "eventType (JsCancelled _ _ _) = ''cancelled''"
| "eventType (JsPenalized _ _ _ _ _ _) = ''penalized''"
| "eventType (JsNonSettlementDebited _ _ _ _ _) = ''non_settlement_debited''"
| "eventType (JsBufferDebited _ _ _ _) = ''buffer_debited''"
| "eventType (JsDriverNotified _ _ _ _) = ''driver_notified''"
| "eventType (JsStatusChanged _ _ _ _ to_status _ _) = changedType to_status"

fun auditPayload :: "js_audit_kind \<Rightarrow> json" where
  "auditPayload (JsReceived p) = JObj
     [(''id'', JNum (ap_id p)), (''subSolver'', JStr (ap_subSolver p)), (''orderUid'', JStr (ap_orderUid p)),
      (''orderUidHash'', JStr (ap_orderUidHash p)), (''sellAmount'', JStr (amount_text (ap_sellAmount p))),
      (''minBuyAmount'', JStr (amount_text (ap_minBuyAmount p))), (''quoteBuyAmount'', JStr (amount_text (ap_quoteBuyAmount p))),
      (''interactions'', JArr (map (\<lambda>i. JObj [(''target'', JStr (ai_target i)), (''value'', JStr (amount_text (ai_value i))),
         (''callData'', JStr (ai_callData i))]) (ap_interactions p))),
      (''interactionsHash'', JStr (ap_interactionsHash p)), (''validUntil'', JStr (amount_text (ap_validUntil p))),
      (''nonce'', JStr (amount_text (ap_nonce p))), (''signature'', JStr (ap_signature p))]"
| "auditPayload (JsNonceConflict _ _ _ fingerprint) = JObj [(''incomingFingerprint'', JStr fingerprint)]"
| "auditPayload (JsCancelled _ _ _) = JObj []"
| "auditPayload (JsStatusChanged _ _ _ from_status to_status reason hash) = JObj
     ([(''from'', JStr (status_name from_status)), (''to'', JStr (status_name to_status))] @
      (case reason of None \<Rightarrow> [] | Some r \<Rightarrow> [(''rejectionReason'', JStr (reason_name r))]) @
      (if falsy hash then [] else [(''settlementTxHash'', JStr (the hash))]))"
| "auditPayload (JsPenalized _ _ _ amount settlementHash penaltyHash) = JObj
     [(''amount'', JStr (amount_text amount)), (''settlementTxHash'', opt_str settlementHash), (''penaltyTxHash'', JStr penaltyHash)]"
| "auditPayload (JsNonSettlementDebited _ _ _ amount penaltyHash) = JObj
     [(''amount'', JStr (amount_text amount)), (''penaltyTxHash'', JStr penaltyHash)]"
| "auditPayload (JsBufferDebited _ amount clearHash count) = JObj
     [(''amount'', JStr (amount_text amount)), (''clearTxHash'', JStr clearHash), (''entryCount'', JNum count)]"
| "auditPayload (JsDriverNotified _ _ _ kind) = JObj [(''kind'', JStr kind)]"

record audit_row =
  w_proposalId :: int
  w_eventType :: string
  w_subSolver :: string
  w_orderUid :: string
  w_settlementTxHash :: "string option"
  w_payload :: json
  w_occurredAt :: int

text \<open>The columns \<open>insertAuditEvent\<close> derives from the kind: proposal, sub-solver, order and settlement.\<close>

fun auditColumns :: "js_audit_kind \<Rightarrow> int \<times> string \<times> string \<times> string option" where
  "auditColumns (JsReceived p) = (ap_id p, lower (ap_subSolver p), lower (ap_orderUid p), None)"
| "auditColumns (JsNonceConflict i sub uid _) = (i, lower sub, lower uid, None)"
| "auditColumns (JsCancelled i sub uid) = (i, lower sub, lower uid, None)"
| "auditColumns (JsDriverNotified i sub uid _) = (i, lower sub, lower uid, None)"
| "auditColumns (JsStatusChanged i sub uid _ _ _ hash) = (i, lower sub, lower uid, map_option lower hash)"
| "auditColumns (JsPenalized i sub uid _ hash _) = (i, lower sub, lower uid, map_option lower hash)"
| "auditColumns (JsNonSettlementDebited i sub uid _ _) = (i, lower sub, lower uid, None)"
| "auditColumns (JsBufferDebited sub _ _ _) = (0, lower sub, [], None)"

definition insertAuditEvent :: "int \<times> js_audit_kind \<Rightarrow> audit_row list \<Rightarrow> audit_row list" where
  "insertAuditEvent event rows =
     (case event of (occurredAt, kind) \<Rightarrow>
        (case auditColumns kind of (i, sub, uid, hash) \<Rightarrow>
           rows @ [\<lparr>w_proposalId = i, w_eventType = eventType kind, w_subSolver = sub, w_orderUid = uid,
             w_settlementTxHash = hash, w_payload = auditPayload kind, w_occurredAt = occurredAt\<rparr>]))"

section \<open>The queue\<close>

fun queuedAmount :: "js_amount \<Rightarrow> js_amount" where
  "queuedAmount (Big i) = Text (bigint_str i)"
| "queuedAmount (Text s) = Text s"

definition queuedProposal :: "audit_proposal \<Rightarrow> audit_proposal" where
  "queuedProposal p = p
     \<lparr>ap_sellAmount := queuedAmount (ap_sellAmount p), ap_minBuyAmount := queuedAmount (ap_minBuyAmount p),
      ap_quoteBuyAmount := queuedAmount (ap_quoteBuyAmount p), ap_validUntil := queuedAmount (ap_validUntil p),
      ap_nonce := queuedAmount (ap_nonce p),
      ap_interactions := map (\<lambda>i. i\<lparr>ai_value := queuedAmount (ai_value i)\<rparr>) (ap_interactions p)\<rparr>"

fun serializeAuditKind :: "js_audit_kind \<Rightarrow> js_audit_kind" where
  "serializeAuditKind (JsReceived p) = JsReceived (queuedProposal p)"
| "serializeAuditKind (JsPenalized i sub uid amount hash penaltyHash) = JsPenalized i sub uid (queuedAmount amount) hash penaltyHash"
| "serializeAuditKind (JsNonSettlementDebited i sub uid amount penaltyHash) = JsNonSettlementDebited i sub uid (queuedAmount amount) penaltyHash"
| "serializeAuditKind (JsBufferDebited sub amount clearHash count) = JsBufferDebited sub (queuedAmount amount) clearHash count"
| "serializeAuditKind kind = kind"

text \<open>What is enqueued, and the worker's job on it; \<open>parseDate\<close> is \<open>new Date\<close> of an ISO string.\<close>

definition enqueueAuditEvent :: "int \<times> js_audit_kind \<Rightarrow> string \<times> js_audit_kind" where
  "enqueueAuditEvent event = (toISOString (fst event), serializeAuditKind (snd event))"

definition auditJob :: "(string \<Rightarrow> int) \<Rightarrow> string \<times> js_audit_kind \<Rightarrow> audit_row list \<Rightarrow> audit_row list" where
  "auditJob parseDate data rows = insertAuditEvent (parseDate (fst data), snd data) rows"

lemma queuedAmount_text [simp]: "amount_text (queuedAmount a) = amount_text a"
  by (cases a) simp_all

lemma no_bigint_queued: "queuedAmount a \<noteq> Big i"
  by (cases a) simp_all

lemma serialize_keeps_row:
  "auditColumns (serializeAuditKind k) = auditColumns k" "eventType (serializeAuditKind k) = eventType k"
  "auditPayload (serializeAuditKind k) = auditPayload k"
  by (cases k; simp add: queuedProposal_def comp_def)+



end
