(* ===== verification/Subsolver_Core.thy ===== *)
theory Subsolver_Core
  imports Ingestion
begin

text \<open>
  The client side every sub-solver shares (\<open>packages/subsolver-core/src\<close>): the request budget
  (\<open>request-budget.ts\<close>), turning orders into ranked candidates (\<open>polling.ts\<close>), quoting a batch with
  bounded concurrency (\<open>provider.ts\<close>), signing a route (\<open>proposal.ts\<close>) and the API client
  (\<open>byos-client.ts\<close>).

  The lemmas bound what is sent in any minute, show that a batch is quoted completely and each order once
  under every schedule of the workers, and follow a proposal from the route to the server's validation.
\<close>

section \<open>Sorting with a comparator\<close>

text \<open>
  \<open>Array.prototype.sort\<close> is stable; for a comparator that is a total preorder its result is the one of
  the stable insertion below.
\<close>

fun insort_cmp :: "('a \<Rightarrow> 'a \<Rightarrow> int) \<Rightarrow> 'a \<Rightarrow> 'a list \<Rightarrow> 'a list" where
  "insort_cmp cmp x [] = [x]"
| "insort_cmp cmp x (y # ys) = (if cmp x y \<le> 0 then x # y # ys else y # insort_cmp cmp x ys)"

definition js_sort :: "('a \<Rightarrow> 'a \<Rightarrow> int) \<Rightarrow> 'a list \<Rightarrow> 'a list" where
  "js_sort cmp xs = foldr (insort_cmp cmp) xs []"

lemma set_insort_cmp [simp]: "set (insort_cmp cmp x xs) = insert x (set xs)"
  by (induction xs) auto

lemma mset_insort_cmp [simp]: "mset (insort_cmp cmp x xs) = add_mset x (mset xs)"
  by (induction xs) auto

lemma mset_js_sort [simp]: "mset (js_sort cmp xs) = mset xs"
  by (induction xs) (simp_all add: js_sort_def)

lemma set_js_sort [simp]: "set (js_sort cmp xs) = set xs"
  using mset_js_sort [of cmp xs] by (metis set_mset_mset)

lemma length_js_sort [simp]: "length (js_sort cmp xs) = length xs"
  using mset_js_sort [of cmp xs] by (metis size_mset)

text \<open>What a comparator owes \<open>sort\<close>, and what it gets.\<close>

locale comparator =
  fixes cmp :: "'a \<Rightarrow> 'a \<Rightarrow> int"
  assumes cmp_total: "cmp x y \<le> 0 \<or> cmp y x \<le> 0"
    and cmp_trans: "cmp x y \<le> 0 \<Longrightarrow> cmp y z \<le> 0 \<Longrightarrow> cmp x z \<le> 0"
begin

abbreviation le :: "'a \<Rightarrow> 'a \<Rightarrow> bool" where
  "le x y \<equiv> cmp x y \<le> 0"

lemma insort_sorted: "sorted_wrt le ys \<Longrightarrow> sorted_wrt le (insort_cmp cmp x ys)"
proof (induction ys)
  case (Cons y ys)
  show ?case
  proof (cases "cmp x y \<le> 0")
    case True
    then show ?thesis using Cons.prems cmp_trans by fastforce
  next
    case False
    then have "cmp y x \<le> 0" using cmp_total by blast
    then show ?thesis using Cons False by auto
  qed
qed simp

lemma sort_sorted: "sorted_wrt le (js_sort cmp xs)"
  by (induction xs) (simp_all add: js_sort_def insort_sorted)

lemma insort_filter:
  assumes "sorted_wrt le ys" "\<And>a b. P a \<Longrightarrow> P b \<Longrightarrow> cmp a b \<le> 0"
  shows "filter P (insort_cmp cmp x ys) = (if P x then x # filter P ys else filter P ys)"
  using assms(1)
proof (induction ys)
  case (Cons y ys)
  show ?case
  proof (cases "cmp x y \<le> 0")
    case False
    then have "\<not> (P x \<and> P y)" using assms(2) by blast
    then show ?thesis using Cons False by auto
  qed simp
qed simp

text \<open>Stability: elements the comparator does not distinguish keep their order.\<close>

lemma sort_stable:
  assumes "\<And>a b. P a \<Longrightarrow> P b \<Longrightarrow> cmp a b \<le> 0"
  shows "filter P (js_sort cmp xs) = filter P xs"
proof (induction xs)
  case (Cons x xs)
  have "filter P (insort_cmp cmp x (js_sort cmp xs)) = (if P x then x # filter P (js_sort cmp xs) else filter P (js_sort cmp xs))"
    by (rule insort_filter [OF sort_sorted assms])
  then show ?case using Cons by (simp add: js_sort_def)
qed (simp add: js_sort_def)

end

section \<open>The request budget\<close>

text \<open>
  \<open>RequestBudget\<close>. \<open>consume*\<close> reads the clock twice, for the pruning (\<open>t0\<close>) and for the entry it adds
  (\<open>t1\<close>).
\<close>

record request_budget =
  rb_timestamps :: "int list"
  rb_limit :: int
  rb_reserve :: int

definition prune :: "int \<Rightarrow> request_budget \<Rightarrow> request_budget" where
  "prune now b = b\<lparr>rb_timestamps := filter (\<lambda>timestamp. timestamp > now - 60000) (rb_timestamps b)\<rparr>"

definition canSubmit :: "int \<Rightarrow> request_budget \<Rightarrow> bool \<times> request_budget" where
  "canSubmit now b = (let b' = prune now b in (int (length (rb_timestamps b')) < rb_limit b' - rb_reserve b', b'))"

definition canRead :: "int \<Rightarrow> request_budget \<Rightarrow> bool \<times> request_budget" where
  "canRead now b = (let b' = prune now b in (int (length (rb_timestamps b')) < rb_limit b', b'))"

definition pushed :: "int \<Rightarrow> bool \<times> request_budget \<Rightarrow> bool \<times> request_budget" where
  "pushed t r = (case r of (ok, b) \<Rightarrow> if \<not> ok then (False, b) else (True, b\<lparr>rb_timestamps := rb_timestamps b @ [t]\<rparr>))"

definition consumeSubmission :: "int \<Rightarrow> int \<Rightarrow> request_budget \<Rightarrow> bool \<times> request_budget" where
  "consumeSubmission t0 t1 b = pushed t1 (canSubmit t0 b)"

definition consumeRead :: "int \<Rightarrow> int \<Rightarrow> request_budget \<Rightarrow> bool \<times> request_budget" where
  "consumeRead t0 t1 b = pushed t1 (canRead t0 b)"

datatype budget_call = Submission int int | StateRead int int

fun call_times :: "budget_call \<Rightarrow> int list" where
  "call_times (Submission t0 t1) = [t0, t1]"
| "call_times (StateRead t0 t1) = [t0, t1]"

text \<open>A run of calls; the log holds what was granted, a submission as \<open>True\<close>, with the time of its entry.\<close>

fun budget_call_step :: "budget_call \<Rightarrow> (bool \<times> int) list \<times> request_budget \<Rightarrow> (bool \<times> int) list \<times> request_budget" where
  "budget_call_step (Submission t0 t1) (granted, b) =
     (case consumeSubmission t0 t1 b of (ok, b') \<Rightarrow> (if ok then granted @ [(True, t1)] else granted, b'))"
| "budget_call_step (StateRead t0 t1) (granted, b) =
     (case consumeRead t0 t1 b of (ok, b') \<Rightarrow> (if ok then granted @ [(False, t1)] else granted, b'))"

definition runBudget :: "budget_call list \<Rightarrow> request_budget \<Rightarrow> (bool \<times> int) list \<times> request_budget" where
  "runBudget calls b = fold budget_call_step calls ([], b)"

definition in_minute :: "int \<Rightarrow> (bool \<times> int) list \<Rightarrow> (bool \<times> int) list" where
  "in_minute w granted = filter (\<lambda>(_, t). w < t \<and> t \<le> w + 60000) granted"

text \<open>What holds of the log: a granted entry found room among the entries of the minute before it.\<close>

definition minute_room :: "int \<Rightarrow> int \<Rightarrow> (bool \<times> int) list \<Rightarrow> bool" where
  "minute_room cap res granted \<longleftrightarrow>
     (\<forall>i < length granted. int (length (filter (\<lambda>(_, u). snd (granted ! i) - 60000 < u) (take i granted)))
        < (if fst (granted ! i) then cap - res else cap))"

definition budget_inv :: "int \<Rightarrow> int \<Rightarrow> int \<Rightarrow> (bool \<times> int) list \<times> request_budget \<Rightarrow> bool" where
  "budget_inv cap res now s \<longleftrightarrow>
     (case s of (granted, b) \<Rightarrow>
        rb_limit b = cap \<and> rb_reserve b = res \<and> sorted (map snd granted) \<and> (\<forall>(_, t) \<in> set granted. t \<le> now) \<and>
        (\<exists>c \<le> now - 60000. rb_timestamps b = filter (\<lambda>t. c < t) (map snd granted)) \<and> minute_room cap res granted)"

lemma budget_inv_later: "budget_inv cap res now s \<Longrightarrow> now \<le> now' \<Longrightarrow> budget_inv cap res now' s"
proof -
  assume inv: "budget_inv cap res now s" and le: "now \<le> now'"
  obtain granted b where s: "s = (granted, b)" by (cases s)
  obtain c where "c \<le> now - 60000" "rb_timestamps b = filter (\<lambda>t. c < t) (map snd granted)"
    using inv by (auto simp: budget_inv_def s)
  then have "\<exists>c \<le> now' - 60000. rb_timestamps b = filter (\<lambda>t. c < t) (map snd granted)"
    using le by (intro exI [of _ c]) simp
  moreover have "\<forall>(_, t) \<in> set granted. t \<le> now'" using inv le by (force simp: budget_inv_def s)
  ultimately show "budget_inv cap res now' s" using inv by (simp add: budget_inv_def s)
qed

lemma minute_room_snoc:
  "minute_room cap res (granted @ [(k, t)]) \<longleftrightarrow>
     minute_room cap res granted \<and> int (length (filter (\<lambda>(_, u). t - 60000 < u) granted)) < (if k then cap - res else cap)"
  by (auto simp: minute_room_def nth_append less_Suc_eq)

lemma minute_room_split:
  "minute_room cap res (pre @ (k, t) # post) \<Longrightarrow>
     int (length (filter (\<lambda>(_, u). t - 60000 < u) pre)) < (if k then cap - res else cap)"
  unfolding minute_room_def by (drule spec [of _ "length pre"]) (auto simp: nth_append)

lemma length_filter_le_filter: "(\<And>x. x \<in> set xs \<Longrightarrow> P x \<Longrightarrow> Q x) \<Longrightarrow> length (filter P xs) \<le> length (filter Q xs)"
  by (induction xs) (auto intro: le_SucI)

lemma prune_inv:
  assumes "budget_inv cap res now (granted, b)" "now \<le> t0"
  shows "rb_timestamps (prune t0 b) = filter (\<lambda>t. t0 - 60000 < t) (map snd granted)"
    "rb_limit (prune t0 b) = cap" "rb_reserve (prune t0 b) = res" "budget_inv cap res t0 (granted, prune t0 b)"
proof -
  obtain c where c: "c \<le> now - 60000" "rb_timestamps b = filter (\<lambda>t. c < t) (map snd granted)"
    using assms(1) by (auto simp: budget_inv_def)
  then show ts: "rb_timestamps (prune t0 b) = filter (\<lambda>t. t0 - 60000 < t) (map snd granted)"
    using assms(2) by (auto simp: prune_def intro!: filter_cong)
  show "rb_limit (prune t0 b) = cap" "rb_reserve (prune t0 b) = res"
    using assms(1) by (auto simp: budget_inv_def prune_def)
  then show "budget_inv cap res t0 (granted, prune t0 b)"
    using assms ts by (force simp: budget_inv_def)
qed

lemma push_inv:
  assumes inv: "budget_inv cap res t0 (granted, b)" and le: "t0 \<le> t1"
    and ts: "rb_timestamps b = filter (\<lambda>t. t0 - 60000 < t) (map snd granted)"
    and room: "int (length (rb_timestamps b)) < (if k then cap - res else cap)"
  shows "budget_inv cap res t1 (granted @ [(k, t1)], b\<lparr>rb_timestamps := rb_timestamps b @ [t1]\<rparr>)"
proof -
  have "length (filter (\<lambda>(_, u). t1 - 60000 < u) granted) \<le> length (rb_timestamps b)"
  proof -
    have "length (filter (\<lambda>(_, u). t1 - 60000 < u) granted) = length (filter (\<lambda>t. t1 - 60000 < t) (map snd granted))"
      by (simp add: filter_map comp_def case_prod_beta')
    also have "filter (\<lambda>t. t1 - 60000 < t) (map snd granted) = filter (\<lambda>t. t1 - 60000 < t) (rb_timestamps b)"
      using le unfolding ts by (auto intro!: filter_cong)
    finally show ?thesis using length_filter_le by metis
  qed
  then have room': "minute_room cap res (granted @ [(k, t1)])"
    using inv room by (auto simp: minute_room_snoc budget_inv_def)
  have srt: "sorted (map snd (granted @ [(k, t1)]))" "\<forall>(_, t) \<in> set (granted @ [(k, t1)]). t \<le> t1"
    using inv le by (force simp: budget_inv_def sorted_append)+
  have "rb_timestamps b @ [t1] = filter (\<lambda>t. t0 - 60000 < t) (map snd (granted @ [(k, t1)]))"
    using le by (simp add: ts)
  then have "\<exists>c \<le> t1 - 60000. rb_timestamps b @ [t1] = filter (\<lambda>t. c < t) (map snd (granted @ [(k, t1)]))"
    using le by (intro exI [of _ "t0 - 60000"]) simp
  then show ?thesis using inv room' srt unfolding budget_inv_def by simp
qed

lemma budget_step_inv:
  assumes "budget_inv cap res now s" "now \<le> t0" "t0 \<le> t1" "call_times c = [t0, t1]"
  shows "budget_inv cap res t1 (budget_call_step c s)"
proof -
  obtain granted b where s: "s = (granted, b)" by (cases s)
  note p = prune_inv [OF assms(1) [unfolded s] assms(2)]
  have later: "budget_inv cap res t1 (granted, prune t0 b)"
    using p(4) assms(3) by (rule budget_inv_later)
  show ?thesis
  proof (cases c)
    case (Submission x y)
    then show ?thesis using assms(4) push_inv [OF p(4) assms(3) p(1), of True] later
      by (auto simp: s consumeSubmission_def canSubmit_def pushed_def Let_def p(2,3))
  next
    case (StateRead x y)
    then show ?thesis using assms(4) push_inv [OF p(4) assms(3) p(1), of False] later
      by (auto simp: s consumeRead_def canRead_def pushed_def Let_def p(2,3))
  qed
qed

lemma budget_fold_inv:
  assumes "budget_inv cap res now s" "sorted (now # concat (map call_times calls))"
  shows "\<exists>now'. budget_inv cap res now' (fold budget_call_step calls s)"
  using assms
proof (induction calls arbitrary: s now)
  case (Cons c calls)
  obtain t0 t1 where c: "call_times c = [t0, t1]" by (cases c) auto
  with Cons.prems have "now \<le> t0" "t0 \<le> t1" "sorted (t1 # concat (map call_times calls))" by auto
  then show ?case using Cons.IH [OF budget_step_inv [OF Cons.prems(1) _ _ c]] by simp
qed auto

lemma in_minute_prefix:
  assumes "minute_room cap res (pre @ (k, t) # post)" "w < t" "t \<le> w + 60000"
  shows "int (length (in_minute w (pre @ [(k, t)]))) \<le> (if k then cap - res else cap)"
proof -
  have "length (in_minute w pre) \<le> length (filter (\<lambda>(_, u). t - 60000 < u) pre)"
    unfolding in_minute_def using assms(3) by (intro length_filter_le_filter) auto
  moreover have "int (length (filter (\<lambda>(_, u). t - 60000 < u) pre)) < (if k then cap - res else cap)"
    using assms(1) by (rule minute_room_split)
  ultimately show ?thesis using assms(2,3) by (simp add: in_minute_def split: if_splits)
qed

lemma in_minute_bound:
  assumes "minute_room cap res granted" "0 \<le> res" "0 \<le> cap"
  shows "int (length (in_minute w granted)) \<le> cap"
  using assms
proof (induction granted rule: rev_induct)
  case (snoc x granted)
  obtain k t where x: "x = (k, t)" by (cases x)
  show ?case
  proof (cases "w < t \<and> t \<le> w + 60000")
    case True
    then show ?thesis using in_minute_prefix [of cap res granted k t "[]" w] snoc.prems by (auto simp: x split: if_splits)
  next
    case False
    then have "in_minute w (granted @ [x]) = in_minute w granted" by (auto simp: x in_minute_def)
    then show ?thesis using snoc by (auto simp: x minute_room_snoc)
  qed
qed (simp add: in_minute_def)

text \<open>
  C17. In every minute at most \<open>limit\<close> requests are granted, and whenever a submission is granted at
  most \<open>limit - reserve\<close> requests fall in the minute that ends with it or any minute around it up to then:
  the reserve is always left for state reads. This holds for every run of calls whose clock does not go back.
\<close>

theorem request_budget_respected:
  assumes calls: "sorted (concat (map call_times calls))" and "0 \<le> res" "0 \<le> cap"
    and run: "fst (runBudget calls \<lparr>rb_timestamps = [], rb_limit = cap, rb_reserve = res\<rparr>) = granted"
  shows "int (length (in_minute w granted)) \<le> cap \<and>
    (\<forall>pre t post. granted = pre @ (True, t) # post \<longrightarrow> w < t \<and> t \<le> w + 60000 \<longrightarrow>
       int (length (in_minute w (pre @ [(True, t)]))) \<le> cap - res)"
proof -
  let ?b = "\<lparr>rb_timestamps = [], rb_limit = cap, rb_reserve = res\<rparr>"
  have "\<exists>now. budget_inv cap res now ([], ?b) \<and> sorted (now # concat (map call_times calls))"
  proof (cases "concat (map call_times calls)")
    case Nil
    show ?thesis by (rule exI [of _ 0]) (auto simp: Nil budget_inv_def minute_room_def)
  next
    case (Cons t ts)
    show ?thesis using calls by (intro exI [of _ t]) (auto simp: Cons budget_inv_def minute_room_def)
  qed
  then obtain now' where "budget_inv cap res now' (runBudget calls ?b)"
    using budget_fold_inv unfolding runBudget_def by blast
  then have room: "minute_room cap res granted"
    using run by (auto simp: budget_inv_def)
  have "int (length (in_minute w (pre @ [(True, t)]))) \<le> cap - res"
    if "granted = pre @ (True, t) # post" "w < t" "t \<le> w + 60000" for pre t post
    using in_minute_prefix [of cap res pre True t post w] room that by simp
  then show ?thesis using in_minute_bound [OF room assms(2,3)] by blast
qed

theorem request_budget_respected_witness:
  "int (length (in_minute 0 (fst (runBudget [StateRead 1 1, Submission 1 2, Submission 3 3, StateRead 4 5]
     \<lparr>rb_timestamps = [], rb_limit = 2, rb_reserve = 1\<rparr>)))) \<le> 2"
  using request_budget_respected [of "[StateRead 1 1, Submission 1 2, Submission 3 3, StateRead 4 5]" 1 2 _ 0, OF _ _ _ refl]
  by simp

section \<open>Candidates\<close>

record poll_order =
  po_uid :: string
  po_chainId :: int
  po_sellToken :: string
  po_buyToken :: string
  po_fullSellAmount :: int
  po_fullBuyAmount :: int
  po_executedSellAmount :: int
  po_estimatedNativeSurplus :: "int option"

record candidate_order =
  co_uid :: string
  co_chainId :: int
  co_sellToken :: string
  co_buyToken :: string
  co_remainingSell :: int
  co_scaledLimitBuy :: int

record ranked_candidate =
  rk_candidate :: candidate_order
  rk_estimatedNativeSurplus :: int
  rk_needsSubmission :: bool

text \<open>The module's \<open>ceilDiv\<close>, which throws on a denominator that is not positive.\<close>

definition pollingCeilDiv :: "int \<Rightarrow> int \<Rightarrow> int option" where
  "pollingCeilDiv numerator denominator = (if denominator \<le> 0 then None else Some (ceilDiv numerator denominator))"

text \<open>\<open>None\<close> is the exception of \<open>ceilDiv\<close>, \<open>Some None\<close> the answer \<open>null\<close>.\<close>

definition toCandidateOrder :: "poll_order \<Rightarrow> candidate_order option option" where
  "toCandidateOrder ord =
     (if po_fullSellAmount ord \<le> 0 \<or> po_executedSellAmount ord < 0 then Some None
      else let remainingSell = po_fullSellAmount ord - po_executedSellAmount ord in
        if remainingSell \<le> 0 then Some None
        else map_option (\<lambda>scaled. Some \<lparr>co_uid = po_uid ord, co_chainId = po_chainId ord, co_sellToken = po_sellToken ord,
               co_buyToken = po_buyToken ord, co_remainingSell = remainingSell, co_scaledLimitBuy = scaled\<rparr>)
             (pollingCeilDiv (po_fullBuyAmount ord * remainingSell) (po_fullSellAmount ord)))"

definition rankOf :: "(string \<Rightarrow> bool) \<Rightarrow> poll_order \<Rightarrow> ranked_candidate list option" where
  "rankOf hasActiveProposal ord =
     (case toCandidateOrder ord of
        None \<Rightarrow> None
      | Some None \<Rightarrow> Some []
      | Some (Some candidate) \<Rightarrow>
          Some [\<lparr>rk_candidate = candidate,
            rk_estimatedNativeSurplus = (case po_estimatedNativeSurplus ord of None \<Rightarrow> 0 | Some v \<Rightarrow> v),
            rk_needsSubmission = (\<not> hasActiveProposal (po_uid ord))\<rparr>])"

definition rankCmp :: "ranked_candidate \<Rightarrow> ranked_candidate \<Rightarrow> int" where
  "rankCmp a b =
     (if rk_needsSubmission a \<noteq> rk_needsSubmission b then (if rk_needsSubmission a then -1 else 1)
      else if rk_estimatedNativeSurplus a = rk_estimatedNativeSurplus b then 0
      else if rk_estimatedNativeSurplus a > rk_estimatedNativeSurplus b then -1 else 1)"

definition prioritizeCandidates :: "(string \<Rightarrow> bool) \<Rightarrow> poll_order list \<Rightarrow> ranked_candidate list option" where
  "prioritizeCandidates hasActiveProposal orders =
     map_option (\<lambda>rs. js_sort rankCmp (concat rs)) (those (map (rankOf hasActiveProposal) orders))"

interpretation rank: comparator rankCmp
  by unfold_locales (auto simp: rankCmp_def split: if_splits)

lemma toCandidateOrder_cases:
  "toCandidateOrder ord =
     (if 0 < po_fullSellAmount ord \<and> 0 \<le> po_executedSellAmount ord \<and> po_executedSellAmount ord < po_fullSellAmount ord
      then Some (Some \<lparr>co_uid = po_uid ord, co_chainId = po_chainId ord, co_sellToken = po_sellToken ord,
             co_buyToken = po_buyToken ord, co_remainingSell = po_fullSellAmount ord - po_executedSellAmount ord,
             co_scaledLimitBuy = ceilDiv (po_fullBuyAmount ord * (po_fullSellAmount ord - po_executedSellAmount ord))
               (po_fullSellAmount ord)\<rparr>)
      else Some None)"
  by (auto simp: toCandidateOrder_def pollingCeilDiv_def Let_def)

text \<open>The protected floor is the least amount at the order's limit price.\<close>

lemma candidate_floor:
  assumes "toCandidateOrder ord = Some (Some c)" "0 \<le> po_fullBuyAmount ord"
  shows "po_fullBuyAmount ord * co_remainingSell c \<le> x * po_fullSellAmount ord \<longleftrightarrow> co_scaledLimitBuy c \<le> x"
    "0 < co_remainingSell c" "co_remainingSell c \<le> po_fullSellAmount ord" "co_uid c = po_uid ord"
    "co_sellToken c = po_sellToken ord" "co_buyToken c = po_buyToken ord"
    "co_remainingSell c = po_fullSellAmount ord - po_executedSellAmount ord" "0 \<le> co_scaledLimitBuy c"
  using assms
  by (auto simp: toCandidateOrder_cases ceilDiv_le_iff zero_le_mult_iff intro!: ceilDiv_nonneg split: if_splits)

text \<open>
  The queue of a polling cycle never throws, holds exactly the orders with something left to sell, new
  proposals before refreshes and better surplus first, and keeps the auction's order among equals.
\<close>

lemma prioritizeCandidates_total:
  "prioritizeCandidates act orders =
     Some (js_sort rankCmp (concat (map (\<lambda>ord. case toCandidateOrder ord of Some (Some c) \<Rightarrow>
       [\<lparr>rk_candidate = c, rk_estimatedNativeSurplus = (case po_estimatedNativeSurplus ord of None \<Rightarrow> 0 | Some v \<Rightarrow> v),
         rk_needsSubmission = (\<not> act (po_uid ord))\<rparr>] | _ \<Rightarrow> []) orders)))"
proof -
  have "those (map (rankOf act) orders) = Some (map (\<lambda>ord. case toCandidateOrder ord of Some (Some c) \<Rightarrow>
      [\<lparr>rk_candidate = c, rk_estimatedNativeSurplus = (case po_estimatedNativeSurplus ord of None \<Rightarrow> 0 | Some v \<Rightarrow> v),
        rk_needsSubmission = (\<not> act (po_uid ord))\<rparr>] | _ \<Rightarrow> []) orders)"
    by (induction orders) (auto simp: rankOf_def toCandidateOrder_cases)
  then show ?thesis by (simp add: prioritizeCandidates_def)
qed

lemma candidate_queue_ranked:
  assumes "prioritizeCandidates act orders = Some q"
  shows "mset (map (co_uid \<circ> rk_candidate) q) =
      mset (map po_uid (filter (\<lambda>ord. 0 < po_fullSellAmount ord \<and> 0 \<le> po_executedSellAmount ord \<and>
        po_executedSellAmount ord < po_fullSellAmount ord) orders))"
    "sorted_wrt (\<lambda>a b. (rk_needsSubmission b \<longrightarrow> rk_needsSubmission a) \<and>
      (rk_needsSubmission a = rk_needsSubmission b \<longrightarrow> rk_estimatedNativeSurplus b \<le> rk_estimatedNativeSurplus a)) q"
    "r \<in> set q \<Longrightarrow> rk_needsSubmission r = (\<not> act (co_uid (rk_candidate r)))"
proof -
  let ?one = "\<lambda>ord. case toCandidateOrder ord of Some (Some c) \<Rightarrow>
      [\<lparr>rk_candidate = c, rk_estimatedNativeSurplus = (case po_estimatedNativeSurplus ord of None \<Rightarrow> 0 | Some v \<Rightarrow> v),
        rk_needsSubmission = (\<not> act (po_uid ord))\<rparr>] | _ \<Rightarrow> []"
  have q: "q = js_sort rankCmp (concat (map ?one orders))"
    using assms by (simp add: prioritizeCandidates_total)
  have perm: "mset (map (co_uid \<circ> rk_candidate) q) = mset (map (co_uid \<circ> rk_candidate) (concat (map ?one orders)))"
    unfolding q mset_map mset_js_sort by (rule refl)
  have "map (co_uid \<circ> rk_candidate) (concat (map ?one orders)) =
      map po_uid (filter (\<lambda>ord. 0 < po_fullSellAmount ord \<and> 0 \<le> po_executedSellAmount ord \<and>
        po_executedSellAmount ord < po_fullSellAmount ord) orders)"
    by (induction orders) (auto simp: toCandidateOrder_cases)
  then show "mset (map (co_uid \<circ> rk_candidate) q) = mset (map po_uid (filter (\<lambda>ord. 0 < po_fullSellAmount ord \<and>
      0 \<le> po_executedSellAmount ord \<and> po_executedSellAmount ord < po_fullSellAmount ord) orders))"
    unfolding perm by (rule arg_cong)
  have "sorted_wrt (\<lambda>a b. rankCmp a b \<le> 0) q" unfolding q by (rule rank.sort_sorted)
  then show "sorted_wrt (\<lambda>a b. (rk_needsSubmission b \<longrightarrow> rk_needsSubmission a) \<and>
      (rk_needsSubmission a = rk_needsSubmission b \<longrightarrow> rk_estimatedNativeSurplus b \<le> rk_estimatedNativeSurplus a)) q"
    by (rule sorted_wrt_mono_rel [rotated]) (simp add: rankCmp_def split: if_splits)
  show "r \<in> set q \<Longrightarrow> rk_needsSubmission r = (\<not> act (co_uid (rk_candidate r)))"
  proof -
    assume "r \<in> set q"
    then obtain ord where "r \<in> set (?one ord)" unfolding q by auto
    then show ?thesis by (cases "po_estimatedNativeSurplus ord") (simp_all add: toCandidateOrder_cases split: if_splits)
  qed
qed

section \<open>Quoting a batch\<close>

record provider_route =
  pr_quoteBuyAmount :: int
  pr_minBuyAmount :: int
  pr_interactions :: "interaction list"

definition exampleCandidate :: candidate_order where
  "exampleCandidate = \<lparr>co_uid = exampleUid, co_chainId = 100, co_sellToken = exampleToken CHR ''a'',
     co_buyToken = exampleToken CHR ''b'', co_remainingSell = 50, co_scaledLimitBuy = 15\<rparr>"

text \<open>How a call to the provider settles: a route or \<open>null\<close>, or an error.\<close>

datatype quote_outcome = Quoted "provider_route option" | QuoteFailed string

record quote_result =
  qr_order :: candidate_order
  qr_route :: "provider_route option"
  qr_error :: "string option"

definition resultOf :: "candidate_order \<Rightarrow> quote_outcome \<Rightarrow> quote_result" where
  "resultOf ord outcome =
     (case outcome of
        Quoted route \<Rightarrow> \<lparr>qr_order = ord, qr_route = route, qr_error = None\<rparr>
      | QuoteFailed e \<Rightarrow> \<lparr>qr_order = ord, qr_route = None, qr_error = Some e\<rparr>)"

text \<open>
  The workers of \<open>quoteBatch\<close> share the cursor and the results. A worker is about to take an index,
  awaits the provider's answer for one, or has returned. \<open>qb_calls\<close> records the calls to the provider.
\<close>

datatype quote_worker = Taking | Awaiting nat | Returned

record quote_batch =
  qb_cursor :: nat
  qb_results :: "quote_result option list"
  qb_workers :: "quote_worker list"
  qb_calls :: "nat list"

text \<open>The start, \<open>None\<close> when the concurrency is no positive integer.\<close>

definition quoteBatch :: "candidate_order list \<Rightarrow> int option \<Rightarrow> quote_batch option" where
  "quoteBatch orders concurrency =
     (case concurrency of
        None \<Rightarrow> None
      | Some c \<Rightarrow>
          if c < 1 then None
          else Some \<lparr>qb_cursor = 0, qb_results = replicate (length orders) None,
            qb_workers = replicate (min (nat c) (length orders)) Taking, qb_calls = []\<rparr>)"

text \<open>One step of one worker; \<open>answer i\<close> is how the call for the order at \<open>i\<close> settles.\<close>

inductive quote_step :: "candidate_order list \<Rightarrow> (nat \<Rightarrow> quote_outcome) \<Rightarrow> quote_batch \<Rightarrow> quote_batch \<Rightarrow> bool"
  for orders :: "candidate_order list" and answer :: "nat \<Rightarrow> quote_outcome" where
  take_order: "w < length (qb_workers b) \<Longrightarrow> qb_workers b ! w = Taking \<Longrightarrow> qb_cursor b < length orders \<Longrightarrow>
    quote_step orders answer b (b\<lparr>qb_cursor := qb_cursor b + 1, qb_workers := (qb_workers b)[w := Awaiting (qb_cursor b)],
      qb_calls := qb_calls b @ [qb_cursor b]\<rparr>)"
| no_order: "w < length (qb_workers b) \<Longrightarrow> qb_workers b ! w = Taking \<Longrightarrow> \<not> qb_cursor b < length orders \<Longrightarrow>
    quote_step orders answer b (b\<lparr>qb_cursor := qb_cursor b + 1, qb_workers := (qb_workers b)[w := Returned]\<rparr>)"
| answered: "w < length (qb_workers b) \<Longrightarrow> qb_workers b ! w = Awaiting i \<Longrightarrow>
    quote_step orders answer b (b\<lparr>qb_results := (qb_results b)[i := Some (resultOf (orders ! i) (answer i))],
      qb_workers := (qb_workers b)[w := Taking]\<rparr>)"

inductive_cases quote_stepE: "quote_step orders answer b b'"

definition awaits :: "quote_worker list \<Rightarrow> nat set" where
  "awaits ws = {i. \<exists>v < length ws. ws ! v = Awaiting i}"

abbreviation awaiting :: "quote_batch \<Rightarrow> nat set" where
  "awaiting b \<equiv> awaits (qb_workers b)"

definition one_each :: "quote_worker list \<Rightarrow> bool" where
  "one_each ws \<longleftrightarrow> (\<forall>v w i. v < length ws \<longrightarrow> w < length ws \<longrightarrow> ws ! v = Awaiting i \<longrightarrow> ws ! w = Awaiting i \<longrightarrow> v = w)"

definition batch_inv :: "candidate_order list \<Rightarrow> (nat \<Rightarrow> quote_outcome) \<Rightarrow> nat \<Rightarrow> quote_batch \<Rightarrow> bool" where
  "batch_inv orders answer k b \<longleftrightarrow>
     length (qb_results b) = length orders \<and> length (qb_workers b) = k \<and> one_each (qb_workers b) \<and>
     qb_calls b = [0 ..< min (qb_cursor b) (length orders)] \<and>
     (\<forall>i \<in> awaiting b. i < min (qb_cursor b) (length orders)) \<and>
     (Returned \<in> set (qb_workers b) \<longrightarrow> length orders \<le> qb_cursor b) \<and>
     (\<forall>i < min (qb_cursor b) (length orders). i \<notin> awaiting b \<longrightarrow>
        qb_results b ! i = Some (resultOf (orders ! i) (answer i)))"

definition worker_weight :: "quote_worker \<Rightarrow> nat" where
  "worker_weight w = (case w of Taking \<Rightarrow> 1 | Awaiting _ \<Rightarrow> 2 | Returned \<Rightarrow> 0)"

definition batch_measure :: "candidate_order list \<Rightarrow> quote_batch \<Rightarrow> nat" where
  "batch_measure orders b = 2 * (length orders - qb_cursor b) + sum_list (map worker_weight (qb_workers b))"

lemma sum_list_update_nat:
  "w < length xs \<Longrightarrow> sum_list (map f (xs[w := y])) + f (xs ! w) = sum_list (map f xs) + (f y :: nat)"
  by (induction xs arbitrary: w) (auto split: nat.split)

lemma quote_step_measure:
  "quote_step orders answer b b' \<Longrightarrow> batch_measure orders b = Suc (batch_measure orders b')"
proof (induction rule: quote_step.induct)
  case (take_order w b)
  then show ?case using sum_list_update_nat [of w "qb_workers b" worker_weight "Awaiting (qb_cursor b)"]
    by (simp add: batch_measure_def worker_weight_def)
next
  case (no_order w b)
  then show ?case using sum_list_update_nat [of w "qb_workers b" worker_weight Returned]
    by (simp add: batch_measure_def worker_weight_def)
next
  case (answered w b i)
  then show ?case using sum_list_update_nat [of w "qb_workers b" worker_weight Taking]
    by (simp add: batch_measure_def worker_weight_def)
qed

lemma quote_stuck:
  "(\<nexists>b'. quote_step orders answer b b') \<longleftrightarrow> set (qb_workers b) \<subseteq> {Returned}"
proof
  assume stuck: "\<nexists>b'. quote_step orders answer b b'"
  show "set (qb_workers b) \<subseteq> {Returned}"
  proof
    fix x assume "x \<in> set (qb_workers b)"
    then obtain w where w: "w < length (qb_workers b)" "qb_workers b ! w = x" by (auto simp: in_set_conv_nth)
    then show "x \<in> {Returned}"
      using stuck quote_step.take_order [of w b orders answer] quote_step.no_order [of w b orders answer]
        quote_step.answered [of w b _ orders answer]
      by (cases x) blast+
  qed
next
  assume "set (qb_workers b) \<subseteq> {Returned}"
  then show "\<nexists>b'. quote_step orders answer b b'"
    using nth_mem [of _ "qb_workers b"] by (fastforce elim: quote_stepE)
qed

lemma awaits_update:
  assumes "w < length ws" "one_each ws"
  shows "awaits (ws[w := Awaiting j]) = insert j (awaits ws - {i. ws ! w = Awaiting i})"
    "awaits (ws[w := Taking]) = awaits ws - {i. ws ! w = Awaiting i}"
    "awaits (ws[w := Returned]) = awaits ws - {i. ws ! w = Awaiting i}"
  using assms unfolding awaits_def one_each_def by (auto simp: nth_list_update split: if_splits)

lemma one_each_update:
  assumes "w < length ws" "one_each ws"
  shows "j \<notin> awaits ws \<Longrightarrow> one_each (ws[w := Awaiting j])" "one_each (ws[w := Taking])" "one_each (ws[w := Returned])"
  using assms unfolding awaits_def one_each_def by (auto simp: nth_list_update split: if_splits)

lemma returned_update: "y \<noteq> Returned \<Longrightarrow> Returned \<in> set (ws[w := y]) \<Longrightarrow> Returned \<in> set ws"
  using set_update_subset_insert [of ws w y] by auto

lemma batch_inv_step:
  "quote_step orders answer b b' \<Longrightarrow> batch_inv orders answer k b \<Longrightarrow> batch_inv orders answer k b'"
proof (induction rule: quote_step.induct)
  case (take_order w b)
  then have inv: "one_each (qb_workers b)" "qb_cursor b \<notin> awaiting b" "Returned \<notin> set (qb_workers b)"
    by (auto simp: batch_inv_def)
  note upd = awaits_update [OF take_order.hyps(1) inv(1)] one_each_update [OF take_order.hyps(1) inv(1)]
  show ?case using take_order inv returned_update [of _ "qb_workers b" w] unfolding batch_inv_def
    by (auto simp: upd less_Suc_eq min_def)
next
  case (no_order w b)
  then have inv: "one_each (qb_workers b)" by (auto simp: batch_inv_def)
  note upd = awaits_update [OF no_order.hyps(1) inv] one_each_update [OF no_order.hyps(1) inv]
  show ?case using no_order unfolding batch_inv_def by (auto simp: upd)
next
  case (answered w b i)
  then have inv: "one_each (qb_workers b)" "i \<in> awaiting b" "i < length (qb_results b)"
    by (auto simp: batch_inv_def awaits_def)
  note upd = awaits_update [OF answered.hyps(1) inv(1)] one_each_update [OF answered.hyps(1) inv(1)]
  show ?case using answered inv returned_update [of Taking "qb_workers b" w] unfolding batch_inv_def
    by (auto simp: upd nth_list_update)
qed

text \<open>The start state of a batch, and its invariant along any schedule.\<close>

lemma quoteBatch_Some:
  "quoteBatch orders conc = Some b0 \<longleftrightarrow>
     (\<exists>c \<ge> 1. conc = Some c \<and> b0 = \<lparr>qb_cursor = 0, qb_results = replicate (length orders) None,
        qb_workers = replicate (min (nat c) (length orders)) Taking, qb_calls = []\<rparr>)"
  by (auto simp: quoteBatch_def split: option.splits)

lemma batch_inv_start:
  assumes "quoteBatch orders conc = Some b0"
  shows "batch_inv orders answer (length (qb_workers b0)) b0" "batch_measure orders b0 = 2 * length orders + length (qb_workers b0)"
    "length (qb_workers b0) = 0 \<longleftrightarrow> orders = []"
  using assms
  by (auto simp: quoteBatch_Some batch_inv_def awaits_def one_each_def batch_measure_def worker_weight_def sum_list_replicate
      min_def split: if_splits)

lemma quote_run:
  assumes "(quote_step orders answer ^^ n) b0 b" "batch_inv orders answer k b0"
  shows "batch_inv orders answer k b \<and> batch_measure orders b0 = batch_measure orders b + n"
  using assms
proof (induction n arbitrary: b)
  case (Suc n)
  then obtain c where "(quote_step orders answer ^^ n) b0 c" "quote_step orders answer c b" by auto
  then show ?case using Suc batch_inv_step quote_step_measure by fastforce
qed simp

lemma batch_complete:
  assumes inv: "batch_inv orders answer k b" and over: "set (qb_workers b) \<subseteq> {Returned}" and k: "k = 0 \<Longrightarrow> orders = []"
  shows "qb_results b = map (\<lambda>i. Some (resultOf (orders ! i) (answer i))) [0 ..< length orders]"
    "qb_calls b = [0 ..< length orders]"
proof -
  have "length orders \<le> qb_cursor b"
  proof (cases "qb_workers b")
    case Nil
    then show ?thesis using inv k by (simp add: batch_inv_def)
  next
    case (Cons w ws)
    then show ?thesis using inv over by (auto simp: batch_inv_def)
  qed
  moreover have "awaiting b = {}"
    using over nth_mem by (fastforce simp: awaits_def)
  ultimately show "qb_results b = map (\<lambda>i. Some (resultOf (orders ! i) (answer i))) [0 ..< length orders]"
    "qb_calls b = [0 ..< length orders]"
    using inv by (auto simp: batch_inv_def intro!: nth_equalityI)
qed

text \<open>
  C16. Whatever the order in which the workers run and the provider answers, quoting a batch ends: every
  schedule takes exactly two steps per order and one per worker, and only then is no step left. At that point
  the provider was asked once for each order, in order, no more than \<open>concurrency\<close> answers were ever awaited,
  and the results are in the orders' order, each holding its own answer: a failed quote affects no other.
\<close>

theorem quote_batch_completes:
  assumes start: "quoteBatch orders (Some c) = Some b0" and run: "(quote_step orders answer ^^ n) b0 b"
  shows "let total = 2 * length orders + min (nat c) (length orders) in
    n \<le> total \<and> ((\<nexists>b'. quote_step orders answer b b') \<longleftrightarrow> n = total) \<and> card (awaiting b) \<le> nat c \<and>
    (n = total \<longrightarrow> qb_calls b = [0 ..< length orders] \<and>
       qb_results b = map (\<lambda>i. Some (resultOf (orders ! i) (answer i))) [0 ..< length orders])"
proof -
  let ?total = "2 * length orders + min (nat c) (length orders)"
  have k: "length (qb_workers b0) = min (nat c) (length orders)" using start by (auto simp: quoteBatch_Some)
  note st = batch_inv_start(1) [OF start, of answer] batch_inv_start(2,3) [OF start]
  note r = quote_run [OF run st(1)]
  then have total: "?total = batch_measure orders b + n" using st(2) k by simp
  have over: "batch_measure orders b = 0" if "set (qb_workers b) \<subseteq> {Returned}"
  proof -
    have "length orders \<le> qb_cursor b"
      using r that st(3) by (cases "qb_workers b") (auto simp: batch_inv_def)
    then show ?thesis using that by (auto simp: batch_measure_def worker_weight_def)
  qed
  have zero: "set (qb_workers b) \<subseteq> {Returned}" if "batch_measure orders b = 0"
  proof -
    have "worker_weight w = 0 \<longleftrightarrow> w = Returned" for w by (cases w) (simp_all add: worker_weight_def)
    then show ?thesis using that by (auto simp: batch_measure_def)
  qed
  have stuck: "(\<nexists>b'. quote_step orders answer b b') \<longleftrightarrow> n = ?total"
    using quote_stuck over zero total by (metis add_0 add_cancel_left_left)
  have "awaiting b \<subseteq> (\<lambda>w. case w of Awaiting i \<Rightarrow> i | _ \<Rightarrow> 0) ` set (qb_workers b)"
  proof
    fix i assume "i \<in> awaiting b"
    then obtain u where "u < length (qb_workers b)" "qb_workers b ! u = Awaiting i" by (auto simp: awaits_def)
    then have "Awaiting i \<in> set (qb_workers b)" using nth_mem [of u "qb_workers b"] by simp
    then show "i \<in> (\<lambda>w. case w of Awaiting i \<Rightarrow> i | _ \<Rightarrow> 0) ` set (qb_workers b)" by (rule rev_image_eqI) simp
  qed
  then have "card (awaiting b) \<le> length (qb_workers b)"
    using card_mono [of "_ ` set (qb_workers b)"] card_image_le [of "set (qb_workers b)"] card_length [of "qb_workers b"]
    by (meson List.finite_set finite_imageI le_trans)
  also have "\<dots> \<le> nat c" using r k by (simp add: batch_inv_def)
  finally have aw: "card (awaiting b) \<le> nat c" .
  show ?thesis
    unfolding Let_def
    using total stuck aw batch_complete [OF conjunct1 [OF r] zero] st(3) by auto
qed

theorem quote_batch_completes_witness:
  "\<exists>b0 b. quoteBatch [exampleCandidate] (Some 32) = Some b0 \<and> quote_step [exampleCandidate] (\<lambda>_. Quoted None) b0 b"
proof -
  obtain b0 where b0: "quoteBatch [exampleCandidate] (Some 32) = Some b0" by (simp add: quoteBatch_def)
  from quote_batch_completes [where n = 0 and b = b0 and answer = "\<lambda>_. Quoted None", OF b0]
  show ?thesis using b0 by (auto simp: Let_def)
qed

section \<open>Proposals\<close>

record proposal_order =
  px_uid :: string
  px_sellToken :: string
  px_buyToken :: string
  px_sellAmount :: int
  px_buyAmount :: int
  px_kind :: order_kind

record signed_proposal =
  sp_orderUid :: string
  sp_sellToken :: string
  sp_buyToken :: string
  sp_sellAmount :: int
  sp_minBuyAmount :: int
  sp_quoteBuyAmount :: int
  sp_interactions :: "interaction list"
  sp_validUntil :: int
  sp_nonce :: int
  sp_signature :: string

definition buildProposalFromRoute :: "sig_lib \<Rightarrow> signer \<Rightarrow> typed_domain \<Rightarrow> proposal_order \<Rightarrow> provider_route \<Rightarrow>
    int \<Rightarrow> int \<Rightarrow> signed_proposal option" where
  "buildProposalFromRoute lib sign domain ord route validUntil nonce =
     (if px_kind ord \<noteq> SELL \<or> pr_minBuyAmount route < px_buyAmount ord then None
      else let p = \<lparr>cp_orderUidHash = sg_keccak lib (px_uid ord), cp_sellToken = px_sellToken ord, cp_buyToken = px_buyToken ord,
             cp_sellAmount = px_sellAmount ord, cp_minBuyAmount = pr_minBuyAmount route,
             cp_quoteBuyAmount = pr_quoteBuyAmount route, cp_validUntil = validUntil, cp_nonce = nonce\<rparr>
        in Some \<lparr>sp_orderUid = px_uid ord, sp_sellToken = px_sellToken ord, sp_buyToken = px_buyToken ord,
             sp_sellAmount = px_sellAmount ord, sp_minBuyAmount = pr_minBuyAmount route,
             sp_quoteBuyAmount = pr_quoteBuyAmount route, sp_interactions = pr_interactions route,
             sp_validUntil = validUntil, sp_nonce = nonce,
             sp_signature = signProposal lib sign domain p (pr_interactions route)\<rparr>)"

text \<open>The order a provider's answer is turned into a proposal for: the auction's, at the part left to sell.\<close>

definition orderFor :: "candidate_order \<Rightarrow> order_kind \<Rightarrow> proposal_order" where
  "orderFor c kind = \<lparr>px_uid = co_uid c, px_sellToken = co_sellToken c, px_buyToken = co_buyToken c,
     px_sellAmount = co_remainingSell c, px_buyAmount = co_scaledLimitBuy c, px_kind = kind\<rparr>"

section \<open>The API client\<close>

definition interactionBody :: "interaction \<Rightarrow> interaction_json" where
  "interactionBody i = \<lparr>ij_target = i_target i, ij_value = bigint_str (i_value i), ij_callData = i_callData i\<rparr>"

definition submitBody :: "signed_proposal \<Rightarrow> create_request" where
  "submitBody p =
     \<lparr>cr_orderUid = sp_orderUid p, cr_sellToken = sp_sellToken p, cr_buyToken = sp_buyToken p,
      cr_sellAmount = bigint_str (sp_sellAmount p), cr_minBuyAmount = bigint_str (sp_minBuyAmount p),
      cr_quoteBuyAmount = bigint_str (sp_quoteBuyAmount p), cr_interactions = map interactionBody (sp_interactions p),
      cr_validUntil = bigint_str (sp_validUntil p), cr_nonce = bigint_str (sp_nonce p), cr_signature = sp_signature p,
      cr_subSolverAddress = None\<rparr>"

text \<open>
  An HTTP response: its status, \<open>Number\<close> of its \<open>Retry-After\<close> header (\<open>Some None\<close> when that is no finite
  number) and its JSON body (\<open>None\<close> when it does not parse).
\<close>

record 'a http_response =
  hr_status :: int
  hr_retryAfter :: "rat option option"
  hr_body :: "'a option"

datatype client_error = ByosRateLimited rat | RequestFailed int | BadBody

definition response_ok :: "'a http_response \<Rightarrow> bool" where
  "response_ok r \<longleftrightarrow> 200 \<le> hr_status r \<and> hr_status r \<le> 299"

definition rateLimitError :: "'a http_response \<Rightarrow> client_error" where
  "rateLimitError r = ByosRateLimited
     (case hr_retryAfter r of
        None \<Rightarrow> 1000
      | Some None \<Rightarrow> 1000
      | Some (Some seconds) \<Rightarrow> if 0 \<le> seconds then seconds * 1000 else 1000)"

definition answerOf :: "'a http_response \<Rightarrow> client_error + 'a" where
  "answerOf r =
     (if hr_status r = 429 then Inl (rateLimitError r)
      else if \<not> response_ok r then Inl (RequestFailed (hr_status r))
      else (case hr_body r of None \<Rightarrow> Inl BadBody | Some v \<Rightarrow> Inr v))"

definition submitAnswer :: "int http_response \<Rightarrow> client_error + int" where
  "submitAnswer r = answerOf r"

definition cancelAnswer :: "'a http_response \<Rightarrow> client_error + unit" where
  "cancelAnswer r =
     (if hr_status r = 429 then Inl (rateLimitError r)
      else if \<not> response_ok r \<and> hr_status r \<noteq> 204 then Inl (RequestFailed (hr_status r))
      else Inr ())"

record proposal_metadata =
  pm_id :: int
  pm_orderUid :: string
  pm_validUntil :: int
  pm_status :: status

record listed_proposal =
  ls_id :: int
  ls_orderUid :: string
  ls_validUntil :: string
  ls_status :: status

definition metadataOf :: "listed_proposal \<Rightarrow> proposal_metadata option" where
  "metadataOf l = map_option (\<lambda>v. \<lparr>pm_id = ls_id l, pm_orderUid = ls_orderUid l, pm_validUntil = v, pm_status = ls_status l\<rparr>)
     (BigInt (ls_validUntil l))"

definition proposalsAnswer :: "listed_proposal list http_response \<Rightarrow> client_error + proposal_metadata list" where
  "proposalsAnswer r =
     (case answerOf r of
        Inl e \<Rightarrow> Inl e
      | Inr ls \<Rightarrow> (case those (map metadataOf ls) of None \<Rightarrow> Inl BadBody | Some ms \<Rightarrow> Inr ms))"

text \<open>\<open>readAuth\<close>: the read token is signed once and kept. An empty token would be signed again.\<close>

definition readAuth :: "signer \<Rightarrow> typed_domain \<Rightarrow> string option \<Rightarrow> string \<times> string option" where
  "readAuth sign domain cached =
     (if \<not> falsy cached then (the cached, cached) else let token = signReadAuth sign domain in (token, Some token))"

definition baseUrl :: "string \<Rightarrow> string" where
  "baseUrl url = rev (dropWhile (\<lambda>c. c = CHR ''/'') (rev url))"

section \<open>From the route to the server's validation\<close>

text \<open>
  What viem documents of typed-data signing: addresses are encoded as their 20 bytes, so their letter case
  does not matter, and the signature of a key recovers to its address. \<open>keccak256\<close> hashes the bytes a hex
  string stands for.
\<close>

fun canonical :: "typed_message \<Rightarrow> typed_message" where
  "canonical (ProposalData h s b sa mb qb ih v n) = ProposalData h (lower s) (lower b) sa mb qb ih v n"
| "canonical m = m"

definition signer_recovers :: "sig_lib \<Rightarrow> signer \<Rightarrow> string \<Rightarrow> bool" where
  "signer_recovers lib sign address \<longleftrightarrow>
     (\<forall>d m m'. canonical m' = canonical m \<longrightarrow> sg_recover lib d m' (sign d m) = Some address)"

definition keccak_of_bytes :: "sig_lib \<Rightarrow> bool" where
  "keccak_of_bytes lib \<longleftrightarrow> (\<forall>s. sg_keccak lib (lower s) = sg_keccak lib s)"

definition is_u256 :: "int \<Rightarrow> bool" where
  "is_u256 n \<longleftrightarrow> 0 \<le> n \<and> n \<le> U256_MAX"

text \<open>A proposal the schema can carry: hex strings with their prefix, 256-bit amounts, a 65-byte signature.\<close>

definition interaction_fits :: "interaction \<Rightarrow> bool" where
  "interaction_fits i \<longleftrightarrow> addressString (i_target i) \<and> is_u256 (i_value i) \<and> hexString (i_callData i) \<and> has_0x (i_callData i)"

definition proposal_fits :: "signed_proposal \<Rightarrow> bool" where
  "proposal_fits p \<longleftrightarrow> orderUidString (sp_orderUid p) \<and> has_0x (sp_orderUid p) \<and> addressString (sp_sellToken p) \<and>
     addressString (sp_buyToken p) \<and> is_u256 (sp_sellAmount p) \<and> is_u256 (sp_minBuyAmount p) \<and>
     is_u256 (sp_quoteBuyAmount p) \<and> is_u256 (sp_validUntil p) \<and> is_u256 (sp_nonce p) \<and>
     list_all interaction_fits (sp_interactions p) \<and>
     hexString (sp_signature p) \<and> has_0x (sp_signature p) \<and> length (sp_signature p) = 132"

lemma u256String_str: "is_u256 n \<Longrightarrow> u256String (bigint_str n)"
  by (simp add: is_u256_def u256String_def u256_regex_def u256_refine_def bigint_str_nonneg nat_str_digits)

lemma lower_take: "take n (lower s) = lower (take n s)"
  by (simp add: lower_def take_map)

lemma has_0x_lower: "has_0x s \<Longrightarrow> has_0x (lower s)"
  by (simp add: has_0x_def lower_take) code_simp

lemma parse_interactions_back:
  "list_all interaction_fits is \<Longrightarrow>
     list_all interactionSchema (map interactionBody is) \<and> those (map parseInteraction (map interactionBody is)) = Some is"
  by (induction "is")
    (auto simp: interaction_fits_def interactionSchema_def interactionBody_def parseInteraction_def u256String_str add_0x_def)

definition parsedOf :: "sig_lib \<Rightarrow> signed_proposal \<Rightarrow> parsed_proposal" where
  "parsedOf lib p =
     \<lparr>pq_orderUid = lower (sp_orderUid p), pq_orderUidHash = sg_keccak lib (lower (sp_orderUid p)),
      pq_sellToken = lower (sp_sellToken p), pq_buyToken = lower (sp_buyToken p), pq_sellAmount = sp_sellAmount p,
      pq_minBuyAmount = sp_minBuyAmount p, pq_quoteBuyAmount = sp_quoteBuyAmount p, pq_interactions = sp_interactions p,
      pq_interactionsHash = computeInteractionsHash lib (sp_interactions p), pq_validUntil = sp_validUntil p,
      pq_nonce = sp_nonce p, pq_signature = sp_signature p, pq_subSolverAddress = None\<rparr>"

lemma submit_parses:
  assumes "proposal_fits p"
  shows "createProposalRequestSchema (submitBody p)" "signatureLengthOk (submitBody p)"
    "parseCreateProposalRequest lib (submitBody p) = Some (parsedOf lib p)"
proof -
  note fits = assms [unfolded proposal_fits_def]
  have ints: "list_all interactionSchema (map interactionBody (sp_interactions p))"
    "those (map parseInteraction (map interactionBody (sp_interactions p))) = Some (sp_interactions p)"
    using fits parse_interactions_back by blast+
  show "createProposalRequestSchema (submitBody p)"
    using fits ints by (simp add: createProposalRequestSchema_def submitBody_def u256String_str)
  show "signatureLengthOk (submitBody p)"
    using fits by (simp add: signatureLengthOk_def submitBody_def signatureDigits_def)
  show "parseCreateProposalRequest lib (submitBody p) = Some (parsedOf lib p)"
    using fits ints(2) by (simp add: parseCreateProposalRequest_def submitBody_def parsedOf_def Let_def add_0x_def has_0x_lower)
qed

lemma submit_authenticates:
  assumes "signer_recovers (rc_sig cfg) sign a" "keccak_of_bytes (rc_sig cfg)"
    "buildProposalFromRoute (rc_sig cfg) sign (rc_domain cfg) ord route v n = Some p"
  shows "resolveSubSolver cfg (parsedOf (rc_sig cfg) p) = Inr a"
  using assms
  by (auto simp: buildProposalFromRoute_def Let_def resolveSubSolver_def parsedOf_def recoverProposer_def parsedContract_def
      signProposal_def signer_recovers_def proposalMessage_def keccak_of_bytes_def split: if_splits)

text \<open>The order the server holds is the one the sub-solver polled.\<close>

definition same_order :: "poll_order \<Rightarrow> order_record \<Rightarrow> bool" where
  "same_order po rec \<longleftrightarrow> o_sellAmount (order rec) = po_fullSellAmount po \<and> o_buyAmount (order rec) = po_fullBuyAmount po \<and>
     lower (o_sellToken (order rec)) = lower (po_sellToken po) \<and> lower (o_buyToken (order rec)) = lower (po_buyToken po) \<and>
     o_kind (order rec) = SELL \<and> (o_partiallyFillable (order rec) \<or> po_executedSellAmount po = 0) \<and> erc20Balances rec"

lemma client_envelope:
  assumes cand: "toCandidateOrder po = Some (Some c)" and buy: "0 \<le> po_fullBuyAmount po" and same: "same_order po rec"
    and built: "buildProposalFromRoute lib sign d (orderFor c SELL) route v n = Some p"
    and quote: "pr_minBuyAmount route \<le> pr_quoteBuyAmount route"
  shows "checkEnvelope rec (proposalForValidation now i auctionId a (parsedOf lib p)) = None"
proof -
  note floor = candidate_floor [OF cand buy]
  have p: "sp_sellToken p = po_sellToken po" "sp_buyToken p = po_buyToken po" "sp_sellAmount p = co_remainingSell c"
    "sp_minBuyAmount p = pr_minBuyAmount route" "sp_quoteBuyAmount p = pr_quoteBuyAmount route"
    "co_scaledLimitBuy c \<le> pr_minBuyAmount route"
    using built floor by (auto simp: buildProposalFromRoute_def orderFor_def Let_def split: if_splits)
  have lim: "po_fullBuyAmount po * co_remainingSell c \<le> pr_minBuyAmount route * po_fullSellAmount po" using floor(1) p(6) by blast
  have "pr_minBuyAmount route * po_fullSellAmount po \<le> pr_quoteBuyAmount route * po_fullSellAmount po"
    using quote floor(2,3) by (intro mult_right_mono) auto
  with lim have lim': "po_fullBuyAmount po * co_remainingSell c \<le> pr_quoteBuyAmount route * po_fullSellAmount po" by simp
  have whole: "po_executedSellAmount po = 0 \<Longrightarrow> po_fullBuyAmount po \<le> pr_minBuyAmount route"
    using lim floor(2,7) by (simp add: mult_le_cancel_right)
  let ?pv = "proposalForValidation now i auctionId a (parsedOf lib p)"
  have fields: "p_sellToken ?pv = lower (po_sellToken po)" "p_buyToken ?pv = lower (po_buyToken po)"
    "p_sellAmount ?pv = co_remainingSell c" "p_minBuyAmount ?pv = pr_minBuyAmount route" "p_quoteBuyAmount ?pv = pr_quoteBuyAmount route"
    by (simp_all add: proposalForValidation_def parsedOf_def p)
  have "checkPartialFill (order rec) ?pv = None"
    using same floor(2,3) lim lim' by (simp add: checkPartialFill_None_iff same_order_def fields mult.commute)
  moreover have "checkFillOrKill (order rec) ?pv = None" if "\<not> o_partiallyFillable (order rec)"
    using same that floor(7) whole by (simp add: checkFillOrKill_None_iff same_order_def fields)
  ultimately show ?thesis
    using same quote by (simp add: checkEnvelope_def same_order_def fields)
qed

text \<open>
  C15. The client and the server agree: a proposal a sub-solver builds with the shared client from a polled
  order and a provider's route, for amounts the wire can carry, is parsed by the server to the same amounts,
  interactions, deadline and nonce, authenticated as the sub-solver's, and, when the auction is open and holds
  the order, admitted to validation, where the envelope check passes it.
\<close>

theorem client_proposal_admitted:
  assumes cand: "toCandidateOrder po = Some (Some c)" and buy: "0 \<le> po_fullBuyAmount po"
    and built: "buildProposalFromRoute (rc_sig cfg) sign (rc_domain cfg) (orderFor c SELL) route v n = Some p"
    and quote: "pr_minBuyAmount route \<le> pr_quoteBuyAmount route" and fits: "proposal_fits p"
    and keys: "signer_recovers (rc_sig cfg) sign a" "keccak_of_bytes (rc_sig cfg)"
    and allowed: "case rc_subsolverWhitelist cfg of None \<Rightarrow> True | Some ws \<Rightarrow> lower a \<in> set ws"
    and life: "re_now env div 1000 < v" "v \<le> re_now env div 1000 + rc_maxProposalLifetimeSecs cfg"
    and auction: "re_state env = Some (Some st)" "jm_get (as_orders st) (lower (po_uid po)) = Some rec" "same_order po rec"
  shows "\<exists>q. admitted cfg env (Some (submitBody p)) q a st \<and>
    pq_orderUid q = lower (po_uid po) \<and> pq_sellAmount q = co_remainingSell c \<and>
    pq_minBuyAmount q = pr_minBuyAmount route \<and> pq_quoteBuyAmount q = pr_quoteBuyAmount route \<and>
    pq_interactions q = pr_interactions route \<and> pq_validUntil q = v \<and> pq_nonce q = n \<and>
    (\<forall>i. checkEnvelope rec (proposalForValidation (re_now env) i (as_auctionId st) a q) = None)"
proof -
  let ?q = "parsedOf (rc_sig cfg) p"
  have "sp_orderUid p = po_uid po" "sp_validUntil p = v" "sp_sellAmount p = co_remainingSell c" "sp_nonce p = n"
    "sp_minBuyAmount p = pr_minBuyAmount route" "sp_quoteBuyAmount p = pr_quoteBuyAmount route"
    "sp_interactions p = pr_interactions route"
    using built candidate_floor(4) [OF cand buy] by (auto simp: buildProposalFromRoute_def orderFor_def Let_def split: if_splits)
  then have q: "pq_orderUid ?q = lower (po_uid po)" "pq_sellAmount ?q = co_remainingSell c" "pq_minBuyAmount ?q = pr_minBuyAmount route"
    "pq_quoteBuyAmount ?q = pr_quoteBuyAmount route" "pq_interactions ?q = pr_interactions route" "pq_validUntil ?q = v" "pq_nonce ?q = n"
    by (simp_all add: parsedOf_def)
  have "admitted cfg env (Some (submitBody p)) ?q a st"
    using submit_parses [OF fits] submit_authenticates [OF keys built] allowed life auction(1,2) q(1,6)
    by (simp add: admitted_def)
  then show ?thesis using q client_envelope [OF cand buy auction(3) built quote] by blast
qed

definition examplePoll :: poll_order where
  "examplePoll = \<lparr>po_uid = exampleUid, po_chainId = 100, po_sellToken = exampleToken CHR ''a'',
     po_buyToken = exampleToken CHR ''b'', po_fullSellAmount = 100, po_fullBuyAmount = 30, po_executedSellAmount = 50,
     po_estimatedNativeSurplus = None\<rparr>"

definition exampleRoute :: provider_route where
  "exampleRoute = \<lparr>pr_quoteBuyAmount = 20, pr_minBuyAmount = 16, pr_interactions = []\<rparr>"

definition exampleSubmission :: signed_proposal where
  "exampleSubmission = \<lparr>sp_orderUid = exampleUid, sp_sellToken = exampleToken CHR ''a'', sp_buyToken = exampleToken CHR ''b'',
     sp_sellAmount = 50, sp_minBuyAmount = 16, sp_quoteBuyAmount = 20, sp_interactions = [], sp_validUntil = 60, sp_nonce = 1,
     sp_signature = exampleSignature\<rparr>"

definition bytesLib :: sig_lib where
  "bytesLib = exampleSigLib\<lparr>sg_keccak := lower\<rparr>"

definition exampleServer :: "(unit, unit) routes_config" where
  "exampleServer = exampleRoutes\<lparr>rc_sig := bytesLib\<rparr>"

lemma example_fits: "proposal_fits exampleSubmission"
  by code_simp

lemma example_candidate: "toCandidateOrder examplePoll = Some (Some exampleCandidate)"
  by (simp add: toCandidateOrder_cases examplePoll_def exampleCandidate_def ceilDiv_def sdiv_nonneg)

lemma example_built:
  "buildProposalFromRoute (rc_sig exampleServer) (\<lambda>_ _. exampleSignature) (rc_domain exampleServer) (orderFor exampleCandidate SELL)
     exampleRoute 60 1 = Some exampleSubmission"
  by (simp add: buildProposalFromRoute_def orderFor_def exampleCandidate_def exampleRoute_def exampleSubmission_def Let_def
      signProposal_def)

theorem client_proposal_admitted_witness:
  "\<exists>q. admitted exampleServer exampleRequestEnv (Some (submitBody exampleSubmission)) q ''0x5A'' exampleOpen \<and> pq_sellAmount q = 50"
proof -
  have keys: "signer_recovers (rc_sig exampleServer) (\<lambda>_ _. exampleSignature) ''0x5A''" "keccak_of_bytes (rc_sig exampleServer)"
    by (simp_all add: signer_recovers_def keccak_of_bytes_def exampleServer_def bytesLib_def exampleSigLib_def)
  have rec: "jm_get (as_orders exampleOpen) (lower (po_uid examplePoll)) = Some (exampleRecord\<lparr>order := exampleOrder
      \<lparr>o_sellToken := exampleToken CHR ''a'', o_buyToken := exampleToken CHR ''b''\<rparr>\<rparr>)"
    by (simp add: exampleOpen_def examplePoll_def lower_exampleUid)
  have same: "same_order examplePoll (exampleRecord\<lparr>order := exampleOrder
      \<lparr>o_sellToken := exampleToken CHR ''a'', o_buyToken := exampleToken CHR ''b''\<rparr>\<rparr>)"
    by (simp add: same_order_def examplePoll_def example_defs)
  have env: "re_now exampleRequestEnv = 0" "re_state exampleRequestEnv = Some (Some exampleOpen)"
    "rc_maxProposalLifetimeSecs exampleServer = 60" "rc_subsolverWhitelist exampleServer = None"
    by (simp_all add: exampleRequestEnv_def exampleServer_def exampleRoutes_def)
  from client_proposal_admitted [OF example_candidate _ example_built _ example_fits keys _ _ _ env(2) rec same]
  show ?thesis by (auto simp: env examplePoll_def exampleRoute_def exampleCandidate_def)
qed

end
