(* ===== verification/Subsolver_Discovery.thy ===== *)
theory Subsolver_Discovery
  imports Subsolver_Core
begin

text \<open>
  How a sub-solver learns of orders: auction payloads normalised (\<open>orderbook-client.ts\<close>,
  \<open>solve-orderbook-client.ts\<close>, pushed through \<open>solve-app.ts\<close>), the discovery of the latest published
  auction file (\<open>aws-orderbook-client.ts\<close>), and the selection of orders worth quoting
  (\<open>order-filter.ts\<close>). Log lines are left out; the published files, the chain's logs and transactions
  are parameters.

  The lemmas show that the search finds the latest auction within its request budget and that the cursor
  never moves back, and say exactly which orders are selected.
\<close>

section \<open>Auction payloads\<close>

record orderbook_order =
  ob_uid :: string
  ob_sellToken :: string
  ob_buyToken :: string
  ob_sellAmount :: int
  ob_buyAmount :: int
  ob_kind :: string
  ob_fullSellAmount :: int
  ob_fullBuyAmount :: int
  ob_estimatedNativeSurplus :: int
  ob_nativeBuyValue :: int
  ob_nativeSellValue :: int
  ob_createdAt :: "int option"

text \<open>
  An order on the wire; the balance kinds are \<open>sellTokenBalance\<close> and \<open>buyTokenBalance\<close> of the order book,
  \<open>sellTokenSource\<close> and \<open>buyTokenDestination\<close> of a pushed auction.
\<close>

record order_dto =
  dt_uid :: string
  dt_sellToken :: string
  dt_buyToken :: string
  dt_sellAmount :: string
  dt_buyAmount :: string
  dt_fullSellAmount :: "string option"
  dt_fullBuyAmount :: "string option"
  dt_kind :: string
  dt_sellBalance :: string
  dt_buyBalance :: string
  dt_created :: "int option"

text \<open>The reference prices by token; \<open>None\<close> is an absent table, an absent or null price.\<close>

type_synonym token_prices = "(string, string option) jsmap option"

record auction_dto =
  au_orders :: "order_dto list"
  au_tokens :: token_prices

definition priceIn :: "token_prices \<Rightarrow> string \<Rightarrow> string option" where
  "priceIn tokens token = (case tokens of None \<Rightarrow> None | Some m \<Rightarrow> (case jm_get m token of None \<Rightarrow> None | Some p \<Rightarrow> p))"

definition nativeValue :: "int \<Rightarrow> string option \<Rightarrow> int option" where
  "nativeValue amount price =
     (if falsy price then Some 0 else map_option (\<lambda>p. (amount * p) sdiv (10 ^ 18)) (BigInt (the price)))"

text \<open>One order; \<open>None\<close> is the \<open>SyntaxError\<close> of a malformed number.\<close>

definition orderbookOrder :: "token_prices \<Rightarrow> int option \<Rightarrow> order_dto \<Rightarrow> orderbook_order option" where
  "orderbookOrder tokens createdAt d = do {
     sell \<leftarrow> BigInt (dt_sellAmount d);
     buy \<leftarrow> BigInt (dt_buyAmount d);
     nativeBuy \<leftarrow> nativeValue buy (priceIn tokens (dt_buyToken d));
     nativeSell \<leftarrow> nativeValue sell (priceIn tokens (dt_sellToken d));
     fullSell \<leftarrow> BigInt (case dt_fullSellAmount d of None \<Rightarrow> dt_sellAmount d | Some v \<Rightarrow> v);
     fullBuy \<leftarrow> BigInt (case dt_fullBuyAmount d of None \<Rightarrow> dt_buyAmount d | Some v \<Rightarrow> v);
     Some \<lparr>ob_uid = dt_uid d, ob_sellToken = dt_sellToken d, ob_buyToken = dt_buyToken d, ob_sellAmount = sell, ob_buyAmount = buy,
       ob_kind = dt_kind d, ob_fullSellAmount = fullSell, ob_fullBuyAmount = fullBuy,
       ob_estimatedNativeSurplus = nativeBuy - nativeSell, ob_nativeBuyValue = nativeBuy, ob_nativeSellValue = nativeSell,
       ob_createdAt = createdAt\<rparr>
   }"

definition plainBalances :: "order_dto \<Rightarrow> bool" where
  "plainBalances d \<longleftrightarrow> dt_sellBalance d = ''erc20'' \<and> dt_buyBalance d = ''erc20''"

definition toOrderbookOrders :: "auction_dto \<Rightarrow> orderbook_order list option" where
  "toOrderbookOrders a = those (map (\<lambda>d. orderbookOrder (au_tokens a) (dt_created d) d) (filter plainBalances (au_orders a)))"

text \<open>\<open>OrderbookClient.solvableOrders\<close>: \<open>None\<close> is an exception.\<close>

definition pulledOrders :: "auction_dto http_response \<Rightarrow> orderbook_order list option" where
  "pulledOrders r = (if \<not> response_ok r then None else (case hr_body r of None \<Rightarrow> None | Some a \<Rightarrow> toOrderbookOrders a))"

text \<open>
  \<open>SolveOrderbookClient.receive\<close> on the latest orders: a body without an orders array is ignored, an order
  that does not parse is skipped.
\<close>

definition receive :: "auction_dto option \<Rightarrow> orderbook_order list \<Rightarrow> orderbook_order list" where
  "receive body latest =
     (case body of
        None \<Rightarrow> latest
      | Some a \<Rightarrow> List.map_filter (orderbookOrder (au_tokens a) None) (filter plainBalances (au_orders a)))"

text \<open>
  The pushes of \<open>createSolveApp\<close>, in the order in which they arrive: each receives and quotes before the next,
  and a cycle that fails only fails its own request. \<open>onAuction\<close> sees the orders of its own push. \<open>None\<close> is a
  body that is not JSON; the answers are status codes.
\<close>

fun solvePushes :: "(orderbook_order list \<Rightarrow> 's \<Rightarrow> bool \<times> 's) \<Rightarrow> auction_dto option option list \<Rightarrow>
    orderbook_order list \<times> 's \<Rightarrow> int list \<times> orderbook_order list \<times> 's" where
  "solvePushes onAuction [] (latest, s) = ([], latest, s)"
| "solvePushes onAuction (None # pushes) (latest, s) =
     (case solvePushes onAuction pushes (latest, s) of (codes, r) \<Rightarrow> (400 # codes, r))"
| "solvePushes onAuction (Some body # pushes) (latest, s) =
     (let latest' = receive body latest; (ok, s') = onAuction latest' s in
      case solvePushes onAuction pushes (latest', s') of (codes, r) \<Rightarrow> ((if ok then 200 else 500) # codes, r))"

lemma receive_skips:
  "o' \<in> set (receive (Some a) latest) \<longleftrightarrow>
     (\<exists>d \<in> set (au_orders a). plainBalances d \<and> orderbookOrder (au_tokens a) None d = Some o')"
  by (force simp: receive_def List.map_filter_def)

lemma bad_order_fails_pull:
  assumes "d \<in> set (au_orders a)" "plainBalances d" "orderbookOrder (au_tokens a) (dt_created d) d = None"
  shows "toOrderbookOrders a = None"
proof -
  have "those (map f xs) = None" if "x \<in> set xs" "f x = None" for f :: "order_dto \<Rightarrow> orderbook_order option" and x xs
    using that by (induction xs) (auto split: option.split)
  then show ?thesis using assms unfolding toOrderbookOrders_def by force
qed

section \<open>The latest published auction\<close>

datatype 'd fetch_outcome = Found 'd | NotFound | FetchError

definition POLLING_WINDOW :: nat where "POLLING_WINDOW = 6"

definition DEFAULT_MAX_DISCOVERY_REQUESTS :: nat where "DEFAULT_MAX_DISCOVERY_REQUESTS = 32"

definition RECOVERY_THRESHOLD_MS :: int where "RECOVERY_THRESHOLD_MS = 60000"

definition SETTLEMENT_LOOKBACK_BLOCKS :: int where "SETTLEMENT_LOOKBACK_BLOCKS = 1000"

text \<open>
  \<open>searchForward\<close>. Its budget falls by one with every request, so \<open>fetch b\<close> is the state of the files when
  the budget left is \<open>b\<close>: they may change between two requests.
\<close>

datatype search_end = Unbounded | Boundary int | Interrupted

fun exponentialPhase :: "(nat \<Rightarrow> int \<Rightarrow> 'd fetch_outcome) \<Rightarrow> int \<Rightarrow> int \<Rightarrow> int \<Rightarrow> 'd \<Rightarrow> nat \<Rightarrow> search_end \<times> int \<times> 'd \<times> nat" where
  "exponentialPhase fetch anchor offset lowerBound best 0 = (Unbounded, lowerBound, best, 0)"
| "exponentialPhase fetch anchor offset lowerBound best (Suc budget) =
     (case fetch (Suc budget) (anchor + offset) of
        Found data \<Rightarrow> exponentialPhase fetch anchor (offset * 2) (anchor + offset) data budget
      | NotFound \<Rightarrow> (Boundary (anchor + offset), lowerBound, best, budget)
      | FetchError \<Rightarrow> (Interrupted, lowerBound, best, budget))"

fun binaryPhase :: "(nat \<Rightarrow> int \<Rightarrow> 'd fetch_outcome) \<Rightarrow> int \<Rightarrow> int \<Rightarrow> 'd \<Rightarrow> nat \<Rightarrow> int \<times> 'd" where
  "binaryPhase fetch lowerBound upperBound best 0 = (lowerBound, best)"
| "binaryPhase fetch lowerBound upperBound best (Suc budget) =
     (if upperBound - lowerBound > 1
      then let mid = (lowerBound + upperBound) div 2 in
        (case fetch (Suc budget) mid of
           Found data \<Rightarrow> binaryPhase fetch mid upperBound data budget
         | NotFound \<Rightarrow> binaryPhase fetch lowerBound mid best budget
         | FetchError \<Rightarrow> (lowerBound, best))
      else (lowerBound, best))"

fun searchForward :: "(nat \<Rightarrow> int \<Rightarrow> 'd fetch_outcome) \<Rightarrow> int \<Rightarrow> nat \<Rightarrow> (int \<times> 'd) option" where
  "searchForward fetch anchor 0 = None"
| "searchForward fetch anchor (Suc budget) =
     (case fetch (Suc budget) anchor of
        Found data \<Rightarrow>
          (case exponentialPhase fetch anchor 1 anchor data budget of
             (Boundary upperBound, lowerBound, best, left) \<Rightarrow> Some (binaryPhase fetch lowerBound upperBound best left)
           | (_, lowerBound, best, _) \<Rightarrow> Some (lowerBound, best))
      | NotFound \<Rightarrow> None
      | FetchError \<Rightarrow> None)"

text \<open>
  Whatever the files do meanwhile, a search only ever answers with a file it fetched, at the anchor or after it.
\<close>

lemma exponentialPhase_found:
  assumes "exponentialPhase fetch anchor offset lo best b = (e, lo', best', b')" "anchor \<le> lo" "0 < offset"
    and "\<exists>k. fetch k lo = Found best"
  shows "anchor \<le> lo' \<and> (\<exists>k. fetch k lo' = Found best')"
  using assms
proof (induction fetch anchor offset lo best b rule: exponentialPhase.induct)
  case (2 fetch anchor offset lo best b)
  show ?case
  proof (cases "fetch (Suc b) (anchor + offset)")
    case (Found data)
    then show ?thesis using 2 by force
  qed (use 2 in auto)
qed simp

lemma binaryPhase_found:
  assumes "binaryPhase fetch lo hi best b = (lo', best')" "\<exists>k. fetch k lo = Found best"
  shows "lo \<le> lo' \<and> (\<exists>k. fetch k lo' = Found best')"
  using assms
proof (induction fetch lo hi best b rule: binaryPhase.induct)
  case (2 fetch lo hi best b)
  show ?case
  proof (cases "hi - lo > 1")
    case True
    then have "lo \<le> (lo + hi) div 2" by simp
    with True 2 show ?thesis by (cases "fetch (Suc b) ((lo + hi) div 2)") (force simp: Let_def)+
  qed (use 2 in auto)
qed simp

lemma searchForward_found:
  assumes "searchForward fetch anchor b = Some (i, data)"
  shows "anchor \<le> i \<and> (\<exists>k. fetch k i = Found data)"
proof (cases b)
  case (Suc b')
  then obtain d where d: "fetch (Suc b') anchor = Found d"
    using assms by (cases "fetch (Suc b') anchor") auto
  obtain e lo best left where ex: "exponentialPhase fetch anchor 1 anchor d b' = (e, lo, best, left)" by (metis prod_cases4)
  have lo: "anchor \<le> lo" "\<exists>k. fetch k lo = Found best" using exponentialPhase_found [OF ex] d by auto
  show ?thesis
  proof (cases e)
    case (Boundary hi)
    then show ?thesis using assms Suc d ex lo binaryPhase_found [of fetch lo hi best left i data] by force
  qed (use assms Suc d ex lo in auto)
qed (use assms in simp)

text \<open>The files of a range, published without gaps up to the latest and unchanged during the search.\<close>

definition published :: "(nat \<Rightarrow> int \<Rightarrow> 'd fetch_outcome) \<Rightarrow> (int \<Rightarrow> 'd) \<Rightarrow> int \<Rightarrow> int \<Rightarrow> bool" where
  "published fetch file anchor latest \<longleftrightarrow>
     (\<forall>k i. anchor \<le> i \<longrightarrow> fetch k i = (if i \<le> latest then Found (file i) else NotFound))"

lemma exponentialPhase_latest:
  assumes "published fetch file anchor latest" "latest - anchor < 2 ^ n" "j \<le> n" "n - j < b"
    and "lo = (if j = 0 then anchor else anchor + 2 ^ (j - 1))" "lo \<le> latest"
  shows "\<exists>m lo' b'. j \<le> m \<and> m \<le> n \<and> b - (m - j + 1) \<le> b' \<and> lo' \<le> latest \<and> latest < anchor + 2 ^ m \<and> anchor \<le> lo' \<and>
    anchor + 2 ^ m - lo' \<le> 2 ^ (m - 1) \<and>
    exponentialPhase fetch anchor (2 ^ j) lo (file lo) b = (Boundary (anchor + 2 ^ m), lo', file lo', b')"
  using assms
proof (induction b arbitrary: j lo)
  case (Suc b)
  show ?case
  proof (cases "anchor + 2 ^ j \<le> latest")
    case True
    then have f: "fetch (Suc b) (anchor + 2 ^ j) = Found (file (anchor + 2 ^ j))" using Suc.prems(1) by (simp add: published_def)
    have "(2 :: int) ^ j < 2 ^ n" using True Suc.prems(2) by linarith
    then have jn: "Suc j \<le> n" by simp
    then have "n - Suc j < b" using Suc.prems(4) by arith
    from Suc.IH [OF Suc.prems(1,2) jn this, of "anchor + 2 ^ j"] True obtain m lo' b' where
      "Suc j \<le> m" "m \<le> n" "b - (m - Suc j + 1) \<le> b'" "lo' \<le> latest" "latest < anchor + 2 ^ m" "anchor \<le> lo'"
      "anchor + 2 ^ m - lo' \<le> 2 ^ (m - 1)"
      "exponentialPhase fetch anchor (2 ^ Suc j) (anchor + 2 ^ j) (file (anchor + 2 ^ j)) b = (Boundary (anchor + 2 ^ m), lo', file lo', b')"
      by auto
    then show ?thesis using f by (intro exI [of _ m] exI [of _ lo'] exI [of _ b']) (auto simp: mult.commute)
  next
    case False
    then have f: "fetch (Suc b) (anchor + 2 ^ j) = NotFound" using Suc.prems(1) by (simp add: published_def)
    have "anchor + 2 ^ j - lo \<le> 2 ^ (j - 1)"
      using Suc.prems(5) by (cases j) auto
    moreover have "anchor \<le> lo" using Suc.prems(5) by auto
    ultimately show ?thesis using f False Suc.prems
      by (intro exI [of _ j] exI [of _ lo] exI [of _ b]) auto
  qed
qed simp

lemma binaryPhase_latest:
  assumes "published fetch file anchor latest" "anchor \<le> lo" "lo \<le> latest" "latest < hi" "hi - lo \<le> 2 ^ n" "n \<le> b"
  shows "binaryPhase fetch lo hi (file lo) b = (latest, file latest)"
  using assms
proof (induction b arbitrary: lo hi n)
  case (Suc b)
  show ?case
  proof (cases "hi - lo > 1")
    case True
    let ?mid = "(lo + hi) div 2"
    have mid: "lo < ?mid" "?mid < hi" using True by auto
    obtain n' where n: "n = Suc n'" using True Suc.prems(5) by (cases n) auto
    then have half: "hi - ?mid \<le> 2 ^ n'" "?mid - lo \<le> 2 ^ n'" "n' \<le> b" using Suc.prems(5,6) by auto
    show ?thesis
    proof (cases "?mid \<le> latest")
      case f: True
      then have "fetch (Suc b) ?mid = Found (file ?mid)" using Suc.prems(1,2) mid by (simp add: published_def)
      then show ?thesis using True Suc.IH [OF Suc.prems(1) _ f Suc.prems(4) half(1,3)] Suc.prems(2) mid by (simp add: Let_def)
    next
      case f: False
      then have "fetch (Suc b) ?mid = NotFound" using Suc.prems(1,2) mid by (simp add: published_def)
      then show ?thesis using True Suc.IH [OF Suc.prems(1,2,3) _ half(2,3)] f by (simp add: Let_def)
    qed
  next
    case False
    then have "lo = latest" using Suc.prems(3,4) by linarith
    then show ?thesis using False by simp
  qed
next
  case 0
  then have "lo = latest" by simp
  then show ?case by simp
qed

text \<open>
  C18. A search that may spend \<open>2 n + 2\<close> requests finds the latest auction exactly when fewer than \<open>2^n\<close> were
  published since its anchor; the default of 32 requests covers a backlog of 32767 auctions. The files are
  those of a range published without gaps that does not change meanwhile.
\<close>

theorem search_finds_latest:
  assumes "published fetch file anchor latest" "anchor \<le> latest" "latest - anchor < 2 ^ n" "2 * n + 2 \<le> budget"
  shows "searchForward fetch anchor budget = Some (latest, file latest)"
proof -
  obtain b where b: "budget = Suc b" using assms(4) by (cases budget) auto
  have f: "fetch budget anchor = Found (file anchor)" using assms(1,2) by (simp add: published_def)
  have "n - 0 < b" using assms(4) b by simp
  from exponentialPhase_latest [OF assms(1,3) _ this, of anchor] assms(2) obtain m lo b' where
    m: "m \<le> n" "b - (m + 1) \<le> b'" "lo \<le> latest" "latest < anchor + 2 ^ m" "anchor \<le> lo" "anchor + 2 ^ m - lo \<le> 2 ^ (m - 1)"
      "exponentialPhase fetch anchor 1 anchor (file anchor) b = (Boundary (anchor + 2 ^ m), lo, file lo, b')"
    by auto
  have "m - 1 \<le> b'" using m(1,2) assms(4) b by arith
  from binaryPhase_latest [OF assms(1) m(5,3,4,6) this] show ?thesis using f m(7) b by simp
qed

theorem search_finds_latest_witness:
  "searchForward (\<lambda>_ i. if i \<le> (40000 :: int) then Found i else NotFound) 10000 DEFAULT_MAX_DISCOVERY_REQUESTS = Some (40000, 40000)"
  by (rule search_finds_latest [of _ "\<lambda>i. i" _ _ 15])
    (simp_all add: published_def DEFAULT_MAX_DISCOVERY_REQUESTS_def)

section \<open>The cursor\<close>

record autopilot_dto =
  ap_orders :: "order_dto list"
  ap_prices :: "(string, string) jsmap option"

record aws_client =
  aw_latestPublishedId :: "int option"
  aw_lastPolledAt :: "int option"
  aw_bootstrapAuctionId :: "int option"
  aw_maxDiscoveryRequests :: nat
  aw_settlementAddress :: string

record settle_tx =
  tx_to :: "string option"
  tx_input :: string

text \<open>
  What one poll reads: the chain (\<open>None\<close> where a read fails; a log is its transaction hash), the files of the
  polling window, and the files during the search.
\<close>

record poll_env =
  pe_blockNumber :: "int option"
  pe_logs :: "int \<Rightarrow> string option list option"
  pe_transaction :: "string \<Rightarrow> settle_tx option"
  pe_window :: "int \<Rightarrow> autopilot_dto fetch_outcome"
  pe_fetch :: "nat \<Rightarrow> int \<Rightarrow> autopilot_dto fetch_outcome"

definition SETTLE_SELECTOR :: string where "SETTLE_SELECTOR = ''0x13d79a0b''"

text \<open>The walk over the logs, the latest first: \<open>None\<close> throws, \<open>Some None\<close> found no settlement.\<close>

fun walkLogs :: "(string \<Rightarrow> settle_tx option) \<Rightarrow> string \<Rightarrow> string option list \<Rightarrow> int option option" where
  "walkLogs getTransaction settlement [] = Some None"
| "walkLogs getTransaction settlement (txHash # older) =
     (if falsy txHash then walkLogs getTransaction settlement older
      else (case getTransaction (the txHash) of
          None \<Rightarrow> None
        | Some tx \<Rightarrow>
            if map_option lower (tx_to tx) \<noteq> Some (lower settlement) then walkLogs getTransaction settlement older
            else if take (length SETTLE_SELECTOR) (tx_input tx) \<noteq> SETTLE_SELECTOR \<or> length (tx_input tx) < 18
              then walkLogs getTransaction settlement older
            else map_option (Some \<circ> Number) (BigInt (''0x'' @ drop (length (tx_input tx) - 16) (tx_input tx)))))"

definition getAuctionIdFromSettlement :: "poll_env \<Rightarrow> string \<Rightarrow> int option option" where
  "getAuctionIdFromSettlement env settlement =
     (case pe_blockNumber env of
        None \<Rightarrow> None
      | Some latestBlock \<Rightarrow>
          (case pe_logs env (if latestBlock > SETTLEMENT_LOOKBACK_BLOCKS then latestBlock - SETTLEMENT_LOOKBACK_BLOCKS else 0) of
             None \<Rightarrow> None
           | Some logs \<Rightarrow> walkLogs (pe_transaction env) settlement (rev logs)))"

definition getBootstrapAnchorId :: "poll_env \<Rightarrow> aws_client \<Rightarrow> int option" where
  "getBootstrapAnchorId env c =
     (case getAuctionIdFromSettlement env (aw_settlementAddress c) of
        Some (Some i) \<Rightarrow> Some i
      | _ \<Rightarrow> aw_bootstrapAuctionId c)"

definition advanced :: "(int \<times> 'd) option \<Rightarrow> aws_client \<Rightarrow> (int \<times> 'd) option \<times> aws_client" where
  "advanced result c = (case result of None \<Rightarrow> (None, c) | Some (i, d) \<Rightarrow> (Some (i, d), c\<lparr>aw_latestPublishedId := Some i\<rparr>))"

definition bootstrap :: "poll_env \<Rightarrow> aws_client \<Rightarrow> (int \<times> autopilot_dto) option \<times> aws_client" where
  "bootstrap env c =
     (case getBootstrapAnchorId env c of
        None \<Rightarrow> (None, c)
      | Some anchorId \<Rightarrow> advanced (searchForward (pe_fetch env) anchorId (aw_maxDiscoveryRequests c)) c)"

definition windowResults :: "poll_env \<Rightarrow> int \<Rightarrow> (int \<times> autopilot_dto) option list" where
  "windowResults env cursor =
     map (\<lambda>i. case pe_window env (cursor + 1 + int i) of Found d \<Rightarrow> Some (cursor + 1 + int i, d) | _ \<Rightarrow> None) [0 ..< POLLING_WINDOW]"

definition pollFromCursor :: "poll_env \<Rightarrow> aws_client \<Rightarrow> (int \<times> autopilot_dto) option \<times> aws_client" where
  "pollFromCursor env c =
     (let cursor = (case aw_latestPublishedId c of None \<Rightarrow> 0 | Some i \<Rightarrow> i);
          results = windowResults env cursor
      in (case rev (List.map_filter (\<lambda>r. r) results) of
            [] \<Rightarrow> (None, c)
          | best # _ \<Rightarrow>
              if results ! (POLLING_WINDOW - 1) \<noteq> None
              then (case searchForward (pe_fetch env) (fst best) (aw_maxDiscoveryRequests c) of
                      None \<Rightarrow> advanced (Some best) c
                    | Some wider \<Rightarrow> advanced (Some wider) c)
              else advanced (Some best) c))"

definition findLatestSnapshot :: "poll_env \<Rightarrow> int \<Rightarrow> aws_client \<Rightarrow> (int \<times> autopilot_dto) option \<times> aws_client" where
  "findLatestSnapshot env now c =
     (case aw_latestPublishedId c of
        None \<Rightarrow> bootstrap env c
      | Some cursor \<Rightarrow>
          if (case aw_lastPolledAt c of None \<Rightarrow> False | Some t \<Rightarrow> now - t > RECOVERY_THRESHOLD_MS)
          then advanced (searchForward (pe_fetch env) cursor (aw_maxDiscoveryRequests c)) c
          else pollFromCursor env c)"

text \<open>\<open>AwsOrderbookClient.solvableOrders\<close>; the orders are \<open>None\<close> when normalising them throws.\<close>

definition awsOrders :: "poll_env \<Rightarrow> int \<Rightarrow> aws_client \<Rightarrow> orderbook_order list option \<times> aws_client" where
  "awsOrders env now c =
     (case findLatestSnapshot env now c of
        (best, c') \<Rightarrow>
          (case best of
             None \<Rightarrow> Some []
           | Some (_, auction) \<Rightarrow>
               toOrderbookOrders \<lparr>au_orders = ap_orders auction,
                 au_tokens = map_option (map (\<lambda>(addr, price). (addr, Some price))) (ap_prices auction)\<rparr>,
           c'\<lparr>aw_lastPolledAt := Some now\<rparr>))"

text \<open>A file that was served, in the polling window or to the search.\<close>

definition served :: "poll_env \<Rightarrow> int \<Rightarrow> autopilot_dto \<Rightarrow> bool" where
  "served env i d \<longleftrightarrow> pe_window env i = Found d \<or> (\<exists>k. pe_fetch env k i = Found d)"

lemma windowResults_found:
  assumes "Some (i, d) \<in> set (windowResults env cursor)"
  shows "cursor < i \<and> i \<le> cursor + 6 \<and> pe_window env i = Found d"
  using assms by (auto simp: windowResults_def POLLING_WINDOW_def split: fetch_outcome.splits)

lemma pollFromCursor_found:
  assumes "pollFromCursor env c = (r, c')" "aw_latestPublishedId c = Some cursor"
  shows "r = None \<and> c' = c \<or> (\<exists>i d. r = Some (i, d) \<and> cursor < i \<and> served env i d \<and> c' = c\<lparr>aw_latestPublishedId := Some i\<rparr>)"
proof (cases "rev (List.map_filter (\<lambda>r. r) (windowResults env cursor))")
  case (Cons best rest)
  then have "best \<in> set (List.map_filter (\<lambda>r. r) (windowResults env cursor))"
    by (metis list.set_intros(1) set_rev)
  then have "Some best \<in> set (windowResults env cursor)"
    by (auto simp: List.map_filter_def)
  then have b: "cursor < fst best" "served env (fst best) (snd best)"
    using windowResults_found [of "fst best" "snd best"] by (auto simp: served_def)
  obtain w where w: "pollFromCursor env c = advanced (Some w) c"
      "w = best \<or> searchForward (pe_fetch env) (fst best) (aw_maxDiscoveryRequests c) = Some w"
  proof (cases "windowResults env cursor ! (POLLING_WINDOW - 1) \<noteq> None \<and>
      searchForward (pe_fetch env) (fst best) (aw_maxDiscoveryRequests c) \<noteq> None")
    case True
    then obtain w where "searchForward (pe_fetch env) (fst best) (aw_maxDiscoveryRequests c) = Some w" by blast
    then show thesis using that [of w] True Cons assms(2) by (simp add: pollFromCursor_def Let_def)
  next
    case False
    then show thesis using that [of best] Cons assms(2)
      by (cases "searchForward (pe_fetch env) (fst best) (aw_maxDiscoveryRequests c)") (simp_all add: pollFromCursor_def Let_def)
  qed
  then have "cursor < fst w" "served env (fst w) (snd w)"
    using b searchForward_found [of "pe_fetch env" "fst best" "aw_maxDiscoveryRequests c" "fst w" "snd w"]
    by (force simp: served_def)+
  then show ?thesis using assms(1) w(1) by (cases w) (auto simp: advanced_def)
qed (use assms in \<open>simp add: pollFromCursor_def Let_def\<close>)

text \<open>
  The discovery cursor never moves back and only names auctions that were served: whatever one poll
  reads of the chain and of the files, the cursor afterwards is the id of the auction it returns, fetched in
  this poll and not older than the cursor before; without one the cursor is unchanged.
\<close>

theorem discovery_cursor_forward:
  assumes "findLatestSnapshot env now c = (r, c')"
  shows "(case r of
       None \<Rightarrow> aw_latestPublishedId c' = aw_latestPublishedId c
     | Some (i, d) \<Rightarrow> aw_latestPublishedId c' = Some i \<and> served env i d \<and>
         (\<forall>cursor. aw_latestPublishedId c = Some cursor \<longrightarrow> cursor \<le> i))"
proof -
  have adv: ?thesis if "advanced (searchForward (pe_fetch env) a b) c = (r, c')"
      "\<forall>cursor. aw_latestPublishedId c = Some cursor \<longrightarrow> cursor = a" for a b
    using that searchForward_found [of "pe_fetch env" a b]
    by (cases "searchForward (pe_fetch env) a b") (auto simp: advanced_def served_def)
  show ?thesis
  proof (cases "aw_latestPublishedId c")
    case None
    then show ?thesis using assms adv
      by (cases "getBootstrapAnchorId env c") (auto simp: findLatestSnapshot_def bootstrap_def)
  next
    case (Some cursor)
    show ?thesis
    proof (cases "case aw_lastPolledAt c of None \<Rightarrow> False | Some t \<Rightarrow> now - t > RECOVERY_THRESHOLD_MS")
      case True
      then show ?thesis using assms Some adv by (simp add: findLatestSnapshot_def)
    next
      case False
      then have "pollFromCursor env c = (r, c')" using assms Some by (simp add: findLatestSnapshot_def)
      from pollFromCursor_found [OF this Some] Some show ?thesis by auto
    qed
  qed
qed

definition exampleAws :: aws_client where
  "exampleAws = \<lparr>aw_latestPublishedId = Some 7, aw_lastPolledAt = None, aw_bootstrapAuctionId = None,
     aw_maxDiscoveryRequests = DEFAULT_MAX_DISCOVERY_REQUESTS, aw_settlementAddress = ''0x90''\<rparr>"

definition examplePollEnv :: poll_env where
  "examplePollEnv = \<lparr>pe_blockNumber = None, pe_logs = \<lambda>_. None, pe_transaction = \<lambda>_. None,
     pe_window = \<lambda>i. if i \<le> 9 then Found \<lparr>ap_orders = [], ap_prices = None\<rparr> else NotFound, pe_fetch = \<lambda>_ _. NotFound\<rparr>"

theorem discovery_cursor_forward_witness:
  "\<exists>d. fst (findLatestSnapshot examplePollEnv 0 exampleAws) = Some (9, d) \<and> served examplePollEnv 9 d"
proof -
  obtain r c' where f: "findLatestSnapshot examplePollEnv 0 exampleAws = (r, c')" by fastforce
  have "fst (findLatestSnapshot examplePollEnv 0 exampleAws) = Some (9, \<lparr>ap_orders = [], ap_prices = None\<rparr>)"
    by code_simp
  with discovery_cursor_forward [OF f] f show ?thesis by auto
qed

section \<open>Selecting orders\<close>

text \<open>\<open>OrderFilter\<close>: its state is the set of the UIDs of the previous snapshot, \<open>None\<close> before the first.\<close>

definition relativeSpread :: "orderbook_order \<Rightarrow> int" where
  "relativeSpread o' = (if ob_nativeSellValue o' > 0 then (ob_nativeBuyValue o' * 10 ^ 18) sdiv ob_nativeSellValue o' else 0)"

definition spreadCmp :: "string \<times> int \<Rightarrow> string \<times> int \<Rightarrow> int" where
  "spreadCmp a b = (if snd a > snd b then -1 else if snd a < snd b then 1 else 0)"

interpretation spread: comparator spreadCmp
  by unfold_locales (auto simp: spreadCmp_def split: if_splits)

text \<open>\<open>slice(0, n)\<close>, which drops from the end when \<open>n\<close> is negative.\<close>

definition slice0 :: "int \<Rightarrow> 'a list \<Rightarrow> 'a list" where
  "slice0 n xs = (if n < 0 then take (length xs - nat (- n)) xs else take (nat n) xs)"

definition closeToExecution :: "int \<Rightarrow> orderbook_order list \<Rightarrow> string set" where
  "closeToExecution topN orders = set (map fst (slice0 topN (js_sort spreadCmp (map (\<lambda>o'. (ob_uid o', relativeSpread o')) orders))))"

definition filterOrders :: "int \<Rightarrow> orderbook_order list \<Rightarrow> string set option \<Rightarrow> orderbook_order list \<times> string set option" where
  "filterOrders topN allOrders previousUids =
     (let orders = filter (\<lambda>o'. ob_kind o' = ''sell'') allOrders;
          newUids = (case previousUids of
             None \<Rightarrow> {}
           | Some prev \<Rightarrow> set (map (lower \<circ> ob_uid) (filter (\<lambda>o'. lower (ob_uid o') \<notin> prev) orders)))
      in (filter (\<lambda>o'. lower (ob_uid o') \<in> newUids \<or> ob_uid o' \<in> closeToExecution topN orders) orders,
          Some (set (map (lower \<circ> ob_uid) allOrders))))"

lemma closeToExecution_card: "0 \<le> topN \<Longrightarrow> card (closeToExecution topN orders) \<le> nat topN"
proof -
  assume "0 \<le> topN"
  then have "length (slice0 topN xs) \<le> nat topN" for xs :: "(string \<times> int) list" by (simp add: slice0_def)
  then show ?thesis unfolding closeToExecution_def by (metis card_length le_trans length_map)
qed

text \<open>The orders taken for their spread are the best ones: no order left out has a larger one.\<close>

lemma sorted_take_rest:
  assumes "sorted_wrt R xs" "p \<in> set (take n xs)" "q \<in> set xs" "q \<notin> set (take n xs)"
  shows "R p q"
proof -
  have "sorted_wrt R (take n xs @ drop n xs)" using assms(1) by simp
  moreover have "q \<in> set (take n xs @ drop n xs)" using assms(3) by simp
  ultimately show ?thesis using assms(2,4) unfolding sorted_wrt_append set_append by blast
qed

lemma closeToExecution_best:
  assumes "0 \<le> topN" "a \<in> set orders" "b \<in> set orders" "ob_uid b \<notin> closeToExecution topN orders"
    and "ob_uid a \<in> closeToExecution topN orders" "inj_on ob_uid (set orders)"
  shows "relativeSpread b \<le> relativeSpread a"
proof -
  let ?f = "\<lambda>o'. (ob_uid o', relativeSpread o')"
  obtain xs where xs: "xs = js_sort spreadCmp (map ?f orders)" by blast
  have set_xs: "set xs = ?f ` set orders" by (simp add: xs)
  have srt: "sorted_wrt (\<lambda>x y. spreadCmp x y \<le> 0) xs" unfolding xs by (rule spread.sort_sorted)
  have top: "closeToExecution topN orders = fst ` set (take (nat topN) xs)"
    using assms(1) by (simp add: closeToExecution_def slice0_def xs)
  obtain p where p: "p \<in> set (take (nat topN) xs)" "fst p = ob_uid a" using assms(5) unfolding top by (metis imageE)
  then obtain a' where "a' \<in> set orders" "p = ?f a'" using in_set_takeD [OF p(1)] set_xs by blast
  then have pa: "p = ?f a" using p(2) assms(2,6) by (simp add: inj_on_eq_iff)
  have "?f b \<notin> set (take (nat topN) xs)"
    using assms(4) unfolding top by (metis fst_conv imageI)
  then have "spreadCmp p (?f b) \<le> 0"
    using sorted_take_rest [OF srt p(1)] assms(3) set_xs by blast
  then show ?thesis by (simp add: pa spreadCmp_def split: if_splits)
qed

text \<open>Which orders a snapshot selects, and what the filter remembers.\<close>

lemma filterOrders_selects:
  assumes "filterOrders topN allOrders prev = (sel, prev')"
  shows "o' \<in> set sel \<longleftrightarrow> o' \<in> set allOrders \<and> ob_kind o' = ''sell'' \<and>
      ((\<exists>p. prev = Some p \<and> lower (ob_uid o') \<notin> p) \<or> ob_uid o' \<in> closeToExecution topN (filter (\<lambda>o'. ob_kind o' = ''sell'') allOrders))"
    "prev' = Some ((lower \<circ> ob_uid) ` set allOrders)"
proof -
  have new: "o' \<in> A \<Longrightarrow> lower (ob_uid o') \<in> (lower \<circ> ob_uid) ` {x \<in> A. lower (ob_uid x) \<notin> p} \<longleftrightarrow> lower (ob_uid o') \<notin> p" for A p
    by (auto simp: image_iff)
  show "prev' = Some ((lower \<circ> ob_uid) ` set allOrders)" using assms by (simp add: filterOrders_def Let_def)
  show "o' \<in> set sel \<longleftrightarrow> o' \<in> set allOrders \<and> ob_kind o' = ''sell'' \<and>
      ((\<exists>p. prev = Some p \<and> lower (ob_uid o') \<notin> p) \<or> ob_uid o' \<in> closeToExecution topN (filter (\<lambda>o'. ob_kind o' = ''sell'') allOrders))"
  proof (cases prev)
    case None
    then show ?thesis using assms by (auto simp: filterOrders_def Let_def)
  next
    case (Some p)
    have "sel = filter (\<lambda>o'. lower (ob_uid o') \<in> (lower \<circ> ob_uid) ` {x \<in> {x \<in> set allOrders. ob_kind x = ''sell''}. lower (ob_uid x) \<notin> p} \<or>
        ob_uid o' \<in> closeToExecution topN (filter (\<lambda>o'. ob_kind o' = ''sell'') allOrders)) (filter (\<lambda>o'. ob_kind o' = ''sell'') allOrders)"
      using assms Some by (simp add: filterOrders_def Let_def)
    then show ?thesis using Some new [of "{x \<in> set allOrders. ob_kind x = ''sell''}" p]
      by (simp only: set_filter mem_Collect_eq) blast
  qed
qed

end
