(* ===== verification/Baseline_Subsolver.thy ===== *)
theory Baseline_Subsolver
  imports Subsolver_Discovery
begin

text \<open>
  The reference sub-solver (\<open>apps/baseline-subsolver/src\<close>): Uniswap V2 quotes (\<open>domain/routing.ts\<close>),
  proposals routed through one pair (\<open>domain/proposal.ts\<close>), reserves read in the trade's direction
  (\<open>infra/blockchain.ts\<close>) and the polling cycle (\<open>index.ts\<close>). ABI encoding, hashing and the chain's answers
  are parameters; log lines are left out.

  The lemmas show that a quote always satisfies the pair's own constant-product check, that the quote for an
  exact output delivers it, and that what is submitted answers the order at its limit price.
\<close>

section \<open>Uniswap V2 quotes\<close>

definition amountOut :: "int \<Rightarrow> int \<Rightarrow> int \<Rightarrow> int option" where
  "amountOut amount reserveIn reserveOut =
     (if reserveIn = 0 \<or> reserveOut = 0 \<or> amount = 0 then None
      else let amountInWithFee = amount * 997;
               out = (amountInWithFee * reserveOut) sdiv (reserveIn * 1000 + amountInWithFee)
           in if out > 0 then Some out else None)"

definition amountIn :: "int \<Rightarrow> int \<Rightarrow> int \<Rightarrow> int option" where
  "amountIn amountOutVal reserveIn reserveOut =
     (if reserveIn = 0 \<or> reserveOut = 0 \<or> amountOutVal = 0 then None
      else if amountOutVal \<ge> reserveOut then None
      else Some ((reserveIn * amountOutVal * 1000) sdiv ((reserveOut - amountOutVal) * 997) + 1))"

text \<open>The check of a pair's \<open>swap\<close>: the product of the reserves, less the fee on the input, does not shrink.\<close>

definition pair_accepts :: "int \<Rightarrow> int \<Rightarrow> int \<Rightarrow> int \<Rightarrow> bool" where
  "pair_accepts paid received reserveIn reserveOut \<longleftrightarrow>
     received < reserveOut \<and> 1000 * reserveIn * reserveOut \<le> (1000 * reserveIn + 997 * paid) * (reserveOut - received)"

lemma amountOut_SomeD:
  assumes "amountOut a ri ro = Some out" "0 \<le> a" "0 \<le> ri" "0 \<le> ro"
  shows "0 < a" "0 < out" "pair_accepts a out ri ro"
proof -
  have pos: "0 < a" "0 < ri" "0 < ro" using assms by (auto simp: amountOut_def split: if_splits)
  then show "0 < a" by blast
  let ?d = "ri * 1000 + a * 997"
  have d: "0 < ?d" using pos by simp
  have out: "out = (a * 997 * ro) div ?d" "0 < out"
    using assms(1) pos d by (auto simp: amountOut_def Let_def sdiv_nonneg split: if_splits)
  show "0 < out" by (rule out(2))
  have le: "out * ?d \<le> a * 997 * ro" unfolding out(1) by (rule div_mult_le_int [OF d])
  have "out < ro"
  proof (rule ccontr)
    assume "\<not> out < ro"
    then have "ro * ?d \<le> out * ?d" using d by (intro mult_right_mono) auto
    then have "ro * (ri * 1000) \<le> 0" using le by (simp add: distrib_left mult.commute mult.left_commute)
    then show False using pos by (simp add: mult_le_0_iff)
  qed
  moreover have "1000 * ri * ro \<le> (1000 * ri + 997 * a) * (ro - out)"
    using le by (simp add: algebra_simps)
  ultimately show "pair_accepts a out ri ro" by (simp add: pair_accepts_def)
qed

lemma amountIn_SomeD:
  assumes "amountIn x ri ro = Some c" "0 \<le> x" "0 \<le> ri" "0 \<le> ro"
  shows "0 < x" "0 < c" "pair_accepts c x ri ro"
proof -
  have pos: "0 < x" "0 < ri" "x < ro" using assms by (auto simp: amountIn_def split: if_splits)
  then show "0 < x" by blast
  let ?d = "(ro - x) * 997"
  have d: "0 < ?d" using pos by simp
  have c: "c = ri * x * 1000 div ?d + 1"
    using assms(1) pos d by (auto simp: amountIn_def sdiv_nonneg split: if_splits)
  then show "0 < c" using pos d by (simp add: pos_imp_zdiv_nonneg_iff add_nonneg_pos)
  have "ri * x * 1000 < c * ?d" unfolding c by (rule div_mult_gt_int [OF d])
  then show "pair_accepts c x ri ro" using pos by (simp add: pair_accepts_def algebra_simps)
qed

text \<open>Paying the quoted input buys at least the output it was quoted for.\<close>

lemma amountIn_delivers:
  assumes "amountIn x ri ro = Some c" "0 \<le> x" "0 \<le> ri" "0 \<le> ro"
  shows "\<exists>out. amountOut c ri ro = Some out \<and> x \<le> out"
proof -
  note c = amountIn_SomeD [OF assms]
  have pos: "0 < ri" "0 < ro" using assms by (auto simp: amountIn_def split: if_splits)
  have d: "0 < ri * 1000 + c * 997" using pos c by simp
  have "x * (ri * 1000 + c * 997) \<le> c * 997 * ro" using c(3) by (simp add: pair_accepts_def algebra_simps)
  then have "x \<le> (c * 997 * ro) div (ri * 1000 + c * 997)" using le_div_iff_int [OF d] by blast
  then show ?thesis using pos c d by (simp add: amountOut_def Let_def sdiv_nonneg)
qed

section \<open>Pairs and their reserves\<close>

text \<open>JavaScript's \<open><\<close> on strings: by code unit.\<close>

fun str_less :: "string \<Rightarrow> string \<Rightarrow> bool" where
  "str_less s [] = False"
| "str_less [] (c # t) = True"
| "str_less (b # s) (c # t) = ((of_char b :: nat) < of_char c \<or> b = c \<and> str_less s t)"

lemma str_less_total: "s \<noteq> t \<Longrightarrow> str_less s t \<longleftrightarrow> \<not> str_less t s"
proof (induction s t rule: str_less.induct)
  case (3 b s c t)
  have "(of_char b :: nat) = of_char c \<longleftrightarrow> b = c" by simp
  then show ?case using 3 by auto
next
  case (1 s)
  then show ?case by (cases s) auto
qed simp

text \<open>\<open>create2\<close> is viem's hashing of factory, init code hash and the sorted tokens.\<close>

definition pairAddress :: "(string \<Rightarrow> string \<Rightarrow> string \<Rightarrow> string \<Rightarrow> string) \<Rightarrow> string \<Rightarrow> string \<Rightarrow> string \<Rightarrow> string \<Rightarrow> string" where
  "pairAddress create2 factory initCodeHash tokenA tokenB =
     (let (token0, token1) = (if str_less (lower tokenA) (lower tokenB) then (tokenA, tokenB) else (tokenB, tokenA))
      in create2 factory initCodeHash token0 token1)"

record reserves_query =
  rq_pair :: string
  rq_sellToken :: string
  rq_buyToken :: string

text \<open>\<open>ChainClient.reserves\<close>: each answer of \<open>getReserves\<close>, \<open>None\<close> for a failed call, in the trade's direction.\<close>

definition orientReserves :: "reserves_query \<Rightarrow> (int \<times> int) option \<Rightarrow> (int \<times> int) option" where
  "orientReserves q result =
     (case result of
        None \<Rightarrow> None
      | Some (reserve0, reserve1) \<Rightarrow>
          if str_less (lower (rq_sellToken q)) (lower (rq_buyToken q)) then Some (reserve0, reserve1)
          else Some (reserve1, reserve0))"

definition readReserves :: "(string list \<Rightarrow> (int \<times> int) option list option) \<Rightarrow> reserves_query list \<Rightarrow> (int \<times> int) option list option" where
  "readReserves multicall queries =
     (if queries = [] then Some []
      else map_option (\<lambda>results. map (\<lambda>(q, r). orientReserves q r) (zip queries results)) (multicall (map rq_pair queries)))"

lemma pair_symmetric:
  assumes "lower a \<noteq> lower b"
  shows "pairAddress create2 f h a b = pairAddress create2 f h b a"
    "orientReserves \<lparr>rq_pair = p, rq_sellToken = b, rq_buyToken = a\<rparr> r =
       map_option prod.swap (orientReserves \<lparr>rq_pair = p, rq_sellToken = a, rq_buyToken = b\<rparr> r)"
  using str_less_total [OF assms] by (auto simp: pairAddress_def orientReserves_def split: option.split)

section \<open>Proposals\<close>

text \<open>\<open>RouteParams\<close>, with the calldata encoders of viem.\<close>

record route_params =
  rp_router :: string
  rp_trampoline :: string
  rp_reserveSell :: int
  rp_reserveBuy :: int
  rp_validUntil :: int
  rp_nonce :: int
  rp_extraInteractions :: "interaction list"

datatype swap_call =
  Approve (sw_spender: string) (sw_amount: int)
| SwapExactTokensForTokens (sw_in: int) (sw_outMin: int) (sw_path: "string list") (sw_to: string) (sw_deadline: int)
| SwapTokensForExactTokens (sw_out: int) (sw_inMax: int) (sw_path: "string list") (sw_to: string) (sw_deadline: int)

definition routedAmounts :: "orderbook_order \<Rightarrow> route_params \<Rightarrow> (int \<times> int) option" where
  "routedAmounts ord params =
     (if ob_kind ord = ''sell''
      then (case amountOut (ob_sellAmount ord) (rp_reserveSell params) (rp_reserveBuy params) of
              None \<Rightarrow> None
            | Some out \<Rightarrow> if out < ob_buyAmount ord then None else Some (ob_sellAmount ord, out))
      else (case amountIn (ob_buyAmount ord) (rp_reserveSell params) (rp_reserveBuy params) of
              None \<Rightarrow> None
            | Some cost \<Rightarrow> if cost > ob_sellAmount ord then None else Some (cost, ob_buyAmount ord)))"

definition buildProposal :: "sig_lib \<Rightarrow> (swap_call \<Rightarrow> string) \<Rightarrow> signer \<Rightarrow> typed_domain \<Rightarrow> orderbook_order \<Rightarrow> route_params \<Rightarrow>
    signed_proposal option" where
  "buildProposal lib encode sign domain ord params =
     map_option (\<lambda>(sellAmount, buyAmount).
       let path = [ob_sellToken ord, ob_buyToken ord];
           swap = (if ob_kind ord = ''sell''
             then SwapExactTokensForTokens sellAmount buyAmount path (rp_trampoline params) (rp_validUntil params)
             else SwapTokensForExactTokens buyAmount sellAmount path (rp_trampoline params) (rp_validUntil params));
           interactions =
             [\<lparr>i_target = ob_sellToken ord, i_value = 0, i_callData = encode (Approve (rp_router params) sellAmount)\<rparr>,
              \<lparr>i_target = rp_router params, i_value = 0, i_callData = encode swap\<rparr>] @ rp_extraInteractions params;
           p = \<lparr>cp_orderUidHash = sg_keccak lib (ob_uid ord), cp_sellToken = ob_sellToken ord, cp_buyToken = ob_buyToken ord,
             cp_sellAmount = sellAmount, cp_minBuyAmount = buyAmount, cp_quoteBuyAmount = buyAmount,
             cp_validUntil = rp_validUntil params, cp_nonce = rp_nonce params\<rparr>
       in \<lparr>sp_orderUid = ob_uid ord, sp_sellToken = ob_sellToken ord, sp_buyToken = ob_buyToken ord, sp_sellAmount = sellAmount,
           sp_minBuyAmount = buyAmount, sp_quoteBuyAmount = buyAmount, sp_interactions = interactions,
           sp_validUntil = rp_validUntil params, sp_nonce = rp_nonce params,
           sp_signature = signProposal lib sign domain p interactions\<rparr>)
     (routedAmounts ord params)"


definition exampleSwap :: orderbook_order where
  "exampleSwap = \<lparr>ob_uid = exampleUid, ob_sellToken = exampleToken CHR ''a'', ob_buyToken = exampleToken CHR ''b'',
     ob_sellAmount = 1000, ob_buyAmount = 100, ob_kind = ''buy'', ob_fullSellAmount = 1000, ob_fullBuyAmount = 100,
     ob_estimatedNativeSurplus = 0, ob_nativeBuyValue = 0, ob_nativeSellValue = 0, ob_createdAt = None\<rparr>"

definition exampleParams :: route_params where
  "exampleParams = \<lparr>rp_router = ''0x7a'', rp_trampoline = ''0x77'', rp_reserveSell = 100000, rp_reserveBuy = 50000,
     rp_validUntil = 60, rp_nonce = 1, rp_extraInteractions = []\<rparr>"


section \<open>The polling cycle\<close>

record live_proposal =
  lv_id :: int
  lv_validUntil :: int
  lv_lastSubmitted :: int

record baseline_config =
  bc_factory :: string
  bc_initCodeHash :: string
  bc_router :: string
  bc_trampoline :: string
  bc_proposalTtl :: int
  bc_domain :: typed_domain
  bc_sign :: signer
  bc_sig :: sig_lib
  bc_encode :: "swap_call \<Rightarrow> string"
  bc_create2 :: "string \<Rightarrow> string \<Rightarrow> string \<Rightarrow> string \<Rightarrow> string"

text \<open>What one cycle meets: \<open>None\<close> is a request that fails.\<close>

record baseline_env =
  be_orders :: "orderbook_order list option"
  be_view :: "int \<Rightarrow> status option"
  be_multicall :: "string list \<Rightarrow> (int \<times> int) option list option"
  be_nonce :: "string \<Rightarrow> int"
  be_submit :: "signed_proposal \<Rightarrow> int option"

type_synonym live_map = "(string, live_proposal) jsmap"

definition dropExpired :: "int \<Rightarrow> live_map \<Rightarrow> live_map" where
  "dropExpired now known = filter (\<lambda>(_, l). \<not> lv_validUntil l < now) known"

definition holdsLiveProposal :: "baseline_env \<Rightarrow> string \<Rightarrow> live_map \<Rightarrow> bool \<times> live_map" where
  "holdsLiveProposal env orderUid known =
     (let key = lower orderUid in
      (case jm_get known key of
         None \<Rightarrow> (False, known)
       | Some l \<Rightarrow>
           (case be_view env (lv_id l) of
              None \<Rightarrow> (True, known)
            | Some st \<Rightarrow> if isTerminalStatus st then (False, jm_delete key known) else (True, known))))"

fun pendingOrders :: "baseline_env \<Rightarrow> orderbook_order list \<Rightarrow> live_map \<Rightarrow> orderbook_order list \<times> live_map" where
  "pendingOrders env [] known = ([], known)"
| "pendingOrders env (ord # rest) known =
     (let (busy, known1) = holdsLiveProposal env (ob_uid ord) known;
          (pending, known2) = pendingOrders env rest known1
      in (if busy then pending else ord # pending, known2))"

definition proposalFor :: "baseline_config \<Rightarrow> baseline_env \<Rightarrow> int \<Rightarrow> orderbook_order \<Rightarrow> int \<times> int \<Rightarrow> signed_proposal option" where
  "proposalFor cfg env now ord reserve =
     buildProposal (bc_sig cfg) (bc_encode cfg) (bc_sign cfg) (bc_domain cfg) ord
       \<lparr>rp_router = bc_router cfg, rp_trampoline = bc_trampoline cfg, rp_reserveSell = fst reserve, rp_reserveBuy = snd reserve,
        rp_validUntil = now + bc_proposalTtl cfg, rp_nonce = be_nonce env (ob_uid ord), rp_extraInteractions = []\<rparr>"

text \<open>\<open>propose\<close> for one order and its entry in the live map; the proposals sent are recorded.\<close>

definition propose :: "baseline_config \<Rightarrow> baseline_env \<Rightarrow> int \<Rightarrow> orderbook_order \<times> (int \<times> int) option \<Rightarrow>
    signed_proposal list \<times> live_map \<Rightarrow> signed_proposal list \<times> live_map" where
  "propose cfg env now candidate s =
     (case candidate of
        (_, None) \<Rightarrow> s
      | (ord, Some reserve) \<Rightarrow>
          (case proposalFor cfg env now ord reserve of
             None \<Rightarrow> s
           | Some p \<Rightarrow>
               (case be_submit env p of
                  None \<Rightarrow> (fst s @ [p], snd s)
                | Some i \<Rightarrow> (fst s @ [p], jm_set (lower (ob_uid ord))
                    \<lparr>lv_id = i, lv_validUntil = now + bc_proposalTtl cfg, lv_lastSubmitted = now\<rparr> (snd s)))))"

definition queryFor :: "baseline_config \<Rightarrow> orderbook_order \<Rightarrow> reserves_query" where
  "queryFor cfg ord = \<lparr>rq_pair = pairAddress (bc_create2 cfg) (bc_factory cfg) (bc_initCodeHash cfg) (ob_sellToken ord) (ob_buyToken ord),
     rq_sellToken = ob_sellToken ord, rq_buyToken = ob_buyToken ord\<rparr>"

definition baselinePoll :: "baseline_config \<Rightarrow> baseline_env \<Rightarrow> int \<Rightarrow> live_map \<Rightarrow> signed_proposal list \<times> live_map" where
  "baselinePoll cfg env now known =
     (let known0 = dropExpired now known in
      (case be_orders env of
         None \<Rightarrow> ([], known0)
       | Some orders \<Rightarrow>
           (let (pending, known1) = pendingOrders env orders known0 in
            if pending = [] then ([], known1)
            else (case readReserves (be_multicall env) (map (queryFor cfg) pending) of
                    None \<Rightarrow> ([], known1)
                  | Some reserves \<Rightarrow> fold (propose cfg env now) (zip pending reserves) ([], known1)))))"

text \<open>
  An order whose live proposal the server still reports as running, or cannot be asked about, is not proposed
  on again, and every proposal sent is for a pending order at the reserves read for it.
\<close>

lemma holdsLiveProposal_frame:
  assumes "holdsLiveProposal env uid known = (busy, known')"
  shows "jm_get known' k = jm_get known k \<or> jm_get known' k = None \<and> (\<exists>l st. jm_get known k = Some l \<and>
      be_view env (lv_id l) = Some st \<and> isTerminalStatus st)"
    "\<not> busy \<Longrightarrow> jm_get known (lower uid) = Some l \<Longrightarrow> \<exists>st. be_view env (lv_id l) = Some st \<and> isTerminalStatus st"
  using assms by (auto simp: holdsLiveProposal_def Let_def jsmap split: option.splits if_splits)

lemma pendingOrders_free:
  assumes "pendingOrders env orders known = (pending, known')" "ord \<in> set pending"
  shows "ord \<in> set orders \<and> (\<forall>l. jm_get known (lower (ob_uid ord)) = Some l \<longrightarrow>
    (\<exists>st. be_view env (lv_id l) = Some st \<and> isTerminalStatus st))"
  using assms
proof (induction env orders known arbitrary: pending known' rule: pendingOrders.induct)
  case (2 env o1 rest known)
  obtain busy known1 where h: "holdsLiveProposal env (ob_uid o1) known = (busy, known1)" by fastforce
  obtain pend known2 where r: "pendingOrders env rest known1 = (pend, known2)" by fastforce
  have pending: "pending = (if busy then pend else o1 # pend)" using 2(2) by (simp add: h r)
  show ?case
  proof (cases "ord \<in> set pend")
    case True
    from 2(1) [OF h [symmetric] refl r True] holdsLiveProposal_frame(1) [OF h, of "lower (ob_uid ord)"] show ?thesis by force
  next
    case False
    then have "ord = o1" "\<not> busy" using 2(3) pending by (auto split: if_splits)
    then show ?thesis using holdsLiveProposal_frame(2) [OF h] by auto
  qed
qed simp

lemma baselinePoll_sends:
  assumes "baselinePoll cfg env now known = (sent, known')" "p \<in> set sent"
  shows "\<exists>ord orders r. be_orders env = Some orders \<and> ord \<in> set orders \<and> proposalFor cfg env now ord r = Some p \<and>
    (\<forall>l. jm_get (dropExpired now known) (lower (ob_uid ord)) = Some l \<longrightarrow>
       (\<exists>st. be_view env (lv_id l) = Some st \<and> isTerminalStatus st))"
proof -
  have loop: "q \<in> set (fst (fold (propose cfg env now) cs s)) \<Longrightarrow>
      q \<in> set (fst s) \<or> (\<exists>ord r. (ord, Some r) \<in> set cs \<and> proposalFor cfg env now ord r = Some q)" for q cs s
  proof (induction cs arbitrary: s)
    case (Cons c cs)
    have "q \<in> set (fst (propose cfg env now c s)) \<Longrightarrow> q \<in> set (fst s) \<or>
        (\<exists>ord r. c = (ord, Some r) \<and> proposalFor cfg env now ord r = Some q)"
      by (auto simp: propose_def split: prod.splits option.splits)
    then show ?case using Cons by fastforce
  qed simp
  obtain orders pending known1 where o: "be_orders env = Some orders"
    and pend: "pendingOrders env orders (dropExpired now known) = (pending, known1)"
    using assms by (cases "be_orders env") (auto simp: baselinePoll_def Let_def, fastforce)
  have "p \<in> set (fst (baselinePoll cfg env now known))" using assms by simp
  then have "\<exists>ord r. ord \<in> set pending \<and> proposalFor cfg env now ord r = Some p"
    using o pend loop
    by (auto simp: baselinePoll_def Let_def split: option.splits if_splits dest: set_zip_leftD)
      (metis empty_iff fst_conv list.set(1) set_zip_leftD)
  then show ?thesis using pendingOrders_free [OF pend] o by blast
qed

end
