(* ===== verification/Private_Mm.thy ===== *)
theory Private_Mm
  imports Subsolver_Discovery
begin

text \<open>
  The private market maker (\<open>apps/private-mm-subsolver/src\<close>): it fills stable-coin orders from its own
  trampoline and keeps the amounts it has promised per token. Its two loops, polling orders and
  synchronising proposals, run concurrently; the state machine interleaves them at every \<open>await\<close>. Signing,
  calldata and log lines are left out: what matters of them is whether they fail.

  The invariant is that the reservations are exactly the deliveries of the active proposals and of the one
  being submitted, and that at the time a proposal is sent they are covered by the balance just read.
\<close>

section \<open>Candidates\<close>

record filter_config =
  fc_usdcAddress :: string
  fc_usdtAddress :: string
  fc_trampolineBalance :: "(string, int) jsmap"
  fc_trackedUids :: "string set"

definition balanceOf :: "(string, int) jsmap \<Rightarrow> string \<Rightarrow> int" where
  "balanceOf m token = (case jm_get m token of None \<Rightarrow> 0 | Some v \<Rightarrow> v)"

definition filterCandidates :: "orderbook_order list \<Rightarrow> filter_config \<Rightarrow> orderbook_order list" where
  "filterCandidates orders config =
     (let usdc = lower (fc_usdcAddress config); usdt = lower (fc_usdtAddress config) in
      filter (\<lambda>ord.
        let sell = lower (ob_sellToken ord); buy = lower (ob_buyToken ord) in
        if ob_kind ord \<noteq> ''sell'' then False
        else if ob_sellAmount ord \<noteq> ob_fullSellAmount ord then False
        else if \<not> (sell = usdc \<and> buy = usdt \<or> sell = usdt \<and> buy = usdc) then False
        else if ob_sellAmount ord > balanceOf (fc_trampolineBalance config) buy then False
        else if lower (ob_uid ord) \<in> fc_trackedUids config then False
        else True) orders)"

section \<open>The two loops\<close>

datatype mm_status = Active | Deactivated

record cached_proposal =
  ca_proposalId :: int
  ca_validUntil :: int
  ca_status :: mm_status
  ca_buyToken :: string
  ca_sellAmount :: int

text \<open>
  Where the polling loop waits: for the orders, for the balance of an order's buy token, for the signature of
  its proposal, for the answer to its submission. The orders still to do follow.
\<close>

datatype mm_poll =
  PollIdle
| FetchingOrders int
| ReadingBalance int orderbook_order "orderbook_order list"
| SigningProposal int orderbook_order int "orderbook_order list"
| Submitting int orderbook_order int "orderbook_order list"

datatype mm_sync = SyncIdle | FetchingProposals int

record mm =
  mm_available :: "(string, int) jsmap"
  mm_reserved :: "(string, int) jsmap"
  mm_proposals :: "(string, cached_proposal) jsmap"
  mm_poll :: mm_poll
  mm_sync :: mm_sync

record mm_config =
  mc_usdcAddress :: string
  mc_usdtAddress :: string
  mc_forcedSurplus :: int
  mc_maxProposalLifetimeSecs :: int

definition netAvailable :: "mm \<Rightarrow> string \<Rightarrow> int" where
  "netAvailable s token = balanceOf (mm_available s) token - balanceOf (mm_reserved s) token"

definition candidatesFor :: "mm_config \<Rightarrow> mm \<Rightarrow> orderbook_order list \<Rightarrow> orderbook_order list" where
  "candidatesFor cfg s orders =
     (let usdc = lower (mc_usdcAddress cfg); usdt = lower (mc_usdtAddress cfg) in
      filterCandidates orders
        \<lparr>fc_usdcAddress = mc_usdcAddress cfg, fc_usdtAddress = mc_usdtAddress cfg,
         fc_trampolineBalance = jm_of [(usdc, netAvailable s usdc), (usdt, netAvailable s usdt)],
         fc_trackedUids = set (map fst (mm_proposals s))\<rparr>)"

fun nextOrder :: "int \<Rightarrow> orderbook_order list \<Rightarrow> mm_poll" where
  "nextOrder nowSecs [] = PollIdle"
| "nextOrder nowSecs (ord # rest) = ReadingBalance nowSecs ord rest"

definition addReserved :: "string \<Rightarrow> int \<Rightarrow> mm \<Rightarrow> mm" where
  "addReserved token amount s = s\<lparr>mm_reserved := jm_set token (balanceOf (mm_reserved s) token + amount) (mm_reserved s)\<rparr>"

text \<open>The balance of an order's buy token was read: reserve its delivery and go on to sign, or skip it.\<close>

definition balanceRead :: "mm_config \<Rightarrow> int \<Rightarrow> orderbook_order \<Rightarrow> orderbook_order list \<Rightarrow> int \<Rightarrow> mm \<Rightarrow> mm" where
  "balanceRead cfg nowSecs ord rest freshBalance s =
     (let buy = lower (ob_buyToken ord);
          s1 = s\<lparr>mm_available := jm_set buy freshBalance (mm_available s)\<rparr>;
          deliveryAmount = ob_sellAmount ord + mc_forcedSurplus cfg
      in if deliveryAmount > netAvailable s1 buy then s1\<lparr>mm_poll := nextOrder nowSecs rest\<rparr>
         else (addReserved buy deliveryAmount s1)\<lparr>mm_poll := SigningProposal nowSecs ord deliveryAmount rest\<rparr>)"

definition released :: "int \<Rightarrow> orderbook_order \<Rightarrow> int \<Rightarrow> orderbook_order list \<Rightarrow> mm \<Rightarrow> mm" where
  "released nowSecs ord deliveryAmount rest s =
     (addReserved (lower (ob_buyToken ord)) (- deliveryAmount) s)\<lparr>mm_poll := nextOrder nowSecs rest\<rparr>"

definition submittedAs :: "mm_config \<Rightarrow> int \<Rightarrow> orderbook_order \<Rightarrow> int \<Rightarrow> orderbook_order list \<Rightarrow> int \<Rightarrow> mm \<Rightarrow> mm" where
  "submittedAs cfg nowSecs ord deliveryAmount rest i s =
     s\<lparr>mm_proposals := jm_set (lower (ob_uid ord))
         \<lparr>ca_proposalId = i, ca_validUntil = nowSecs + mc_maxProposalLifetimeSecs cfg, ca_status = Active,
          ca_buyToken = lower (ob_buyToken ord), ca_sellAmount = deliveryAmount\<rparr> (mm_proposals s),
       mm_poll := nextOrder nowSecs rest\<rparr>"

text \<open>
  One entry of the synchronisation: an active proposal the server no longer lists is deactivated and its
  reservation released; one that was deactivated before is dropped after its deadline.
\<close>

definition syncEntry :: "int \<Rightarrow> int set \<Rightarrow> string \<times> cached_proposal \<Rightarrow> mm \<Rightarrow> mm" where
  "syncEntry nowSecs activeIds entry s =
     (case entry of (uid, cached) \<Rightarrow>
        let s1 = (if ca_status cached = Active \<and> ca_proposalId cached \<notin> activeIds
                  then addReserved (ca_buyToken cached) (- ca_sellAmount cached)
                    (s\<lparr>mm_proposals := jm_set uid (cached\<lparr>ca_status := Deactivated\<rparr>) (mm_proposals s)\<rparr>)
                  else s)
        in if ca_status cached = Deactivated \<and> nowSecs > ca_validUntil cached
           then s1\<lparr>mm_proposals := jm_delete uid (mm_proposals s1)\<rparr> else s1)"

definition syncWith :: "int \<Rightarrow> int set \<Rightarrow> mm \<Rightarrow> mm" where
  "syncWith nowSecs activeIds s = (fold (syncEntry nowSecs activeIds) (mm_proposals s) s)\<lparr>mm_sync := SyncIdle\<rparr>"

text \<open>
  The steps. Each loop starts over only after it ended; an order book answer lists each order once, with
  amounts that are not negative.
\<close>

definition well_formed_orders :: "orderbook_order list \<Rightarrow> bool" where
  "well_formed_orders orders \<longleftrightarrow> distinct (map (lower \<circ> ob_uid) orders) \<and> list_all (\<lambda>ord. 0 \<le> ob_sellAmount ord) orders"

inductive mm_step :: "mm_config \<Rightarrow> mm \<Rightarrow> mm \<Rightarrow> bool" for cfg :: mm_config where
  poll_starts: "mm_poll s = PollIdle \<Longrightarrow> mm_step cfg s (s\<lparr>mm_poll := FetchingOrders nowSecs\<rparr>)"
| fetch_fails: "mm_poll s = FetchingOrders nowSecs \<Longrightarrow> mm_step cfg s (s\<lparr>mm_poll := PollIdle\<rparr>)"
| orders_fetched: "mm_poll s = FetchingOrders nowSecs \<Longrightarrow> well_formed_orders orders \<Longrightarrow>
    mm_step cfg s (s\<lparr>mm_poll := nextOrder nowSecs (candidatesFor cfg s orders)\<rparr>)"
| balance_fails: "mm_poll s = ReadingBalance nowSecs ord rest \<Longrightarrow> mm_step cfg s (s\<lparr>mm_poll := nextOrder nowSecs rest\<rparr>)"
| balance_read: "mm_poll s = ReadingBalance nowSecs ord rest \<Longrightarrow> mm_step cfg s (balanceRead cfg nowSecs ord rest freshBalance s)"
| sign_fails: "mm_poll s = SigningProposal nowSecs ord amount rest \<Longrightarrow> mm_step cfg s (released nowSecs ord amount rest s)"
| signed: "mm_poll s = SigningProposal nowSecs ord amount rest \<Longrightarrow> mm_step cfg s (s\<lparr>mm_poll := Submitting nowSecs ord amount rest\<rparr>)"
| submit_fails: "mm_poll s = Submitting nowSecs ord amount rest \<Longrightarrow> mm_step cfg s (released nowSecs ord amount rest s)"
| submitted: "mm_poll s = Submitting nowSecs ord amount rest \<Longrightarrow> mm_step cfg s (submittedAs cfg nowSecs ord amount rest i s)"
| sync_starts: "mm_sync s = SyncIdle \<Longrightarrow> mm_step cfg s (s\<lparr>mm_sync := FetchingProposals nowSecs\<rparr>)"
| sync_fails: "mm_sync s = FetchingProposals nowSecs \<Longrightarrow> mm_step cfg s (s\<lparr>mm_sync := SyncIdle\<rparr>)"
| synced: "mm_sync s = FetchingProposals nowSecs \<Longrightarrow> mm_step cfg s (syncWith nowSecs activeIds s)"

inductive_cases mm_stepE: "mm_step cfg s t"

text \<open>The start: the balances read at startup, nothing reserved, nothing proposed.\<close>

definition mm_init :: "mm_config \<Rightarrow> mm \<Rightarrow> bool" where
  "mm_init cfg s \<longleftrightarrow> (\<exists>usdcBalance usdtBalance. s =
     \<lparr>mm_available = jm_of [(lower (mc_usdcAddress cfg), usdcBalance), (lower (mc_usdtAddress cfg), usdtBalance)],
      mm_reserved = jm_of [(lower (mc_usdcAddress cfg), 0), (lower (mc_usdtAddress cfg), 0)],
      mm_proposals = [], mm_poll = PollIdle, mm_sync = SyncIdle\<rparr>)"

section \<open>What is promised\<close>

definition activeAmount :: "string \<Rightarrow> cached_proposal \<Rightarrow> int" where
  "activeAmount token c = (if ca_status c = Active \<and> ca_buyToken c = token then ca_sellAmount c else 0)"

fun inSubmission :: "string \<Rightarrow> mm_poll \<Rightarrow> int" where
  "inSubmission token (SigningProposal nowSecs ord amount rest) = (if lower (ob_buyToken ord) = token then amount else 0)"
| "inSubmission token (Submitting nowSecs ord amount rest) = (if lower (ob_buyToken ord) = token then amount else 0)"
| "inSubmission token _ = 0"

definition promised :: "string \<Rightarrow> mm \<Rightarrow> int" where
  "promised token s = sum_list (map (activeAmount token \<circ> snd) (mm_proposals s)) + inSubmission token (mm_poll s)"

fun waiting :: "mm_poll \<Rightarrow> orderbook_order list" where
  "waiting (ReadingBalance nowSecs ord rest) = ord # rest"
| "waiting (SigningProposal nowSecs ord amount rest) = ord # rest"
| "waiting (Submitting nowSecs ord amount rest) = ord # rest"
| "waiting _ = []"

fun sending :: "mm_poll \<Rightarrow> (string \<times> int) option" where
  "sending (SigningProposal nowSecs ord amount rest) = Some (lower (ob_buyToken ord), amount)"
| "sending (Submitting nowSecs ord amount rest) = Some (lower (ob_buyToken ord), amount)"
| "sending _ = None"

definition mm_inv :: "mm \<Rightarrow> bool" where
  "mm_inv s \<longleftrightarrow> jm_ok (mm_proposals s) \<and>
     (\<forall>token. balanceOf (mm_reserved s) token = promised token s) \<and>
     (\<forall>uid c. jm_get (mm_proposals s) uid = Some c \<longrightarrow> 0 \<le> ca_sellAmount c) \<and>
     distinct (map (lower \<circ> ob_uid) (waiting (mm_poll s))) \<and>
     (\<forall>ord \<in> set (waiting (mm_poll s)). 0 \<le> ob_sellAmount ord \<and> jm_get (mm_proposals s) (lower (ob_uid ord)) = None) \<and>
     (\<forall>token amount. sending (mm_poll s) = Some (token, amount) \<longrightarrow>
        0 \<le> amount \<and> balanceOf (mm_reserved s) token \<le> balanceOf (mm_available s) token)"

lemma balanceOf_set [simp]: "balanceOf (jm_set k v m) t = (if t = k then v else balanceOf m t)"
  by (simp add: balanceOf_def jsmap)

lemma sum_jm_set:
  "jm_ok m \<Longrightarrow> sum_list (map (f \<circ> snd) (jm_set k v m)) =
     sum_list (map (f \<circ> snd) m) - (case jm_get m k of None \<Rightarrow> 0 | Some u \<Rightarrow> f u) + (f v :: int)"
proof (induction m)
  case (Cons p m)
  obtain k' v' where p: "p = (k', v')" by (cases p)
  show ?case using Cons by (simp add: p jm_ok_def)
qed simp

lemma sum_jm_delete:
  "jm_ok m \<Longrightarrow> sum_list (map (f \<circ> snd) (jm_delete k m)) =
     sum_list (map (f \<circ> snd) m) - (case jm_get m k of None \<Rightarrow> 0 | Some u \<Rightarrow> (f u :: int))"
proof (induction m)
  case (Cons p m)
  obtain k' v' where p: "p = (k', v')" by (cases p)
  have "jm_delete k m = m" if "k \<notin> set (map fst m)"
    using that by (force simp: jm_delete_def filter_id_conv)
  then show ?case using Cons by (auto simp: p jm_ok_def jm_delete_def)
qed (simp add: jm_delete_def)

lemma nextOrder_simps [simp]: "inSubmission token (nextOrder n os) = 0" "waiting (nextOrder n os) = os" "sending (nextOrder n os) = None"
  by (cases os; simp)+

lemma candidatesFor_fresh:
  assumes "well_formed_orders orders"
  shows "distinct (map (lower \<circ> ob_uid) (candidatesFor cfg s orders))"
    "ord \<in> set (candidatesFor cfg s orders) \<Longrightarrow> 0 \<le> ob_sellAmount ord \<and> jm_get (mm_proposals s) (lower (ob_uid ord)) = None"
  using assms
  by (auto simp: candidatesFor_def filterCandidates_def well_formed_orders_def Let_def distinct_map_filter list_all_iff
      map_of_eq_None_iff split: if_splits)

lemma balanceRead_inv:
  assumes "mm_inv s" "mm_poll s = ReadingBalance n ord rest" "0 \<le> mc_forcedSurplus cfg"
  shows "mm_inv (balanceRead cfg n ord rest b s)"
  using assms by (auto simp: mm_inv_def balanceRead_def addReserved_def promised_def netAvailable_def Let_def)

lemma released_inv:
  assumes "mm_inv s" "mm_poll s = SigningProposal n ord a rest \<or> mm_poll s = Submitting n ord a rest"
  shows "mm_inv (released n ord a rest s)"
  using assms by (auto simp: mm_inv_def released_def addReserved_def promised_def)

lemma submitted_inv:
  assumes inv: "mm_inv s" and poll: "mm_poll s = Submitting n ord a rest"
  shows "mm_inv (submittedAs cfg n ord a rest i s)"
proof -
  let ?c = "\<lparr>ca_proposalId = i, ca_validUntil = n + mc_maxProposalLifetimeSecs cfg, ca_status = Active,
    ca_buyToken = lower (ob_buyToken ord), ca_sellAmount = a\<rparr>"
  have ok: "jm_ok (mm_proposals s)" and fresh: "jm_get (mm_proposals s) (lower (ob_uid ord)) = None" and "0 \<le> a"
    using inv poll by (auto simp: mm_inv_def)
  have "promised t (submittedAs cfg n ord a rest i s) = promised t s" for t
    using fresh by (simp add: submittedAs_def promised_def sum_jm_set [OF ok] poll activeAmount_def)
  moreover have "\<forall>o' \<in> set rest. lower (ob_uid o') \<noteq> lower (ob_uid ord)"
  proof
    fix o' assume "o' \<in> set rest"
    then have "(lower \<circ> ob_uid) o' \<in> set (map (lower \<circ> ob_uid) rest)" by simp
    moreover have "(lower \<circ> ob_uid) ord \<notin> set (map (lower \<circ> ob_uid) rest)" using inv poll by (simp add: mm_inv_def)
    ultimately show "lower (ob_uid o') \<noteq> lower (ob_uid ord)" by (metis comp_apply)
  qed
  ultimately show ?thesis using inv poll ok \<open>0 \<le> a\<close>
    by (simp add: mm_inv_def submittedAs_def jsmap jm_ok_set)
qed

lemma deactivate_inv:
  assumes inv: "mm_inv s" and cached: "jm_get (mm_proposals s) uid = Some c" and act: "ca_status c = Active"
  shows "mm_inv (addReserved (ca_buyToken c) (- ca_sellAmount c)
    (s\<lparr>mm_proposals := jm_set uid (c\<lparr>ca_status := Deactivated\<rparr>) (mm_proposals s)\<rparr>))" (is "mm_inv ?s")
proof -
  have ok: "jm_ok (mm_proposals s)" and nonneg: "0 \<le> ca_sellAmount c" using inv cached by (auto simp: mm_inv_def)
  have "promised t ?s = promised t s - (if ca_buyToken c = t then ca_sellAmount c else 0)" for t
    by (simp add: addReserved_def promised_def sum_jm_set [OF ok] cached activeAmount_def act)
  moreover have "balanceOf (mm_reserved ?s) t = balanceOf (mm_reserved s) t - (if ca_buyToken c = t then ca_sellAmount c else 0)" for t
    by (simp add: addReserved_def)
  moreover have "\<forall>ord \<in> set (waiting (mm_poll s)). lower (ob_uid ord) \<noteq> uid" using inv cached by (auto simp: mm_inv_def)
  moreover have "mm_available ?s = mm_available s" "mm_poll ?s = mm_poll s"
    "mm_proposals ?s = jm_set uid (c\<lparr>ca_status := Deactivated\<rparr>) (mm_proposals s)"
    by (simp_all add: addReserved_def)
  ultimately have facts: "\<And>t. promised t ?s = promised t s - (if ca_buyToken c = t then ca_sellAmount c else 0)"
    "\<And>t. balanceOf (mm_reserved ?s) t = balanceOf (mm_reserved s) t - (if ca_buyToken c = t then ca_sellAmount c else 0)"
    "\<And>ord. ord \<in> set (waiting (mm_poll s)) \<Longrightarrow> lower (ob_uid ord) \<noteq> uid"
    "mm_available ?s = mm_available s" "mm_poll ?s = mm_poll s"
    "mm_proposals ?s = jm_set uid (c\<lparr>ca_status := Deactivated\<rparr>) (mm_proposals s)"
    by blast+
  show ?thesis
    unfolding mm_inv_def facts(4,5,6)
  proof (intro conjI allI impI ballI)
    show "jm_ok (jm_set uid (c\<lparr>ca_status := Deactivated\<rparr>) (mm_proposals s))" using ok by (rule jm_ok_set)
    show "balanceOf (mm_reserved ?s) t = promised t ?s" for t
      using inv unfolding facts(1,2) by (simp add: mm_inv_def)
    show "0 \<le> ca_sellAmount d" if "jm_get (jm_set uid (c\<lparr>ca_status := Deactivated\<rparr>) (mm_proposals s)) k = Some d" for k d
      using inv that nonneg by (auto simp: mm_inv_def jsmap split: if_splits)
    show "distinct (map (lower \<circ> ob_uid) (waiting (mm_poll s)))" using inv by (simp add: mm_inv_def)
    show "0 \<le> ob_sellAmount ord" if "ord \<in> set (waiting (mm_poll s))" for ord using inv that by (simp add: mm_inv_def)
    show "jm_get (jm_set uid (c\<lparr>ca_status := Deactivated\<rparr>) (mm_proposals s)) (lower (ob_uid ord)) = None"
      if "ord \<in> set (waiting (mm_poll s))" for ord using inv that facts(3) by (simp add: mm_inv_def jsmap)
    show "0 \<le> a" if "sending (mm_poll s) = Some (t, a)" for t a using inv that unfolding mm_inv_def by blast
    show "balanceOf (mm_reserved ?s) t \<le> balanceOf (mm_available s) t" if "sending (mm_poll s) = Some (t, a)" for t a
    proof -
      have "balanceOf (mm_reserved s) t \<le> balanceOf (mm_available s) t" using inv that unfolding mm_inv_def by blast
      then show ?thesis using nonneg unfolding facts(2) by simp
    qed
  qed
qed

lemma drop_inv:
  assumes inv: "mm_inv s" and cached: "jm_get (mm_proposals s) uid = Some c" and act: "ca_status c = Deactivated"
  shows "mm_inv (s\<lparr>mm_proposals := jm_delete uid (mm_proposals s)\<rparr>)"
proof -
  have ok: "jm_ok (mm_proposals s)" using inv by (simp add: mm_inv_def)
  have "promised t (s\<lparr>mm_proposals := jm_delete uid (mm_proposals s)\<rparr>) = promised t s" for t
    by (simp add: promised_def sum_jm_delete [OF ok] cached activeAmount_def act)
  then show ?thesis using inv ok by (auto simp: mm_inv_def jsmap)
qed

lemma syncEntry_inv:
  assumes "mm_inv s" "jm_get (mm_proposals s) uid = Some c"
  shows "mm_inv (syncEntry n ids (uid, c) s)"
    "k \<noteq> uid \<Longrightarrow> jm_get (mm_proposals (syncEntry n ids (uid, c) s)) k = jm_get (mm_proposals s) k"
proof -
  show "mm_inv (syncEntry n ids (uid, c) s)"
  proof (cases "ca_status c")
    case Active
    then show ?thesis using assms(1) deactivate_inv [OF assms Active] by (simp add: syncEntry_def)
  next
    case Deactivated
    then show ?thesis using assms(1) drop_inv [OF assms Deactivated] by (simp add: syncEntry_def)
  qed
  show "k \<noteq> uid \<Longrightarrow> jm_get (mm_proposals (syncEntry n ids (uid, c) s)) k = jm_get (mm_proposals s) k"
    by (simp add: syncEntry_def addReserved_def jsmap)
qed

lemma mm_sync_inv: "mm_inv (s\<lparr>mm_sync := y\<rparr>) = mm_inv s"
  by (simp add: mm_inv_def promised_def)

lemma syncWith_inv:
  assumes "mm_inv s"
  shows "mm_inv (syncWith n ids s)"
proof -
  have "mm_inv t \<Longrightarrow> distinct (map fst es) \<Longrightarrow> \<forall>(uid, c) \<in> set es. jm_get (mm_proposals t) uid = Some c \<Longrightarrow>
      mm_inv (fold (syncEntry n ids) es t)" for es t
  proof (induction es arbitrary: t)
    case (Cons e es)
    obtain uid c where e: "e = (uid, c)" by (cases e)
    have now: "jm_get (mm_proposals t) uid = Some c" using Cons.prems(3) e by simp
    have "\<forall>(k, d) \<in> set es. jm_get (mm_proposals (syncEntry n ids (uid, c) t)) k = Some d"
    proof
      fix p assume p: "p \<in> set es"
      then have "fst p \<noteq> uid" using Cons.prems(2) by (auto simp: e)
      moreover have "jm_get (mm_proposals t) (fst p) = Some (snd p)" using Cons.prems(3) p by auto
      ultimately show "case p of (k, d) \<Rightarrow> jm_get (mm_proposals (syncEntry n ids (uid, c) t)) k = Some d"
        using syncEntry_inv(2) [OF Cons.prems(1) now] by (simp add: case_prod_beta')
    qed
    moreover have "distinct (map fst es)" using Cons.prems(2) by simp
    ultimately have "mm_inv (fold (syncEntry n ids) es (syncEntry n ids (uid, c) t))"
      using Cons.IH [OF syncEntry_inv(1) [OF Cons.prems(1) now]] by blast
    then show ?case by (simp add: e)
  qed simp
  moreover have ok: "jm_ok (mm_proposals s)" using assms by (simp add: mm_inv_def)
  moreover have "\<forall>(uid, c) \<in> set (mm_proposals s). jm_get (mm_proposals s) uid = Some c" using jm_get_in [OF ok] by blast
  ultimately have "mm_inv (fold (syncEntry n ids) (mm_proposals s) s)" using assms by (simp add: jm_ok_def)
  then show ?thesis by (simp add: syncWith_def mm_sync_inv)
qed

definition mm_safe :: "mm_config \<Rightarrow> mm \<Rightarrow> bool" where
  "mm_safe cfg s \<longleftrightarrow> 0 \<le> mc_forcedSurplus cfg \<and> mm_inv s"

text \<open>The configured surplus is a decimal string without a sign.\<close>

definition mm_start :: "mm_config \<Rightarrow> mm \<Rightarrow> bool" where
  "mm_start cfg s \<longleftrightarrow> 0 \<le> mc_forcedSurplus cfg \<and> mm_init cfg s"

lemma mm_step_inv:
  assumes "mm_step cfg s t" "mm_inv s" "0 \<le> mc_forcedSurplus cfg"
  shows "mm_inv t"
  using assms(1)
proof cases
  case (poll_starts n)
  then show ?thesis using assms(2) by (simp add: mm_inv_def promised_def)
next
  case (fetch_fails n)
  then show ?thesis using assms(2) by (simp add: mm_inv_def promised_def)
next
  case (orders_fetched n orders)
  then show ?thesis using assms(2) candidatesFor_fresh(1) [OF orders_fetched(3), of cfg s]
      candidatesFor_fresh(2) [OF orders_fetched(3), of _ cfg s]
    by (simp add: mm_inv_def promised_def)
next
  case (balance_fails n ord rest)
  then show ?thesis using assms(2) by (simp add: mm_inv_def promised_def)
next
  case (signed n ord a rest)
  then have "promised token t = promised token s" for token by (simp add: promised_def)
  moreover have "balanceOf (mm_reserved s) token = promised token s" for token using assms(2) by (simp add: mm_inv_def)
  ultimately show ?thesis using signed assms(2) by (simp add: mm_inv_def)
next
  case (balance_read n ord rest b)
  then show ?thesis using assms(2,3) balanceRead_inv by simp
next
  case (sign_fails n ord a rest)
  then show ?thesis using assms(2) released_inv by simp
next
  case (submit_fails n ord a rest)
  then show ?thesis using assms(2) released_inv by simp
next
  case (submitted n ord a rest i)
  then show ?thesis using assms(2) submitted_inv by simp
next
  case (synced n ids)
  then show ?thesis using assms(2) syncWith_inv by simp
qed (use assms(2) in \<open>simp_all add: mm_sync_inv\<close>)

interpretation mm: invariant_machine "mm_start cfg" "mm_step cfg" "mm_safe cfg" for cfg
proof
  show "mm_start cfg s \<Longrightarrow> mm_safe cfg s" for s
    by (auto simp: mm_start_def mm_init_def mm_safe_def mm_inv_def promised_def jm_of_def balanceOf_def)
  show "mm_safe cfg s \<Longrightarrow> mm_step cfg s t \<Longrightarrow> mm_safe cfg t" for s t by (auto simp: mm_safe_def intro: mm_step_inv)
qed

text \<open>
  C19. However the two loops of the market maker interleave and whatever fails, the reservation of a token is
  exactly the sum of the deliveries of its active proposals and of the one being signed or submitted; while one
  is, everything promised in its token is covered by the trampoline's balance read for it.
\<close>

theorem mm_reservations_exact:
  assumes "reachable (mm_start cfg) (mm_step cfg) s"
  shows "(\<forall>token. balanceOf (mm_reserved s) token = promised token s) \<and>
    (\<forall>token amount. sending (mm_poll s) = Some (token, amount) \<longrightarrow> promised token s \<le> balanceOf (mm_available s) token)"
  using mm.reachable_inv [OF assms] by (auto simp: mm_safe_def mm_inv_def)

definition exampleMm :: mm_config where
  "exampleMm = \<lparr>mc_usdcAddress = ''0xC1'', mc_usdtAddress = ''0xD2'', mc_forcedSurplus = 1, mc_maxProposalLifetimeSecs = 240\<rparr>"

definition exampleStable :: orderbook_order where
  "exampleStable = \<lparr>ob_uid = ''0xAA'', ob_sellToken = ''0xc1'', ob_buyToken = ''0xd2'', ob_sellAmount = 50, ob_buyAmount = 49,
     ob_kind = ''sell'', ob_fullSellAmount = 50, ob_fullBuyAmount = 49, ob_estimatedNativeSurplus = 0, ob_nativeBuyValue = 0,
     ob_nativeSellValue = 0, ob_createdAt = None\<rparr>"

definition exampleStart :: mm where
  "exampleStart = \<lparr>mm_available = [(''0xc1'', 0), (''0xd2'', 100)], mm_reserved = [(''0xc1'', 0), (''0xd2'', 0)],
     mm_proposals = [], mm_poll = PollIdle, mm_sync = SyncIdle\<rparr>"

definition exampleReserved :: mm where
  "exampleReserved = balanceRead exampleMm 7 exampleStable [] 80 (exampleStart\<lparr>mm_poll := ReadingBalance 7 exampleStable []\<rparr>)"

lemma exampleReserved_reachable:
  "reachable (mm_start exampleMm) (mm_step exampleMm) exampleReserved" "sending (mm_poll exampleReserved) = Some (''0xd2'', 51)"
  "balanceOf (mm_available exampleReserved) ''0xd2'' = 80"
proof -
  have low: "lower ''0xC1'' = ''0xc1''" "lower ''0xD2'' = ''0xd2''" "lower ''0xd2'' = ''0xd2''" by code_simp+
  have "mm_start exampleMm exampleStart"
    unfolding mm_start_def mm_init_def
    by (rule conjI, simp add: exampleMm_def, rule exI [of _ 0], rule exI [of _ 100])
      (simp add: exampleMm_def exampleStart_def low jm_of_def)
  then have "reachable (mm_start exampleMm) (mm_step exampleMm) exampleStart" by (rule reach_init)
  moreover have "mm_step exampleMm exampleStart (exampleStart\<lparr>mm_poll := FetchingOrders 7\<rparr>)"
    by (rule mm_step.poll_starts) (simp add: exampleStart_def)
  moreover have "mm_step exampleMm (exampleStart\<lparr>mm_poll := FetchingOrders 7\<rparr>) (exampleStart\<lparr>mm_poll := ReadingBalance 7 exampleStable []\<rparr>)"
  proof -
    have "candidatesFor exampleMm (exampleStart\<lparr>mm_poll := FetchingOrders 7\<rparr>) [exampleStable] = [exampleStable]" by code_simp
    then show ?thesis
      using mm_step.orders_fetched [of "exampleStart\<lparr>mm_poll := FetchingOrders 7\<rparr>" 7 "[exampleStable]" exampleMm]
      by (simp add: well_formed_orders_def exampleStable_def)
  qed
  moreover have "mm_step exampleMm (exampleStart\<lparr>mm_poll := ReadingBalance 7 exampleStable []\<rparr>) exampleReserved"
    unfolding exampleReserved_def by (rule mm_step.balance_read) simp
  ultimately show "reachable (mm_start exampleMm) (mm_step exampleMm) exampleReserved" by (meson reach_step)
  show "sending (mm_poll exampleReserved) = Some (''0xd2'', 51)" "balanceOf (mm_available exampleReserved) ''0xd2'' = 80"
    by (simp_all add: exampleReserved_def balanceRead_def exampleStable_def exampleStart_def exampleMm_def low netAvailable_def
        addReserved_def balanceOf_def Let_def)
qed

theorem mm_reservations_exact_witness:
  "promised ''0xd2'' exampleReserved \<le> 80 \<and> balanceOf (mm_reserved exampleReserved) ''0xd2'' = promised ''0xd2'' exampleReserved"
  using mm_reservations_exact [OF exampleReserved_reachable(1)] exampleReserved_reachable(2,3) by metis

text \<open>
  The reservation follows the market maker's cache, and the cache can be wrong: a synchronisation whose answer
  was fetched before a proposal was submitted does not list it, deactivates it and releases its reservation
  although the server holds it.
\<close>

lemma stale_synchronization_releases:
  assumes "mm_poll s = Submitting n ord a rest" "mm_sync s = FetchingProposals t" "mm_proposals s = []" "i \<notin> activeIds"
  shows "\<exists>s1 s2. mm_step cfg s s1 \<and> mm_step cfg s1 s2 \<and> s1 = submittedAs cfg n ord a rest i s \<and>
    promised (lower (ob_buyToken ord)) s1 = a \<and> promised (lower (ob_buyToken ord)) s2 = 0 \<and>
    balanceOf (mm_reserved s2) (lower (ob_buyToken ord)) = balanceOf (mm_reserved s1) (lower (ob_buyToken ord)) - a"
proof (intro exI conjI)
  let ?s1 = "submittedAs cfg n ord a rest i s"
  show "mm_step cfg s ?s1" using assms(1) by (rule mm_step.submitted)
  have "mm_sync ?s1 = FetchingProposals t" using assms(2) by (simp add: submittedAs_def)
  then show "mm_step cfg ?s1 (syncWith t activeIds ?s1)" by (rule mm_step.synced)
qed (use assms in \<open>simp_all add: submittedAs_def syncWith_def syncEntry_def addReserved_def promised_def activeAmount_def\<close>)

end
