(* ===== verification/Polling_Subsolvers.thy ===== *)
theory Polling_Subsolvers
  imports Subsolver_Discovery
begin

text \<open>
  The two sub-solvers that poll an auction and quote with an outside venue: Fynd
  (\<open>fynd-subsolver.ts\<close>, \<open>fynd-provider.ts\<close>) and Binance (\<open>binance-subsolver.ts\<close>). The classes keep the same
  state and the same cycle; Fynd also asks its side-car whether it is ready. The venues' answers, the server's
  answers, signing and ABI encoding are parameters; log lines are left out.

  The lemmas say what a route must look like to be used, and bound what a cycle sends.
\<close>

section \<open>Routes from Fynd\<close>

record fynd_config =
  fy_chainId :: int
  fy_trampoline :: string
  fy_settlement :: string
  fy_slippageBps :: int
  fy_maxQuoteAgeSeconds :: int

record fynd_quote =
  fq_status :: string
  fq_amountIn :: int
  fq_amountOut :: int
  fq_hasRoute :: bool
  fq_transaction :: "(string \<times> int \<times> string) option"
  fq_minAmountReceived :: "int option"
  fq_receiver :: string
  fq_tokenOut :: string
  fq_blockTimestamp :: int

datatype fynd_error = WrongChain int int | NoRouter

record instance_info =
  in_chainId :: int
  in_routerAddress :: "string option"

definition checkedInfo :: "fynd_config \<Rightarrow> instance_info \<Rightarrow> fynd_error + string" where
  "checkedInfo cfg info =
     (if in_chainId info \<noteq> fy_chainId cfg then Inl (WrongChain (in_chainId info) (fy_chainId cfg))
      else (case in_routerAddress info of None \<Rightarrow> Inl NoRouter | Some r \<Rightarrow> Inr r))"

definition BUY_ETH_ADDRESS :: string where
  "BUY_ETH_ADDRESS = ''0xEeeeeEeeeEeEeeEeEeEeeEEEeeeeEeeeeeeeEEeE''"

text \<open>The orders the provider quotes at all.\<close>

definition fyndSupports :: "candidate_order \<Rightarrow> bool" where
  "fyndSupports ord \<longleftrightarrow> \<not> (co_chainId ord \<noteq> 56 \<or> co_remainingSell ord \<le> 0 \<or> lower (co_sellToken ord) = lower (co_buyToken ord) \<or>
     lower (co_sellToken ord) = lower BUY_ETH_ADDRESS \<or> lower (co_buyToken ord) = lower BUY_ETH_ADDRESS)"

text \<open>\<open>toRoute\<close>; \<open>approve router amount\<close> is the encoded approval.\<close>

definition toRoute :: "fynd_config \<Rightarrow> (string \<Rightarrow> int \<Rightarrow> string) \<Rightarrow> int \<Rightarrow> candidate_order \<Rightarrow> string \<Rightarrow> fynd_quote \<Rightarrow>
    provider_route option" where
  "toRoute cfg approve now ord router q =
     (if fq_status q \<noteq> ''success'' \<or> fq_amountIn q \<noteq> co_remainingSell ord then None
      else if \<not> fq_hasRoute q then None
      else (case (fq_transaction q, fq_minAmountReceived q) of
          (Some (target, value, calldata), Some minReceived) \<Rightarrow>
            if lower target \<noteq> lower router \<or> value \<noteq> 0 then None
            else if minReceived < co_scaledLimitBuy ord then None
            else if lower (fq_receiver q) \<noteq> lower (fy_settlement cfg) then None
            else if lower (fq_tokenOut q) \<noteq> lower (co_buyToken ord) then None
            else if now - fq_blockTimestamp q > fy_maxQuoteAgeSeconds cfg then None
            else Some \<lparr>pr_quoteBuyAmount = fq_amountOut q, pr_minBuyAmount = minReceived,
              pr_interactions =
                [\<lparr>i_target = co_sellToken ord, i_value = 0, i_callData = approve router (co_remainingSell ord)\<rparr>,
                 \<lparr>i_target = target, i_value = 0, i_callData = calldata\<rparr>]\<rparr>
        | _ \<Rightarrow> None))"

text \<open>\<open>FyndProvider.quote\<close> with the side-car's information (cached after the first success) and its quote.\<close>

definition fyndQuote :: "fynd_config \<Rightarrow> (string \<Rightarrow> int \<Rightarrow> string) \<Rightarrow> int \<Rightarrow> (string + instance_info) \<Rightarrow>
    (candidate_order \<Rightarrow> string + fynd_quote) \<Rightarrow> candidate_order \<Rightarrow> string option \<Rightarrow> quote_outcome \<times> string option" where
  "fyndQuote cfg approve now infoAnswer quoteAnswer ord router =
     (if \<not> fyndSupports ord then (Quoted None, router)
      else (case (case router of Some r \<Rightarrow> Inr r
                  | None \<Rightarrow> (case infoAnswer of Inl e \<Rightarrow> Inl e
                     | Inr info \<Rightarrow> (case checkedInfo cfg info of Inl _ \<Rightarrow> Inl ''FyndConfigurationError'' | Inr r \<Rightarrow> Inr r))) of
          Inl e \<Rightarrow> (QuoteFailed e, router)
        | Inr r \<Rightarrow>
            (case quoteAnswer ord of
               Inl e \<Rightarrow> (QuoteFailed e, Some r)
             | Inr q \<Rightarrow> (Quoted (toRoute cfg approve now ord r q), Some r))))"

text \<open>
  A Fynd route is only used when it protects the order's floor, pays the settlement contract in the order's
  buy token, calls the side-car's router with no value, approves it for exactly the amount sold, and is fresh.
\<close>

lemma toRoute_guarded:
  assumes "toRoute cfg approve now ord router q = Some r"
  shows "co_scaledLimitBuy ord \<le> pr_minBuyAmount r \<and> fq_amountIn q = co_remainingSell ord \<and>
    lower (fq_receiver q) = lower (fy_settlement cfg) \<and> lower (fq_tokenOut q) = lower (co_buyToken ord) \<and>
    now - fq_blockTimestamp q \<le> fy_maxQuoteAgeSeconds cfg \<and>
    (\<exists>target calldata. lower target = lower router \<and> pr_interactions r =
       [\<lparr>i_target = co_sellToken ord, i_value = 0, i_callData = approve router (co_remainingSell ord)\<rparr>,
        \<lparr>i_target = target, i_value = 0, i_callData = calldata\<rparr>])"
  using assms by (auto simp: toRoute_def split: if_splits option.splits)

section \<open>Routes from Binance\<close>

record swap_tx =
  st_to :: string
  st_data :: string
  st_value :: string
  st_minReceiveAmount :: string

record quote_data =
  qd_quoteId :: string
  qd_executionMode :: string
  qd_approveTarget :: string

text \<open>\<open>getQuotes\<close> keeps the quotes executed as a swap; an unsuccessful answer throws.\<close>

definition swapQuotes :: "quote_data list option \<Rightarrow> quote_data list option" where
  "swapQuotes answer = map_option (filter (\<lambda>q. qd_executionMode q = ''SWAP'')) answer"

text \<open>
  The pair with the shortest calldata, the first of several; a swap without transaction counts as the largest.
\<close>

definition callSize :: "quote_data \<times> swap_tx option \<Rightarrow> int" where
  "callSize p = (case snd p of None \<Rightarrow> 2 ^ 53 - 1 | Some tx \<Rightarrow> int (length (st_data tx)))"

fun smallest :: "quote_data \<times> swap_tx option \<Rightarrow> (quote_data \<times> swap_tx option) list \<Rightarrow> quote_data \<times> swap_tx option" where
  "smallest a [] = a"
| "smallest a (b # rest) = smallest (if callSize b < callSize a then b else a) rest"

datatype token_call = ApproveMax (tc_spender: string) | TransferTo (tc_to: string) (tc_amount: int)

text \<open>
  \<open>BinanceProvider.quote\<close>: the quotes (\<open>None\<close> throws), and the swap of each (outer \<open>None\<close> throws, and with
  it the whole quote; inner \<open>None\<close> is a missing transaction).
\<close>

definition binanceQuote :: "string \<Rightarrow> (token_call \<Rightarrow> string) \<Rightarrow> quote_data list option \<Rightarrow> (quote_data \<Rightarrow> swap_tx option option) \<Rightarrow>
    candidate_order \<Rightarrow> quote_outcome" where
  "binanceQuote settlement encode answer buildSwap ord =
     (case swapQuotes answer of
        None \<Rightarrow> QuoteFailed ''Binance API error''
      | Some [] \<Rightarrow> Quoted None
      | Some (q # qs) \<Rightarrow>
          (case those (map buildSwap (q # qs)) of
             None \<Rightarrow> QuoteFailed ''Binance API error''
           | Some txs \<Rightarrow>
               (case smallest (hd (zip (q # qs) txs)) (tl (zip (q # qs) txs)) of
                  (_, None) \<Rightarrow> Quoted None
                | (best, Some tx) \<Rightarrow>
                    (case (BigInt (st_minReceiveAmount tx), BigInt (if st_value tx = [] then ''0'' else st_value tx)) of
                       (Some minBuyAmount, Some value) \<Rightarrow> Quoted (Some
                         \<lparr>pr_quoteBuyAmount = minBuyAmount, pr_minBuyAmount = minBuyAmount,
                          pr_interactions =
                            [\<lparr>i_target = co_sellToken ord, i_value = 0, i_callData = encode (ApproveMax (qd_approveTarget best))\<rparr>,
                             \<lparr>i_target = st_to tx, i_value = value, i_callData = st_data tx\<rparr>,
                             \<lparr>i_target = co_buyToken ord, i_value = 0, i_callData = encode (TransferTo settlement minBuyAmount)\<rparr>]\<rparr>)
                     | _ \<Rightarrow> QuoteFailed ''SyntaxError''))))"

lemma smallest_least: "\<forall>p \<in> set (a # rest). callSize (smallest a rest) \<le> callSize p" "smallest a rest \<in> set (a # rest)"
proof -
  show "\<forall>p \<in> set (a # rest). callSize (smallest a rest) \<le> callSize p"
  proof (induction a rest rule: smallest.induct)
    case (2 a b rest)
    then have "callSize (smallest (if callSize b < callSize a then b else a) rest) \<le> callSize (if callSize b < callSize a then b else a)"
      by simp
    then show ?case using 2 by (auto split: if_splits)
  qed simp
  show "smallest a rest \<in> set (a # rest)" by (induction a rest rule: smallest.induct) (auto split: if_splits)
qed

text \<open>
  What Binance guarantees is what is promised, and the trampoline hands exactly that on to the settlement
  contract: a quoted route has no slippage and ends with the transfer of its minimum.
\<close>

lemma binanceQuote_promises_minimum:
  assumes "binanceQuote settlement encode answer buildSwap ord = Quoted (Some r)"
  shows "pr_quoteBuyAmount r = pr_minBuyAmount r \<and>
    last (pr_interactions r) = \<lparr>i_target = co_buyToken ord, i_value = 0, i_callData = encode (TransferTo settlement (pr_minBuyAmount r))\<rparr>"
  using assms by (auto simp: binanceQuote_def split: option.splits list.splits prod.splits)

section \<open>The cycle\<close>

record live_entry =
  le_id :: int
  le_validUntil :: int
  le_lastSubmitted :: int

record poller =
  pl_live :: "(string, live_entry) jsmap"
  pl_hasSynchronized :: bool
  pl_nextSynchronizationAt :: int
  pl_retryAtMs :: rat
  pl_budget :: request_budget

record poller_config =
  pg_chainId :: int
  pg_proposalRefreshIntervalSeconds :: int
  pg_proposalTtlSeconds :: int
  pg_quoteConcurrency :: "int option"
  pg_domain :: typed_domain
  pg_sign :: signer
  pg_sig :: sig_lib

text \<open>
  What one cycle meets: the selected orders (\<open>None\<close> when fetching them fails), the clock in milliseconds, the
  server's list, whether the side-car is ready (\<open>None\<close> where there is none to ask, a failed check counts as
  not ready), the settled quotes, the nonces and the answers to submissions.
\<close>

record cycle_env =
  cy_orders :: "orderbook_order list option"
  cy_nowMs :: int
  cy_proposals :: "client_error + proposal_metadata list"
  cy_ready :: "bool option"
  cy_quote :: "candidate_order \<Rightarrow> quote_outcome"
  cy_nonce :: "string \<Rightarrow> int"
  cy_submit :: "signed_proposal \<Rightarrow> client_error + int"

definition handleByosError :: "cycle_env \<Rightarrow> client_error \<Rightarrow> poller \<Rightarrow> poller" where
  "handleByosError env e s =
     (case e of ByosRateLimited retryAfterMs \<Rightarrow> s\<lparr>pl_retryAtMs := of_int (cy_nowMs env) + retryAfterMs\<rparr> | _ \<Rightarrow> s)"

definition liveFrom :: "int \<Rightarrow> proposal_metadata list \<Rightarrow> (string, live_entry) jsmap" where
  "liveFrom now listed =
     jm_of (map (\<lambda>p. (lower (pm_orderUid p), \<lparr>le_id = pm_id p, le_validUntil = pm_validUntil p, le_lastSubmitted = now\<rparr>))
       (filter (\<lambda>p. \<not> (isTerminalStatus (pm_status p) \<or> pm_validUntil p < now)) listed))"

definition synchronize :: "poller_config \<Rightarrow> cycle_env \<Rightarrow> int \<Rightarrow> poller \<Rightarrow> bool \<times> poller" where
  "synchronize cfg env now s =
     (case consumeRead (cy_nowMs env) (cy_nowMs env) (pl_budget s) of (granted, b) \<Rightarrow>
        let s1 = s\<lparr>pl_budget := b\<rparr> in
        if \<not> granted then (False, s1)
        else (case cy_proposals env of
            Inr listed \<Rightarrow>
              (True, s1\<lparr>pl_live := liveFrom now listed, pl_hasSynchronized := True,
                 pl_nextSynchronizationAt := now + pg_proposalRefreshIntervalSeconds cfg\<rparr>)
          | Inl e \<Rightarrow>
              (False, handleByosError env e
                (if pl_hasSynchronized s1
                 then s1\<lparr>pl_nextSynchronizationAt := now + pg_proposalRefreshIntervalSeconds cfg\<rparr> else s1))))"

definition pollOrderOf :: "poller_config \<Rightarrow> orderbook_order \<Rightarrow> poll_order" where
  "pollOrderOf cfg ord = \<lparr>po_uid = ob_uid ord, po_chainId = pg_chainId cfg, po_sellToken = ob_sellToken ord,
     po_buyToken = ob_buyToken ord, po_fullSellAmount = ob_fullSellAmount ord, po_fullBuyAmount = ob_fullBuyAmount ord,
     po_executedSellAmount = ob_fullSellAmount ord - ob_sellAmount ord,
     po_estimatedNativeSurplus = Some (ob_estimatedNativeSurplus ord)\<rparr>"

definition signedFor :: "poller_config \<Rightarrow> cycle_env \<Rightarrow> int \<Rightarrow> orderbook_order \<Rightarrow> candidate_order \<Rightarrow> provider_route \<Rightarrow>
    signed_proposal option" where
  "signedFor cfg env now ord c route =
     buildProposalFromRoute (pg_sig cfg) (pg_sign cfg) (pg_domain cfg)
       \<lparr>px_uid = ob_uid ord, px_sellToken = ob_sellToken ord, px_buyToken = ob_buyToken ord,
        px_sellAmount = co_remainingSell c, px_buyAmount = co_scaledLimitBuy c,
        px_kind = (if ob_kind ord = ''sell'' then SELL else BUY)\<rparr>
       route (now + pg_proposalTtlSeconds cfg) (cy_nonce env (ob_uid ord))"

text \<open>
  The loop over the results: \<open>False\<close> is the return when the submission budget is spent. The proposals sent are
  recorded in front of the state.
\<close>

definition submitResult :: "poller_config \<Rightarrow> cycle_env \<Rightarrow> int \<Rightarrow> (string, orderbook_order) jsmap \<Rightarrow> candidate_order \<Rightarrow>
    signed_proposal list \<times> poller \<Rightarrow> bool \<times> signed_proposal list \<times> poller" where
  "submitResult cfg env now byUid c s =
     (case jm_get byUid (lower (co_uid c)) of
        None \<Rightarrow> (True, s)
      | Some ord \<Rightarrow>
          (case cy_quote env c of
             QuoteFailed _ \<Rightarrow> (True, s)
           | Quoted None \<Rightarrow> (True, s)
           | Quoted (Some route) \<Rightarrow>
               (case consumeSubmission (cy_nowMs env) (cy_nowMs env) (pl_budget (snd s)) of
                  (False, b) \<Rightarrow> (False, fst s, (snd s)\<lparr>pl_budget := b\<rparr>)
                | (True, b) \<Rightarrow>
                    let s1 = (snd s)\<lparr>pl_budget := b\<rparr> in
                    (case signedFor cfg env now ord c route of
                       None \<Rightarrow> (True, fst s, s1)
                     | Some p \<Rightarrow>
                         (case cy_submit env p of
                            Inl e \<Rightarrow> (True, fst s @ [p], handleByosError env e s1)
                          | Inr i \<Rightarrow> (True, fst s @ [p], s1\<lparr>pl_live := jm_set (lower (ob_uid ord))
                              \<lparr>le_id = i, le_validUntil = now + pg_proposalTtlSeconds cfg, le_lastSubmitted = now\<rparr> (pl_live s1)\<rparr>))))))"

text \<open>
  \<open>submitRoutes\<close>. The results of \<open>quoteBatch\<close> are in the candidates' order, each with its own quote
  (\<open>quote_batch_completes\<close>); an invalid concurrency throws before anything is sent.
\<close>

definition submitRoutes :: "poller_config \<Rightarrow> cycle_env \<Rightarrow> int \<Rightarrow> orderbook_order list \<Rightarrow> poller \<Rightarrow> signed_proposal list \<times> poller" where
  "submitRoutes cfg env now orders s =
     (case prioritizeCandidates (\<lambda>uid. jm_get (pl_live s) (lower uid) \<noteq> None) (map (pollOrderOf cfg) orders) of
        None \<Rightarrow> ([], s)
      | Some ranked \<Rightarrow>
          (case quoteBatch (map rk_candidate ranked) (pg_quoteConcurrency cfg) of
             None \<Rightarrow> ([], s)
           | Some _ \<Rightarrow>
               snd (for_each (submitResult cfg env now (jm_of (map (\<lambda>ord. (lower (ob_uid ord), ord)) orders)))
                 (map rk_candidate ranked) ([], s))))"

definition dueOrders :: "poller_config \<Rightarrow> int \<Rightarrow> (string, live_entry) jsmap \<Rightarrow> orderbook_order list \<Rightarrow> orderbook_order list" where
  "dueOrders cfg now known orders =
     filter (\<lambda>ord. case jm_get known (lower (ob_uid ord)) of
        None \<Rightarrow> True
      | Some l \<Rightarrow> now - le_lastSubmitted l \<ge> pg_proposalRefreshIntervalSeconds cfg) orders"

definition afterSynchronization :: "poller_config \<Rightarrow> cycle_env \<Rightarrow> int \<Rightarrow> poller \<Rightarrow> bool \<times> poller" where
  "afterSynchronization cfg env now s =
     (if \<not> pl_hasSynchronized s then synchronize cfg env now s
      else if now \<ge> pl_nextSynchronizationAt s then (True, snd (synchronize cfg env now s))
      else (True, s))"

definition pollOnce :: "poller_config \<Rightarrow> cycle_env \<Rightarrow> int \<Rightarrow> poller \<Rightarrow> signed_proposal list \<times> poller" where
  "pollOnce cfg env now s =
     (case cy_orders env of
        None \<Rightarrow> ([], s)
      | Some orders \<Rightarrow>
          if of_int (cy_nowMs env) < pl_retryAtMs s then ([], s)
          else (case afterSynchronization cfg env now s of
              (False, s1) \<Rightarrow> ([], s1)
            | (True, s1) \<Rightarrow>
                let s2 = s1\<lparr>pl_live := filter (\<lambda>(_, l). \<not> le_validUntil l < now) (pl_live s1)\<rparr>;
                    candidates = dueOrders cfg now (pl_live s2) orders
                in if candidates = [] then ([], s2)
                   else if cy_ready env = Some False then ([], s2)
                   else submitRoutes cfg env now candidates s2))"

section \<open>What a cycle sends\<close>

text \<open>The floor of an order at the part left to sell: the least amount at its limit price.\<close>

definition floorOf :: "orderbook_order \<Rightarrow> int" where
  "floorOf ord = ceilDiv (ob_fullBuyAmount ord * ob_sellAmount ord) (ob_fullSellAmount ord)"

text \<open>A proposal that answers an order: its whole remainder, at its limit price or better, signed for the cycle.\<close>

definition answers_order :: "poller_config \<Rightarrow> int \<Rightarrow> orderbook_order \<Rightarrow> signed_proposal \<Rightarrow> bool" where
  "answers_order cfg now ord p \<longleftrightarrow> ob_kind ord = ''sell'' \<and> sp_orderUid p = ob_uid ord \<and> sp_sellToken p = ob_sellToken ord \<and>
     sp_buyToken p = ob_buyToken ord \<and> sp_sellAmount p = ob_sellAmount ord \<and> 0 < ob_sellAmount ord \<and>
     ob_sellAmount ord \<le> ob_fullSellAmount ord \<and> floorOf ord \<le> sp_minBuyAmount p \<and>
     sp_validUntil p = now + pg_proposalTtlSeconds cfg"

definition spent :: "cycle_env \<Rightarrow> poller \<Rightarrow> int" where
  "spent env s = int (length (filter (\<lambda>t. t > cy_nowMs env - 60000) (rb_timestamps (pl_budget s))))"

lemma handleByosError_frame [simp]:
  "pl_budget (handleByosError env e s) = pl_budget s" "pl_live (handleByosError env e s) = pl_live s"
  by (simp_all add: handleByosError_def split: client_error.split)

lemma candidate_of_order:
  assumes "toCandidateOrder (pollOrderOf cfg ord) = Some (Some c)"
  shows "co_uid c = ob_uid ord \<and> co_remainingSell c = ob_sellAmount ord \<and> co_scaledLimitBuy c = floorOf ord \<and>
    0 < ob_sellAmount ord \<and> ob_sellAmount ord \<le> ob_fullSellAmount ord"
  using assms by (auto simp: toCandidateOrder_cases pollOrderOf_def floorOf_def split: if_splits)

lemma consumeSubmission_now:
  assumes "consumeSubmission t t b = (ok, b')"
  shows "rb_limit b' = rb_limit b \<and> rb_reserve b' = rb_reserve b \<and>
    length (filter (\<lambda>u. u > t - 60000) (rb_timestamps b')) = length (filter (\<lambda>u. u > t - 60000) (rb_timestamps b)) + (if ok then 1 else 0) \<and>
    (ok \<longrightarrow> int (length (filter (\<lambda>u. u > t - 60000) (rb_timestamps b))) < rb_limit b - rb_reserve b)"
  using assms by (auto simp: consumeSubmission_def canSubmit_def pushed_def prune_def Let_def split: if_splits)

text \<open>What the loop over the results keeps true of the proposals sent and of the budget.\<close>

definition sends_ok :: "poller_config \<Rightarrow> cycle_env \<Rightarrow> int \<Rightarrow> orderbook_order list \<Rightarrow> request_budget \<Rightarrow> signed_proposal list \<times> poller \<Rightarrow> bool" where
  "sends_ok cfg env now orders b0 s \<longleftrightarrow>
     (\<forall>p \<in> set (fst s). \<exists>ord \<in> set orders. answers_order cfg now ord p) \<and>
     rb_limit (pl_budget (snd s)) = rb_limit b0 \<and> rb_reserve (pl_budget (snd s)) = rb_reserve b0 \<and>
     int (length (fst s)) \<le> spent env (snd s) \<and>
     (fst s \<noteq> [] \<longrightarrow> spent env (snd s) \<le> rb_limit b0 - rb_reserve b0)"

lemma signedFor_answers:
  assumes "signedFor cfg env now ord c route = Some p" "toCandidateOrder (pollOrderOf cfg ord) = Some (Some c)"
  shows "answers_order cfg now ord p"
  using assms(1) candidate_of_order [OF assms(2)]
  by (auto simp: signedFor_def buildProposalFromRoute_def answers_order_def Let_def split: if_splits)

lemma submitResult_sends:
  assumes ok: "sends_ok cfg env now orders b0 s"
    and order_of: "\<And>ord. jm_get byUid (lower (co_uid c)) = Some ord \<Longrightarrow> ord \<in> set orders \<and> toCandidateOrder (pollOrderOf cfg ord) = Some (Some c)"
  shows "sends_ok cfg env now orders b0 (snd (submitResult cfg env now byUid c s))"
proof (cases "jm_get byUid (lower (co_uid c))")
  case None
  then show ?thesis using ok by (simp add: submitResult_def)
next
  case (Some ord)
  show ?thesis
  proof (cases "\<exists>route. cy_quote env c = Quoted (Some route)")
    case False
    then show ?thesis using ok Some by (auto simp: submitResult_def split: quote_outcome.split option.split)
  next
    case True
    then obtain route where q: "cy_quote env c = Quoted (Some route)" by blast
    obtain granted b where sub: "consumeSubmission (cy_nowMs env) (cy_nowMs env) (pl_budget (snd s)) = (granted, b)" by fastforce
    note c = consumeSubmission_now [OF sub]
    have res: "submitResult cfg env now byUid c s = (if \<not> granted then (False, fst s, (snd s)\<lparr>pl_budget := b\<rparr>)
       else (case signedFor cfg env now ord c route of
           None \<Rightarrow> (True, fst s, (snd s)\<lparr>pl_budget := b\<rparr>)
         | Some p \<Rightarrow> (case cy_submit env p of
             Inl e \<Rightarrow> (True, fst s @ [p], handleByosError env e ((snd s)\<lparr>pl_budget := b\<rparr>))
           | Inr i \<Rightarrow> (True, fst s @ [p], ((snd s)\<lparr>pl_budget := b\<rparr>)\<lparr>pl_live := jm_set (lower (ob_uid ord))
               \<lparr>le_id = i, le_validUntil = now + pg_proposalTtlSeconds cfg, le_lastSubmitted = now\<rparr> (pl_live ((snd s)\<lparr>pl_budget := b\<rparr>))\<rparr>))))"
      using Some q sub by (cases granted) (simp_all add: submitResult_def Let_def)
    have "fst s \<noteq> [] \<Longrightarrow> spent env (snd s) \<le> rb_limit b0 - rb_reserve b0" using ok by (simp add: sends_ok_def)
    then have idle: "sends_ok cfg env now orders b0 (fst s, (snd s)\<lparr>pl_budget := b\<rparr>)"
      using ok c by (auto simp: sends_ok_def spent_def)
    have sent: "sends_ok cfg env now orders b0 (fst s @ [p], t)"
      if "granted" "signedFor cfg env now ord c route = Some p" "pl_budget t = b" for p t
      using ok c that(1,3) signedFor_answers [OF that(2)] order_of [OF Some] by (auto simp: sends_ok_def spent_def)
    show ?thesis
      unfolding res using idle sent by (auto split: option.split sum.split)
  qed
qed

lemma ranked_candidates:
  assumes "prioritizeCandidates act (map (pollOrderOf cfg) orders) = Some ranked" "c \<in> set (map rk_candidate ranked)"
  shows "\<exists>ord \<in> set orders. toCandidateOrder (pollOrderOf cfg ord) = Some (Some c)"
proof -
  obtain r where r: "r \<in> set ranked" "c = rk_candidate r" using assms(2) by auto
  then obtain ord where "ord \<in> set orders" "r \<in> set (case toCandidateOrder (pollOrderOf cfg ord) of Some (Some c) \<Rightarrow>
      [\<lparr>rk_candidate = c, rk_estimatedNativeSurplus = (case po_estimatedNativeSurplus (pollOrderOf cfg ord) of None \<Rightarrow> 0 | Some v \<Rightarrow> v),
        rk_needsSubmission = (\<not> act (po_uid (pollOrderOf cfg ord)))\<rparr>] | _ \<Rightarrow> [])"
    using assms(1) unfolding prioritizeCandidates_total by auto
  then show ?thesis using r(2) by (intro bexI [of _ ord]) (auto split: option.splits)
qed

lemma submitRoutes_sends:
  assumes "distinct (map (lower \<circ> ob_uid) orders)"
  shows "sends_ok cfg env now orders (pl_budget s) (submitRoutes cfg env now orders s)"
proof -
  have nil: "sends_ok cfg env now orders (pl_budget s) ([], s)" by (simp add: sends_ok_def spent_def)
  let ?byUid = "jm_of (map (\<lambda>ord. (lower (ob_uid ord), ord)) orders)"
  have ok: "jm_ok (map (\<lambda>ord. (lower (ob_uid ord), ord)) orders)" using assms by (simp add: jm_ok_def comp_def)
  have byUid: "jm_get ?byUid (lower u) = Some ord \<Longrightarrow> ord \<in> set orders \<and> lower (ob_uid ord) = lower u" for u ord
    unfolding jm_of_ok [OF ok] using jm_get_in [OF ok, of "lower u" ord] by auto
  show ?thesis
  proof (cases "prioritizeCandidates (\<lambda>uid. jm_get (pl_live s) (lower uid) \<noteq> None) (map (pollOrderOf cfg) orders)")
    case (Some ranked)
    have order_of: "ord \<in> set orders \<and> toCandidateOrder (pollOrderOf cfg ord) = Some (Some c)"
      if mem: "c \<in> set (map rk_candidate ranked)" and get: "jm_get ?byUid (lower (co_uid c)) = Some ord" for c ord
    proof -
      obtain o1 where o1: "o1 \<in> set orders" "toCandidateOrder (pollOrderOf cfg o1) = Some (Some c)"
        using ranked_candidates [OF Some mem] by blast
      have "lower (ob_uid o1) = lower (ob_uid ord)" using candidate_of_order [OF o1(2)] byUid [OF get] by simp
      then have "o1 = ord" using assms o1(1) byUid [OF get] unfolding distinct_map inj_on_def comp_def by blast
      then show ?thesis using o1 by blast
    qed
    have "sends_ok cfg env now orders (pl_budget s)
        (snd (for_each (submitResult cfg env now ?byUid) (map rk_candidate ranked) ([], s)))"
      by (rule for_each_inv [where I = "sends_ok cfg env now orders (pl_budget s)"])
        (use nil submitResult_sends order_of in blast)+
    then show ?thesis using Some nil by (simp add: submitRoutes_def split: option.split)
  qed (simp add: submitRoutes_def nil)
qed

lemma synchronize_budget:
  assumes "synchronize cfg env now s = (ok, t)"
  shows "rb_limit (pl_budget t) = rb_limit (pl_budget s) \<and> rb_reserve (pl_budget t) = rb_reserve (pl_budget s)"
proof -
  obtain g b where c: "consumeRead (cy_nowMs env) (cy_nowMs env) (pl_budget s) = (g, b)" by fastforce
  then have b: "rb_limit b = rb_limit (pl_budget s) \<and> rb_reserve b = rb_reserve (pl_budget s)"
    by (auto simp: consumeRead_def canRead_def pushed_def prune_def Let_def split: if_splits)
  have "pl_budget t = b"
    using assms c by (auto simp: synchronize_def Let_def split: if_splits sum.splits)
  then show ?thesis using b by simp
qed

lemma afterSynchronization_budget:
  assumes "afterSynchronization cfg env now s = (ok, t)"
  shows "rb_limit (pl_budget t) = rb_limit (pl_budget s) \<and> rb_reserve (pl_budget t) = rb_reserve (pl_budget s)"
proof -
  obtain k u where "synchronize cfg env now s = (k, u)" by fastforce
  then show ?thesis using assms synchronize_budget [of cfg env now s k u]
    by (auto simp: afterSynchronization_def split: if_splits)
qed


definition exampleListed :: orderbook_order where
  "exampleListed = \<lparr>ob_uid = exampleUid, ob_sellToken = exampleToken CHR ''a'', ob_buyToken = exampleToken CHR ''b'',
     ob_sellAmount = 50, ob_buyAmount = 15, ob_kind = ''sell'', ob_fullSellAmount = 100, ob_fullBuyAmount = 30,
     ob_estimatedNativeSurplus = 0, ob_nativeBuyValue = 0, ob_nativeSellValue = 0, ob_createdAt = None\<rparr>"

definition examplePoller :: poller where
  "examplePoller = \<lparr>pl_live = [], pl_hasSynchronized = True, pl_nextSynchronizationAt = 100, pl_retryAtMs = 0,
     pl_budget = \<lparr>rb_timestamps = [], rb_limit = 100, rb_reserve = 10\<rparr>\<rparr>"

definition examplePollerConfig :: poller_config where
  "examplePollerConfig = \<lparr>pg_chainId = 56, pg_proposalRefreshIntervalSeconds = 30, pg_proposalTtlSeconds = 60,
     pg_quoteConcurrency = Some 32, pg_domain = byosDomain 56 ''0x90'', pg_sign = (\<lambda>_ _. exampleSignature), pg_sig = exampleSigLib\<rparr>"

definition exampleCycle :: cycle_env where
  "exampleCycle = \<lparr>cy_orders = Some [exampleListed], cy_nowMs = 5, cy_proposals = Inr [], cy_ready = Some True,
     cy_quote = (\<lambda>_. Quoted (Some exampleRoute)), cy_nonce = (\<lambda>_. 1), cy_submit = (\<lambda>_. Inr 7)\<rparr>"


end
