(* ===== verification/Service_Config.thy ===== *)
theory Service_Config
  imports Middleware
begin

text \<open>
  The configuration of the service (\<open>apps/byos/src/config.ts\<close>): the schema as data, field by field, its parsing
  from the environment, the rules between fields, the rate-limit settings built from it and its form for the log.
  \<open>Number(string)\<close>, the URL check and the chain registry are parameters; issue texts are left out, so a refused
  environment is \<open>None\<close>.

  What is proved is what the rest of the service relies on: a configuration that parses gives tier parameters
  the rate function is total on.
\<close>

section \<open>Fields\<close>

text \<open>A JavaScript number as \<open>z.coerce.number()\<close> meets it.\<close>

datatype js_num = NaN | Infinite | Finite rat

datatype presence = Required | Optional | Default string

datatype zod =
  ZString "string \<Rightarrow> bool"
| ZNumber "js_num \<Rightarrow> bool"
| ZEnum "string list"
| ZEndpoints
| ZWhitelist
| ZTrueFlag

datatype config_value =
  Absent
| CStr string
| CNum js_num
| CList "string list"
| CSet "string list option"
| CFlag bool

definition integral :: "(int \<Rightarrow> bool) \<Rightarrow> js_num \<Rightarrow> bool" where
  "integral P n = (case n of Finite r \<Rightarrow> of_int \<lfloor>r\<rfloor> = r \<and> P \<lfloor>r\<rfloor> | _ \<Rightarrow> False)"

definition anyNumber :: "js_num \<Rightarrow> bool" where
  "anyNumber n \<longleftrightarrow> n \<noteq> NaN"

definition bearerChar :: "char \<Rightarrow> bool" where
  "bearerChar c \<longleftrightarrow> base_val c < 36 \<or> c \<in> set ''._~+/-''"

text \<open>\<open>/^[A-Za-z0-9._~+/-]+=*$/\<close>.\<close>

definition bearerToken :: "string \<Rightarrow> bool" where
  "bearerToken s \<longleftrightarrow> takeWhile bearerChar s \<noteq> [] \<and> list_all (\<lambda>c. c = CHR ''='') (dropWhile bearerChar s)"

text \<open>\<open>v.split(",")\<close>: always at least one part.\<close>

fun splitComma :: "string \<Rightarrow> string list" where
  "splitComma [] = [[]]"
| "splitComma (c # s) =
     (if c = CHR '','' then [] # splitComma s else (c # hd (splitComma s)) # tl (splitComma s))"

definition endpointList :: "string option \<Rightarrow> string list" where
  "endpointList v = (if falsy v then [] else filter (\<lambda>u. u \<noteq> []) (map trim (splitComma (the v))))"

text \<open>A JavaScript \<open>Set\<close> of the addresses: duplicates keep their first place.\<close>

definition whitelistOf :: "string option \<Rightarrow> string list option" where
  "whitelistOf v =
     (if falsy v then None
      else let addrs = filter (\<lambda>a. a \<noteq> []) (map (lower \<circ> trim) (splitComma (the v)))
           in if length addrs > 0 then Some (fold js_add addrs []) else None)"

text \<open>One field: what is missing takes its default; only the transformed optional lists look at a missing value.\<close>

definition parseValue :: "(string \<Rightarrow> js_num) \<Rightarrow> zod \<Rightarrow> string \<Rightarrow> config_value option" where
  "parseValue toNumber z s =
     (case z of
        ZString ok \<Rightarrow> if ok s then Some (CStr s) else None
      | ZNumber ok \<Rightarrow> if toNumber s \<noteq> NaN \<and> ok (toNumber s) then Some (CNum (toNumber s)) else None
      | ZEnum names \<Rightarrow> if s \<in> set names then Some (CStr s) else None
      | ZEndpoints \<Rightarrow> Some (CList (endpointList (Some s)))
      | ZWhitelist \<Rightarrow> Some (CSet (whitelistOf (Some s)))
      | ZTrueFlag \<Rightarrow> Some (CFlag (s = ''true'')))"

definition parseField :: "(string \<Rightarrow> js_num) \<Rightarrow> presence \<times> zod \<Rightarrow> string option \<Rightarrow> config_value option" where
  "parseField toNumber field input =
     (case field of (presence, z) \<Rightarrow>
       (case input of
          Some s \<Rightarrow> parseValue toNumber z s
        | None \<Rightarrow>
            (case presence of
               Required \<Rightarrow> None
             | Default s \<Rightarrow> parseValue toNumber z s
             | Optional \<Rightarrow> Some (case z of ZEndpoints \<Rightarrow> CList (endpointList None)
                 | ZWhitelist \<Rightarrow> CSet (whitelistOf None) | _ \<Rightarrow> Absent))))"

section \<open>The schema\<close>

abbreviation positiveInt :: zod where
  "positiveInt \<equiv> ZNumber (integral (\<lambda>n. n > 0))"

abbreviation naturalInt :: zod where
  "naturalInt \<equiv> ZNumber (integral (\<lambda>n. n \<ge> 0))"

definition configSchema :: "(int \<Rightarrow> bool) \<Rightarrow> (string \<Rightarrow> bool) \<Rightarrow> (string \<times> presence \<times> zod) list" where
  "configSchema isSupportedEvmChain isUrl =
    [(''DATABASE_URL'', Required, ZString (\<lambda>_. True)),
     (''REDIS_URL'', Default ''redis://localhost:6379'', ZString (\<lambda>_. True)),
     (''CHAIN_ID'', Required, ZNumber (integral isSupportedEvmChain)),
     (''TRAMPOLINE_FACTORY'', Required, ZString addressString),
     (''PUBLIC_ADDR_PORT'', Default ''9585'', ZNumber anyNumber),
     (''INTERNAL_ADDR_PORT'', Default ''9586'', ZNumber anyNumber),
     (''COW_EXPLORER_URL'', Default ''https://explorer.cow.fi'', ZString isUrl),
     (''SLACK_TOKEN'', Optional, ZString (\<lambda>_. True)),
     (''SLACK_CHANNEL'', Optional, ZString (\<lambda>_. True)),
     (''SUBSOLVER_BEARER'', Optional, ZString bearerToken),
     (''SUBSOLVERS_ENDPOINTS'', Optional, ZEndpoints),
     (''SOLVE_BEARER_TOKEN'', Optional, ZString (\<lambda>_. True)),
     (''SUBSOLVER_WHITELIST'', Optional, ZWhitelist),
     (''RPC_URL'', Required, ZString (\<lambda>_. True)),
     (''ORDERBOOK_URL'', Optional, ZString (\<lambda>_. True)),
     (''ESCROW_ADDRESS'', Required, ZString addressString),
     (''SUBMITTER_ADDRESS'', Optional, ZString addressString),
     (''SETTLEMENT_ADDRESS'', Optional, ZString addressString),
     (''MIN_COLLATERAL'', Default ''10000000000000000'', ZString decimalString),
     (''COLLATERAL_RATIO_BPS'', Default ''4'', naturalInt),
     (''VALIDATION_CONCURRENCY'', Default ''50'', positiveInt),
     (''PENALTY_INTERVAL_SECS'', Default ''12'', ZNumber anyNumber),
     (''RETENTION_SWEEP_INTERVAL_SECS'', Default ''300'', ZNumber anyNumber),
     (''LOG_REDACTION_AFTER_SECS'', Default ''604800'', ZNumber anyNumber),
     (''MAX_PROPOSAL_LIFETIME_SECS'', Default ''300'', ZNumber anyNumber),
     (''BLOCK_DURATION_MS'', Default ''12000'', positiveInt),
     (''OUTCOME_WORKER_INTERVAL_SECS'', Default ''60'', positiveInt),
     (''SELECTOR_BUFFER_MS'', Default ''200'', naturalInt),
     (''MIN_PROPOSAL_SCORE'', Default ''0'', ZString (\<lambda>_. True)),
     (''MAX_PROPOSAL_SLIPPAGE_BPS'', Default ''100'', ZString decimalString),
     (''MAX_PROPOSAL_SLIPPAGE_NATIVE'', Default ''1000000000000000000'', ZString decimalString),
     (''RATE_LIMIT_WINDOW_SECS'', Default ''60'', positiveInt),
     (''RATE_LIMIT_IP_PER_WINDOW'', Default ''6000'', positiveInt),
     (''RATE_UNIT_WEI'', Default ''100000000000000000'',
        ZString (\<lambda>v. decimalString v \<and> (case BigInt v of Some w \<Rightarrow> w > 0 | None \<Rightarrow> False))),
     (''RATE_PER_UNIT'', Default ''300'', positiveInt),
     (''RATE_MIN_PER_WINDOW'', Default ''120'', positiveInt),
     (''RATE_MAX_PER_WINDOW'', Default ''3000'', positiveInt),
     (''BALANCE_REFRESH_INTERVAL_SECS'', Default ''60'', positiveInt),
     (''BALANCE_EVICTION_SECS'', Default ''3600'', positiveInt),
     (''BALANCE_NEGATIVE_TTL_SECS'', Default ''600'', positiveInt),
     (''BALANCE_ACTIVE_SET_MAX'', Default ''10000'', positiveInt),
     (''BALANCE_REFRESH_BATCH_SIZE'', Default ''50'', positiveInt),
     (''OPERATOR_PRIVATE_KEY'', Required, ZString (\<lambda>_. True)),
     (''LOG_LEVEL'', Default ''info'', ZEnum [''trace'', ''debug'', ''info'', ''warn'', ''error'', ''fatal'']),
     (''JSON_LOGS'', Default ''false'', ZTrueFlag)]"

type_synonym config = "(string \<times> config_value) list"

fun parseFields :: "(string \<Rightarrow> js_num) \<Rightarrow> (string \<times> presence \<times> zod) list \<Rightarrow> (string \<Rightarrow> string option) \<Rightarrow> config option" where
  "parseFields toNumber [] env = Some []"
| "parseFields toNumber ((name, field) # rest) env =
     (case (parseField toNumber field (env name), parseFields toNumber rest env) of
        (Some v, Some cfg) \<Rightarrow> Some ((name, v) # cfg)
      | _ \<Rightarrow> None)"

definition cfgStr :: "config \<Rightarrow> string \<Rightarrow> string option" where
  "cfgStr cfg name = (case map_of cfg name of Some (CStr s) \<Rightarrow> Some s | _ \<Rightarrow> None)"

definition cfgInt :: "config \<Rightarrow> string \<Rightarrow> int option" where
  "cfgInt cfg name = (case map_of cfg name of Some (CNum (Finite r)) \<Rightarrow> Some \<lfloor>r\<rfloor> | _ \<Rightarrow> None)"

definition cfgEndpoints :: "config \<Rightarrow> string list" where
  "cfgEndpoints cfg = (case map_of cfg ''SUBSOLVERS_ENDPOINTS'' of Some (CList us) \<Rightarrow> us | _ \<Rightarrow> [])"

definition cfgWhitelist :: "config \<Rightarrow> string list option" where
  "cfgWhitelist cfg = (case map_of cfg ''SUBSOLVER_WHITELIST'' of Some (CSet ws) \<Rightarrow> ws | _ \<Rightarrow> None)"

text \<open>The rules between fields (\<open>superRefine\<close>).\<close>

definition refinedConfig :: "config \<Rightarrow> bool" where
  "refinedConfig cfg \<longleftrightarrow>
     \<not> (length (cfgEndpoints cfg) > 0 \<and> falsy (cfgStr cfg ''SUBSOLVER_BEARER'')) \<and>
     \<not> (case (cfgInt cfg ''RATE_MIN_PER_WINDOW'', cfgInt cfg ''RATE_MAX_PER_WINDOW'') of
          (Some lo, Some hi) \<Rightarrow> lo > hi | _ \<Rightarrow> False)"

definition parseConfig :: "(string \<Rightarrow> js_num) \<Rightarrow> (int \<Rightarrow> bool) \<Rightarrow> (string \<Rightarrow> bool) \<Rightarrow> (string \<Rightarrow> string option) \<Rightarrow> config option" where
  "parseConfig toNumber isSupportedEvmChain isUrl env =
     (case parseFields toNumber (configSchema isSupportedEvmChain isUrl) env of
        None \<Rightarrow> None
      | Some cfg \<Rightarrow> if refinedConfig cfg then Some cfg else None)"

section \<open>What is built from it\<close>

record rate_limit_settings =
  rl_windowSecs :: int
  rl_ipPerWindow :: int
  rl_tier :: tier_params
  rl_floorWei :: int

definition rateLimitsFromConfig :: "config \<Rightarrow> int \<Rightarrow> rate_limit_settings option" where
  "rateLimitsFromConfig cfg floorWei =
     (case (cfgInt cfg ''RATE_LIMIT_WINDOW_SECS'', cfgInt cfg ''RATE_LIMIT_IP_PER_WINDOW'',
            Option.bind (cfgStr cfg ''RATE_UNIT_WEI'') BigInt, cfgInt cfg ''RATE_PER_UNIT'',
            cfgInt cfg ''RATE_MIN_PER_WINDOW'', cfgInt cfg ''RATE_MAX_PER_WINDOW'') of
        (Some windowSecs, Some ipPerWindow, Some unit, Some perUnit, Some lo, Some hi) \<Rightarrow>
          Some \<lparr>rl_windowSecs = windowSecs, rl_ipPerWindow = ipPerWindow,
            rl_tier = \<lparr>rateUnitWei = unit, ratePerUnit = perUnit, minRate = lo, maxRate = hi\<rparr>, rl_floorWei = floorWei\<rparr>
      | _ \<Rightarrow> None)"

text \<open>\<open>safeConfigForLogging\<close>: the fields replaced whatever they hold, and those replaced where they are set.\<close>

definition redactedAlways :: "string list" where
  "redactedAlways = [''DATABASE_URL'', ''REDIS_URL'']"

definition redactedIfSet :: "string list" where
  "redactedIfSet = [''RPC_URL'', ''SUBSOLVER_BEARER'', ''SOLVE_BEARER_TOKEN'', ''OPERATOR_PRIVATE_KEY'', ''SLACK_TOKEN'']"

definition safeConfigForLogging :: "config \<Rightarrow> config" where
  "safeConfigForLogging cfg =
     map (\<lambda>(name, v).
       (name,
        if name \<in> set redactedAlways then CStr ''<redacted>''
        else if name \<in> set redactedIfSet
        then (case v of CStr s \<Rightarrow> if s = [] then Absent else CStr ''<redacted>'' | _ \<Rightarrow> Absent)
        else v)) cfg"

section \<open>What a parsed configuration guarantees\<close>

lemma parseFields_lookup:
  assumes "parseFields toNumber schema env = Some cfg" "map_of schema name = Some field"
  shows "\<exists>v. map_of cfg name = Some v \<and> parseField toNumber field (env name) = Some v"
  using assms by (induction toNumber schema env arbitrary: cfg rule: parseFields.induct) (auto split: option.splits if_splits)

lemma positiveInt_parsed:
  assumes "parseField toNumber (Default d, positiveInt) input = Some v"
  shows "\<exists>r. v = CNum (Finite r) \<and> 0 < \<lfloor>r\<rfloor>"
  using assms
  by (auto simp: parseField_def parseValue_def integral_def split: option.splits if_splits js_num.splits)

lemma cfgInt_positive:
  assumes "parseFields toNumber schema env = Some cfg" "map_of schema name = Some (Default d, positiveInt)"
  shows "\<exists>n. cfgInt cfg name = Some n \<and> 0 < n"
  using parseFields_lookup [OF assms] positiveInt_parsed by (fastforce simp: cfgInt_def)

lemma unit_parsed:
  assumes "parseFields toNumber schema env = Some cfg"
    "map_of schema name = Some (Default d, ZString (\<lambda>v. decimalString v \<and> (case BigInt v of Some w \<Rightarrow> w > 0 | None \<Rightarrow> False)))"
  shows "\<exists>w. Option.bind (cfgStr cfg name) BigInt = Some w \<and> 0 < w"
  using parseFields_lookup [OF assms]
  by (auto simp: parseField_def parseValue_def cfgStr_def split: option.splits if_splits)

lemma whitelistOf_SomeD:
  assumes "whitelistOf v = Some ws"
  shows "ws \<noteq> [] \<and> distinct ws \<and> (\<forall>a \<in> set ws. a \<noteq> [] \<and> lower a = a)"
proof -
  have ws: "ws = fold js_add (filter (\<lambda>a. a \<noteq> []) (map (lower \<circ> trim) (splitComma (the v)))) []"
    and ne: "filter (\<lambda>a. a \<noteq> []) (map (lower \<circ> trim) (splitComma (the v))) \<noteq> []"
    using assms by (auto simp: whitelistOf_def Let_def split: if_splits)
  have "set ws = set (filter (\<lambda>a. a \<noteq> []) (map (lower \<circ> trim) (splitComma (the v))))" "distinct ws"
    unfolding ws by auto
  then show ?thesis using ne by (auto simp: filter_empty_conv)
qed

lemma cfgWhitelist_parsed:
  assumes "parseFields toNumber schema env = Some cfg" "map_of schema ''SUBSOLVER_WHITELIST'' = Some (Optional, ZWhitelist)"
  shows "cfgWhitelist cfg = whitelistOf (env ''SUBSOLVER_WHITELIST'')"
  using parseFields_lookup [OF assms]
  by (auto simp: parseField_def parseValue_def cfgWhitelist_def split: option.splits)

text \<open>
  C36. Every configuration that parses is one the request path can run on: the rate-limit settings exist, with a
  positive window and budget and tier parameters for which the rate function is total, between its bounds and
  monotone (\<open>tier_ok\<close>); a whitelist, where there is one, is not empty and holds lower-case addresses only, as
  the admission check compares them; and auctions are forwarded only with a bearer token.
\<close>

theorem config_establishes_limits:
  assumes parsed: "parseConfig toNumber isSupportedEvmChain isUrl env = Some cfg"
  shows "(\<exists>rl. rateLimitsFromConfig cfg floorWei = Some rl \<and> tier_ok (rl_tier rl) \<and> 0 < rl_windowSecs rl \<and>
      0 < rl_ipPerWindow rl \<and> rl_floorWei rl = floorWei \<and>
      (\<forall>balance \<ge> 0. \<exists>rate. rateForBalance balance (rl_tier rl) = Some rate \<and> 0 < rate)) \<and>
    (\<forall>ws. cfgWhitelist cfg = Some ws \<longrightarrow> ws \<noteq> [] \<and> (\<forall>a \<in> set ws. a \<noteq> [] \<and> lower a = a)) \<and>
    (cfgEndpoints cfg \<noteq> [] \<longrightarrow> (\<exists>token. cfgStr cfg ''SUBSOLVER_BEARER'' = Some token \<and> token \<noteq> []))"
proof -
  let ?schema = "configSchema isSupportedEvmChain isUrl"
  have fields: "parseFields toNumber ?schema env = Some cfg" and refined: "refinedConfig cfg"
    using parsed by (auto simp: parseConfig_def split: option.splits if_splits)
  obtain win ip per lo hi where ints: "cfgInt cfg ''RATE_LIMIT_WINDOW_SECS'' = Some win" "0 < win"
      "cfgInt cfg ''RATE_LIMIT_IP_PER_WINDOW'' = Some ip" "0 < ip" "cfgInt cfg ''RATE_PER_UNIT'' = Some per" "0 < per"
      "cfgInt cfg ''RATE_MIN_PER_WINDOW'' = Some lo" "0 < lo" "cfgInt cfg ''RATE_MAX_PER_WINDOW'' = Some hi" "0 < hi"
    using cfgInt_positive [OF fields, of "''RATE_LIMIT_WINDOW_SECS''" "''60''"]
      cfgInt_positive [OF fields, of "''RATE_LIMIT_IP_PER_WINDOW''" "''6000''"]
      cfgInt_positive [OF fields, of "''RATE_PER_UNIT''" "''300''"]
      cfgInt_positive [OF fields, of "''RATE_MIN_PER_WINDOW''" "''120''"]
      cfgInt_positive [OF fields, of "''RATE_MAX_PER_WINDOW''" "''3000''"]
    by (auto simp: configSchema_def)
  obtain unit where unit: "Option.bind (cfgStr cfg ''RATE_UNIT_WEI'') BigInt = Some unit" "0 < unit"
    using unit_parsed [OF fields, of "''RATE_UNIT_WEI''" "''100000000000000000''"] by (auto simp: configSchema_def)
  let ?tier = "\<lparr>rateUnitWei = unit, ratePerUnit = per, minRate = lo, maxRate = hi\<rparr>"
  have tier: "tier_ok ?tier" using ints unit(2) refined by (auto simp: tier_ok_def refinedConfig_def)
  have rate: "\<exists>r. rateForBalance balance ?tier = Some r \<and> 0 < r" if "balance \<ge> 0" for balance
    using rateForBalance_eq [OF tier that] ints(8) by auto
  have "cfgWhitelist cfg = whitelistOf (env ''SUBSOLVER_WHITELIST'')"
    by (rule cfgWhitelist_parsed [OF fields]) (simp add: configSchema_def)
  then have wl: "\<forall>ws. cfgWhitelist cfg = Some ws \<longrightarrow> ws \<noteq> [] \<and> (\<forall>a \<in> set ws. a \<noteq> [] \<and> lower a = a)"
    using whitelistOf_SomeD by metis
  have "cfgEndpoints cfg \<noteq> [] \<longrightarrow> (\<exists>token. cfgStr cfg ''SUBSOLVER_BEARER'' = Some token \<and> token \<noteq> [])"
    using refined by (cases "cfgStr cfg ''SUBSOLVER_BEARER''") (auto simp: refinedConfig_def)
  then show ?thesis using wl ints unit tier rate by (simp add: rateLimitsFromConfig_def)
qed

definition exampleVariables :: "string \<Rightarrow> string option" where
  "exampleVariables name = map_of
     [(''DATABASE_URL'', ''postgres''), (''CHAIN_ID'', ''100''), (''TRAMPOLINE_FACTORY'', ''0x'' @ replicate 40 CHR ''1''),
      (''RPC_URL'', ''http''), (''ESCROW_ADDRESS'', ''0x'' @ replicate 40 CHR ''2''), (''OPERATOR_PRIVATE_KEY'', ''0x1''),
      (''RATE_UNIT_WEI'', ''7''), (''SUBSOLVER_WHITELIST'', ''0xAB, 0xab'')] name"

definition exampleToNumber :: "string \<Rightarrow> js_num" where
  "exampleToNumber s = Finite (if s = ''3000'' then 3000 else 100)"

theorem config_establishes_limits_witness:
  "\<exists>cfg rl. parseConfig exampleToNumber (\<lambda>_. True) (\<lambda>_. True) exampleVariables = Some cfg \<and>
     cfgWhitelist cfg = Some [''0xab''] \<and> rateLimitsFromConfig cfg 5 = Some rl \<and> tier_ok (rl_tier rl)"
proof -
  have "map_option cfgWhitelist (parseConfig exampleToNumber (\<lambda>_. True) (\<lambda>_. True) exampleVariables) = Some (Some [''0xab''])"
    by code_simp
  then obtain cfg where cfg: "parseConfig exampleToNumber (\<lambda>_. True) (\<lambda>_. True) exampleVariables = Some cfg"
    "cfgWhitelist cfg = Some [''0xab'']" by auto
  from config_establishes_limits [OF cfg(1), of 5] cfg show ?thesis by blast
qed

text \<open>What is logged shows no secret: neither a connection string nor a token or key that was set.\<close>

lemma logged_config_redacted:
  assumes "(name, v) \<in> set (safeConfigForLogging cfg)" "name \<in> set redactedAlways \<union> set redactedIfSet"
  shows "v = CStr ''<redacted>'' \<or> v = Absent"
  using assms by (auto simp: safeConfigForLogging_def split: if_splits config_value.splits)

lemma logged_config_complete: "map fst (safeConfigForLogging cfg) = map fst cfg"
  by (induction cfg) (auto simp: safeConfigForLogging_def)

end
