(* ===== verification/Escrow_Operator.thy ===== *)
theory Escrow_Operator
  imports Simulation_Gate Penalty_Worker
begin

text \<open>
  The escrow operator (\<open>infra/blockchain/operator.ts\<close>): the chain calls behind the penalty worker's environment.
  A receipt is what the node returns (\<open>None\<close> when the lookup throws); signing, encoding, hashing and the
  node are parameters. \<open>operatorEnv\<close> is the worker's environment with this operator in it.

  The delivered amount is read from the logs of the whole settlement. Where only the trampoline emits
  \<open>Executed\<close> this is the amount the validator reads in the simulation; the last lemma shows that nothing
  else ensures it.
\<close>

record tx_receipt =
  tr_success :: bool
  tr_gasUsed :: int
  tr_effectiveGasPrice :: int
  tr_logs :: "sim_log list"

definition settlementCost :: "(string \<Rightarrow> tx_receipt option) \<Rightarrow> string \<Rightarrow> int option" where
  "settlementCost getReceipt txHash = map_option (\<lambda>r. tr_gasUsed r * tr_effectiveGasPrice r) (getReceipt txHash)"

definition debitOutcome :: "(string \<Rightarrow> tx_receipt option) \<Rightarrow> string \<Rightarrow> receipt option" where
  "debitOutcome getReceipt h = map_option (\<lambda>r. if tr_success r then TxSucceeded else TxReverted) (getReceipt h)"

text \<open>
  viem's side of signing: whether the wallet has an account that signs, the encoded \<open>debit\<close> call, the prepared
  request and the signature (\<open>None\<close> throws), the hash, and the broadcast.
\<close>

record operator_lib =
  ol_canSign :: bool
  ol_encodeDebit :: "string \<Rightarrow> int \<Rightarrow> string \<Rightarrow> string"
  ol_prepare :: "string \<Rightarrow> string \<Rightarrow> string option"
  ol_sign :: "string \<Rightarrow> string option"
  ol_keccak :: "string \<Rightarrow> string"
  ol_broadcast :: "string \<Rightarrow> string option"
  ol_escrowAddress :: string

definition signDebit :: "operator_lib \<Rightarrow> string \<Rightarrow> int \<Rightarrow> string \<Rightarrow> (string \<times> string) option" where
  "signDebit lib subSolver amount reason =
     (if \<not> ol_canSign lib then None
      else (case ol_prepare lib (ol_escrowAddress lib) (ol_encodeDebit lib subSolver amount reason) of
          None \<Rightarrow> None
        | Some transaction \<Rightarrow> map_option (\<lambda>raw. (raw, ol_keccak lib raw)) (ol_sign lib transaction)))"

text \<open>The wrapper for callers without a durable operation; \<open>waitReceipt\<close> is \<open>None\<close> after the time-out.\<close>

definition operatorDebit :: "operator_lib \<Rightarrow> (string \<Rightarrow> tx_receipt option) \<Rightarrow> string \<Rightarrow> int \<Rightarrow> string \<Rightarrow> string option" where
  "operatorDebit lib waitReceipt subSolver amount reason =
     (case signDebit lib subSolver amount reason of
        None \<Rightarrow> None
      | Some (raw, _) \<Rightarrow>
          (case ol_broadcast lib raw of
             None \<Rightarrow> None
           | Some h \<Rightarrow> (case waitReceipt h of None \<Rightarrow> None | Some r \<Rightarrow> if tr_success r then Some h else None)))"

text \<open>
  \<open>readExecutedDelta\<close>: the first log that decodes as an \<open>Executed\<close> event of the order, whichever contract
  emitted it. \<open>decode\<close> answers the event's order hash and delta, \<open>None\<close> where viem throws.
\<close>

fun readExecutedDelta :: "(string list \<Rightarrow> string \<Rightarrow> (string \<times> int) option) \<Rightarrow> sim_log list \<Rightarrow> string \<Rightarrow> int option" where
  "readExecutedDelta decode [] orderUidHash = None"
| "readExecutedDelta decode (log # logs) orderUidHash =
     (case decode (sl_topics log) (sl_data log) of
        None \<Rightarrow> readExecutedDelta decode logs orderUidHash
      | Some (h, delta) \<Rightarrow> if h = orderUidHash then Some delta else readExecutedDelta decode logs orderUidHash)"

definition operatorEnv :: "operator_lib \<Rightarrow> (string list \<Rightarrow> string \<Rightarrow> (string \<times> int) option) \<Rightarrow> (string \<Rightarrow> tx_receipt option) \<Rightarrow>
    (string \<Rightarrow> string \<Rightarrow> bool \<Rightarrow> string \<Rightarrow> tx_receipt option) \<Rightarrow> penalty_env \<Rightarrow> penalty_env" where
  "operatorEnv lib decode getReceipt debitReceipt env = env
     \<lparr>pe_settlementCost := settlementCost getReceipt,
      pe_executedDelta := \<lambda>h u. Option.bind (getReceipt h) (\<lambda>r. readExecutedDelta decode (tr_logs r) u),
      pe_chain := \<lambda>kind i. \<lparr>env_sign = signDebit lib, env_outcome = \<lambda>after. debitOutcome (debitReceipt kind i after),
        env_broadcast = ol_broadcast lib\<rparr>\<rparr>"

text \<open>The bytes to broadcast determine the hash a debit is looked up by.\<close>

lemma signDebit_hash: "signDebit lib subSolver amount reason = Some (raw, h) \<Longrightarrow> h = ol_keccak lib raw"
  by (auto simp: signDebit_def split: if_splits option.splits)

lemma operatorDebit_landed:
  "operatorDebit lib waitReceipt subSolver amount reason = Some h \<Longrightarrow> \<exists>r. waitReceipt h = Some r \<and> tr_success r"
  by (auto simp: operatorDebit_def split: option.splits if_splits)

text \<open>
  The settled delivery is read as the validator reads the simulated one, provided the trampoline emits every
  \<open>Executed\<close> event of this order in the settlement, and none of another order.
\<close>

lemma readExecutedDelta_as_simulated:
  assumes "\<And>log h d. log \<in> set logs \<Longrightarrow> decode (sl_topics log) (sl_data log) = Some (h, d) \<Longrightarrow>
      h = orderUidHash \<longleftrightarrow> lower (sl_address log) = lower trampoline"
  shows "readExecutedDelta decode logs orderUidHash =
    parseExecutedDelta (\<lambda>topics data. map_option snd (decode topics data)) logs trampoline"
  using assms
proof (induction logs)
  case (Cons log logs)
  then have "readExecutedDelta decode logs orderUidHash =
      parseExecutedDelta (\<lambda>topics data. map_option snd (decode topics data)) logs trampoline"
    by (meson list.set_intros(2))
  then show ?case using Cons.prems [of log] by (auto split: option.splits)
qed simp

text \<open>
  Without that proviso the buffer ledger records what any contract of the settlement says: an \<open>Executed\<close> event
  with the order's hash emitted before the trampoline's own decides the entry, though the validator would have
  skipped it, and a delta above the quote makes the entry a credit.
\<close>

lemma foreign_event_recorded:
  assumes receipt: "getReceipt h = Some r" "tr_logs r = foreign # logs"
    and foreign: "lower (sl_address foreign) \<noteq> lower trampoline"
      "decode (sl_topics foreign) (sl_data foreign) = Some (p_orderUidHash p, x)"
    and p: "p_settlementTxHash p = Some h" "h \<noteq> []" "p_buyTokenRefPrice p = Some price" "price \<notin> {[], ''0''}" "BigInt price = Some refPrice"
    and fresh: "attemptsOf s (p_id p) < MAX_DEBIT_ATTEMPTS" "\<not> bufferEntryExistsForProposal (ws_db s) (p_id p)"
  shows "parseExecutedDelta (\<lambda>topics data. map_option snd (decode topics data)) (tr_logs r) trampoline =
      parseExecutedDelta (\<lambda>topics data. map_option snd (decode topics data)) logs trampoline \<and>
    (\<exists>s' subs. recordStep (operatorEnv lib decode getReceipt debitReceipt env) p (s, affected) = (True, s', subs) \<and>
      ws_db s' = snd (insertBufferEntry (pe_now env) (bufferEntryOf p x refPrice) (ws_db s))) \<and>
    (p_quoteBuyAmount p < x \<longrightarrow> bi_nativeTokenAmount (bufferEntryOf p x refPrice) =
      bigint_str (- bufferDebit (x - p_quoteBuyAmount p) refPrice))"
  using assms
  by (auto simp: recordStep_def operatorEnv_def bufferEntryOf_def Let_def forgetFailures_def withDb_def)

end
