(* ===== verification/Operations.thy ===== *)
theory Operations
  imports Audit_Trail
begin

text \<open>
  What the service tells its operators: the links of \<open>infra/formatters.ts\<close>, the Slack messages of
  \<open>infra/notifications.ts\<close> with the set of sub-solvers already announced, their dispatch after an audit event
  was stored (\<open>infra/jobs/audit-worker.ts\<close>), and the bounded clean-up of the job history
  (\<open>redis-history.ts\<close>). The chains' explorers and symbols are viem's, and so is \<open>formatUnits\<close>: parameters.
  Messages are written without their leading pictograph.
\<close>

section \<open>Links\<close>

record chain_info =
  cn_explorerUrl :: "string option"
  cn_symbol :: string

record slack_ctx =
  sc_chainId :: int
  sc_cowExplorerUrl :: string
  sc_getChain :: "int \<Rightarrow> chain_info option"
  sc_formatUnits :: "int \<Rightarrow> string"

definition cowExplorerOrderUrl :: "string \<Rightarrow> string \<Rightarrow> string option" where
  "cowExplorerOrderUrl orderUid cowExplorerUrl =
     (if cowExplorerUrl = [] then None else Some (cowExplorerUrl @ ''/orders/'' @ orderUid))"

definition explorerBase :: "slack_ctx \<Rightarrow> string option" where
  "explorerBase ctx =
     (case Option.bind (sc_getChain ctx (sc_chainId ctx)) cn_explorerUrl of
        None \<Rightarrow> None | Some u \<Rightarrow> if u = [] then None else Some u)"

definition blockExplorerAddressUrl :: "slack_ctx \<Rightarrow> string \<Rightarrow> string option" where
  "blockExplorerAddressUrl ctx address = map_option (\<lambda>u. u @ ''/address/'' @ address) (explorerBase ctx)"

definition blockExplorerTxUrl :: "slack_ctx \<Rightarrow> string \<Rightarrow> string option" where
  "blockExplorerTxUrl ctx txHash = map_option (\<lambda>u. u @ ''/tx/'' @ txHash) (explorerBase ctx)"

definition TENDERLY_NETWORK_SLUGS :: "(int \<times> string) list" where
  "TENDERLY_NETWORK_SLUGS = [(1, ''mainnet''), (56, ''bsc''), (100, ''gnosis''), (11155111, ''sepolia''), (10200, ''chiado'')]"

definition tenderlyTxUrl :: "string \<Rightarrow> int \<Rightarrow> string option" where
  "tenderlyTxUrl txHash chainId =
     map_option (\<lambda>slug. ''https://dashboard.tenderly.co/tx/'' @ slug @ ''/'' @ txHash) (map_of TENDERLY_NETWORK_SLUGS chainId)"

text \<open>\<open>formatNativeAmount\<close>; a decimal string that is no number throws.\<close>

definition formatNativeAmount :: "slack_ctx \<Rightarrow> js_amount \<Rightarrow> string option" where
  "formatNativeAmount ctx amount =
     map_option (\<lambda>n. sc_formatUnits ctx n @ '' '' @
         (case sc_getChain ctx (sc_chainId ctx) of None \<Rightarrow> ''ETH'' | Some c \<Rightarrow> cn_symbol c))
       (case amount of Big i \<Rightarrow> Some i | Text s \<Rightarrow> BigInt s)"

definition slackLink :: "string option \<Rightarrow> string \<Rightarrow> string" where
  "slackLink url label = (if falsy url then label else ''<'' @ the url @ ''|'' @ label @ ''>'')"

definition slackOrderUid :: "slack_ctx \<Rightarrow> string \<Rightarrow> string" where
  "slackOrderUid ctx orderUid = slackLink (cowExplorerOrderUrl orderUid (sc_cowExplorerUrl ctx)) orderUid"

definition slackAddress :: "slack_ctx \<Rightarrow> string \<Rightarrow> string" where
  "slackAddress ctx address = slackLink (blockExplorerAddressUrl ctx address) address"

definition slackTx :: "slack_ctx \<Rightarrow> string \<Rightarrow> string" where
  "slackTx ctx txHash = slackLink (blockExplorerTxUrl ctx txHash) txHash"

section \<open>Messages\<close>

text \<open>
  \<open>buildNotification\<close>: \<open>None\<close> when it throws, otherwise the message, if the event has one, as its lines; the
  state is the Redis set of known sub-solvers.
\<close>

definition txLine :: "slack_ctx \<Rightarrow> string option \<Rightarrow> string" where
  "txLine ctx txHash =
     ''Tx: '' @ (if falsy txHash then (case txHash of None \<Rightarrow> ''unknown'' | Some h \<Rightarrow> h) else slackTx ctx (the txHash))"

definition penaltyLines :: "slack_ctx \<Rightarrow> string \<Rightarrow> string \<Rightarrow> string \<Rightarrow> js_amount \<Rightarrow> string \<Rightarrow> string list option" where
  "penaltyLines ctx title sub uid amount penaltyHash =
     map_option (\<lambda>a. [title, ''Subsolver: '' @ slackAddress ctx sub, ''Order: '' @ slackOrderUid ctx uid,
       ''Amount: '' @ a, ''Penalty tx: '' @ slackTx ctx penaltyHash]) (formatNativeAmount ctx amount)"

fun buildNotification :: "slack_ctx \<Rightarrow> js_audit_kind \<Rightarrow> string list \<Rightarrow> string list option option \<times> string list" where
  "buildNotification ctx (JsReceived p) known =
     (if ap_subSolver p \<in> set known then (Some None, known)
      else (Some (Some [''New subsolver connected: '' @ slackAddress ctx (ap_subSolver p)]), known @ [ap_subSolver p]))"
| "buildNotification ctx (JsPenalized i sub uid amount settlementHash penaltyHash) known =
     (map_option Some (penaltyLines ctx ''Subsolver penalized'' sub uid amount penaltyHash), known)"
| "buildNotification ctx (JsNonSettlementDebited i sub uid amount penaltyHash) known =
     (map_option Some (penaltyLines ctx ''Subsolver non-settlement debited'' sub uid amount penaltyHash), known)"
| "buildNotification ctx (JsBufferDebited sub amount clearHash entryCount) known =
     (map_option (\<lambda>a. Some [''BYOS buffer debited'', ''Subsolver: '' @ slackAddress ctx sub, ''Amount: '' @ a,
        ''Entries cleared: '' @ bigint_str entryCount, ''Tx: '' @ slackTx ctx clearHash]) (formatNativeAmount ctx amount), known)"
| "buildNotification ctx (JsStatusChanged i sub uid from_status to_status reason txHash) known =
     (Some (if to_status = Settled
        then Some [''Auction won - proposal settled'', ''Subsolver: '' @ slackAddress ctx sub,
          ''Order: '' @ slackOrderUid ctx uid, txLine ctx txHash]
        else if to_status = SettleFailed
        then Some [''Settlement reverted'', ''Subsolver: '' @ slackAddress ctx sub, ''Order: '' @ slackOrderUid ctx uid,
          txLine ctx txHash,
          ''Debug: '' @ slackLink (if falsy txHash then None else tenderlyTxUrl (the txHash) (sc_chainId ctx)) ''Tenderly'']
        else None), known)"
| "buildNotification ctx kind known = (Some None, known)"

text \<open>
  The audit job with Slack configured: the row is stored first, then the message is enqueued; \<open>enqueueFails\<close> is a
  queue that rejects it. A failure of either is logged and dropped.
\<close>

definition auditJobWithSlack :: "(string \<Rightarrow> int) \<Rightarrow> slack_ctx \<Rightarrow> bool \<Rightarrow> string \<times> js_audit_kind \<Rightarrow>
    audit_row list \<times> string list \<times> string list list \<Rightarrow> audit_row list \<times> string list \<times> string list list" where
  "auditJobWithSlack parseDate ctx enqueueFails data s =
     (case s of (rows, known, queued) \<Rightarrow>
        let rows1 = auditJob parseDate data rows in
        (case buildNotification ctx (snd data) known of
           (Some (Some text), known1) \<Rightarrow> (rows1, known1, if enqueueFails then queued else queued @ [text])
         | (_, known1) \<Rightarrow> (rows1, known1, queued)))"

text \<open>
  Slack never costs an audit row: whatever the formatter or the queue does, the rows are those of the job without
  it. The queue an event goes through changes no message, and a sub-solver is announced at most once.
\<close>

lemma slack_keeps_rows: "fst (auditJobWithSlack parseDate ctx fails data (rows, known, queued)) = auditJob parseDate data rows"
  by (auto simp: auditJobWithSlack_def Let_def split: prod.split option.split)

lemma queued_amount_format [simp]: "formatNativeAmount ctx (queuedAmount (Big i)) = formatNativeAmount ctx (Big i)"
  by (simp add: formatNativeAmount_def)

lemma notification_through_queue:
  "buildNotification ctx (serializeAuditKind (jsKind k)) known = buildNotification ctx (jsKind k) known"
  by (cases k) (simp_all add: queuedProposal_def penaltyLines_def formatNativeAmount_def auditProposal_def)

lemma announced_once:
  assumes "buildNotification ctx (JsReceived p) known = (m, known')"
  shows "fst (buildNotification ctx (JsReceived p) known') = Some None \<and> (distinct known \<longrightarrow> distinct known')"
  using assms by (cases "ap_subSolver p \<in> set known") auto

section \<open>The job history\<close>

text \<open>
  The removal loop for one queue: \<open>remaining\<close> starts at the number of completed jobs counted before;
  \<open>clean batchSize\<close> removes at most that many of the jobs the queue then holds, each step of the list being what
  the queue answers.
\<close>

function cleanLoop :: "(nat \<Rightarrow> nat) \<Rightarrow> nat \<Rightarrow> nat \<Rightarrow> nat \<Rightarrow> nat" where
  "cleanLoop clean step remaining removed =
     (if remaining = 0 then removed
      else let batchSize = min 100 remaining; batch = min batchSize (clean step) in
        if batch < batchSize then removed + batch
        else cleanLoop clean (step + 1) (remaining - batchSize) (removed + batch))"
  by pat_completeness auto
termination by (relation "measure (\<lambda>(clean, step, remaining, removed). remaining)") auto

declare cleanLoop.simps [simp del]

text \<open>A live producer cannot keep the command running: it removes at most the jobs counted before.\<close>

lemma cleanLoop_bounded: "removed \<le> cleanLoop clean step remaining removed \<and> cleanLoop clean step remaining removed \<le> removed + remaining"
proof (induction clean step remaining removed rule: cleanLoop.induct)
  case (1 clean step remaining removed)
  let ?size = "min 100 remaining"
  let ?batch = "min ?size (clean step)"
  consider "remaining = 0" | "remaining \<noteq> 0" "?batch < ?size" | "remaining \<noteq> 0" "\<not> ?batch < ?size" by blast
  then show ?case
  proof cases
    case 3
    have full: "?batch = ?size" using 3(2) by linarith
    have "cleanLoop clean step remaining removed = cleanLoop clean (step + 1) (remaining - ?size) (removed + ?batch)"
      unfolding cleanLoop.simps [of clean step remaining removed] Let_def if_not_P [OF 3(1)] if_not_P [OF 3(2)] by (rule refl)
    then show ?thesis using 1 [OF 3(1) refl refl 3(2)] unfolding full by simp
  next
    case 1
    then show ?thesis by (simp add: cleanLoop.simps)
  qed (simp add: cleanLoop.simps [of clean step remaining removed] Let_def)
qed

lemma cleanLoop_all:
  "(\<And>k. 100 \<le> clean k) \<Longrightarrow> cleanLoop clean step remaining removed = removed + remaining"
proof (induction clean step remaining removed rule: cleanLoop.induct)
  case (1 clean step remaining removed)
  show ?case
  proof (cases "remaining = 0")
    case False
    have "min (min 100 remaining) (clean step) = min 100 remaining" using 1(2) [of step] by simp
    then show ?thesis using False 1 by (subst cleanLoop.simps) (simp add: Let_def)
  qed (simp add: cleanLoop.simps)
qed

end
