(* ===== verification/Dashboard.thy ===== *)
theory Dashboard
  imports "HOL-Library.Multiset" Audit_Trail Penalty_Worker
begin

text \<open>
  The queries of the admin dashboard (\<open>apps/admin/src/lib/queries.ts\<close>) over the permanent log, the audit trail, the
  buffer ledger and the settlement attempts. Grouped rows come in the order of their first member and rows with
  equal sort keys in table order, where SQL leaves both open. An amount that is no number makes PostgreSQL
  refuse the query: \<open>None\<close>.

  The lemmas relate the figures to what the service recorded: the funnel adds up, the penalties shown are the
  sum of the penalties charged, the pages of the list cover it once.
\<close>

record date_range =
  dr_from :: int
  dr_to :: int

definition inRange :: "date_range \<Rightarrow> int \<Rightarrow> bool" where
  "inRange period t \<longleftrightarrow> t \<ge> dr_from period \<and> t < dr_to period"

text \<open>\<open>GROUP BY\<close> with a count.\<close>

definition groupCounts :: "('r \<Rightarrow> 'k) \<Rightarrow> 'r list \<Rightarrow> ('k \<times> int) list" where
  "groupCounts key rows =
     map (\<lambda>k. (k, int (length (filter (\<lambda>r. key r = k) rows)))) (fold js_add (map key rows) [])"

text \<open>\<open>COALESCE(SUM((payload->>'amount')::numeric), 0)\<close>: a missing amount adds nothing.\<close>

definition payloadAmount :: "json \<Rightarrow> int option option" where
  "payloadAmount payload =
     (case payload of
        JObj members \<Rightarrow>
          (case map_of members ''amount'' of
             Some (JStr s) \<Rightarrow> map_option Some (BigInt s)
           | Some (JNum n) \<Rightarrow> Some (Some n)
           | Some (JArr _) \<Rightarrow> None
           | Some (JObj _) \<Rightarrow> None
           | _ \<Rightarrow> Some None)
      | _ \<Rightarrow> Some None)"

definition sumAmounts :: "json list \<Rightarrow> int option" where
  "sumAmounts payloads =
     map_option (\<lambda>vs. sum_list (map (\<lambda>v. case v of None \<Rightarrow> 0 | Some n \<Rightarrow> n) vs)) (those (map payloadAmount payloads))"

section \<open>Overview\<close>

record overview_stats =
  os_received :: int
  os_discarded :: int
  os_simFailed :: int
  os_sentToAuction :: int
  os_won :: int
  os_lost :: int
  os_settled :: int
  os_settleFailed :: int
  os_rejectionBreakdown :: "(rejection_reason \<times> int) list"
  os_penalizedCount :: int
  os_penalizedAmountWei :: string
  os_nonSettlementDebitedCount :: int
  os_bufferDebitedCount :: int

definition matchesAddress :: "string option \<Rightarrow> string \<Rightarrow> bool" where
  "matchesAddress subSolver column \<longleftrightarrow>
     (case map_option (lower \<circ> trim) subSolver of None \<Rightarrow> True | Some a \<Rightarrow> a = [] \<or> lower column = a)"

definition overviewRows :: "date_range \<Rightarrow> string option \<Rightarrow> db \<Rightarrow> proposal_row list" where
  "overviewRows period subSolver d =
     filter (\<lambda>r. inRange period (r_createdAt r) \<and> matchesAddress subSolver (r_subSolver r)) (proposalsLog d)"

definition overviewEvents :: "date_range \<Rightarrow> string option \<Rightarrow> audit_row list \<Rightarrow> audit_row list" where
  "overviewEvents period subSolver events =
     filter (\<lambda>e. inRange period (w_occurredAt e) \<and> matchesAddress subSolver (w_subSolver e)) events"

definition eventsOf :: "string \<Rightarrow> audit_row list \<Rightarrow> audit_row list" where
  "eventsOf type events = filter (\<lambda>e. w_eventType e = type) events"

definition countOf :: "('k \<times> int) list \<Rightarrow> 'k \<Rightarrow> int" where
  "countOf counts k = (case map_of counts k of None \<Rightarrow> 0 | Some n \<Rightarrow> n)"

definition getOverviewStats :: "date_range \<Rightarrow> string option \<Rightarrow> db \<Rightarrow> audit_row list \<Rightarrow> overview_stats option" where
  "getOverviewStats period subSolver d events =
     (let rows = overviewRows period subSolver d;
          statusRows = groupCounts r_status rows;
          rejectionRows = groupCounts (the \<circ> r_rejectionReason) (filter (\<lambda>r. r_rejectionReason r \<noteq> None) rows);
          evs = overviewEvents period subSolver events;
          simFailedCount = countOf statusRows SimFailed;
          rejectedCount = countOf statusRows Rejected;
          settledCount = countOf statusRows Settled;
          settleFailedCount = countOf statusRows SettleFailed;
          received = sum_list (map snd statusRows);
          discarded = simFailedCount + rejectedCount;
          sentToAuction = received - discarded;
          won = settledCount + settleFailedCount;
          lost = sentToAuction - won
      in map_option (\<lambda>amount.
          \<lparr>os_received = received, os_discarded = discarded, os_simFailed = simFailedCount, os_sentToAuction = sentToAuction,
           os_won = won, os_lost = lost, os_settled = settledCount, os_settleFailed = settleFailedCount,
           os_rejectionBreakdown = rejectionRows,
           os_penalizedCount = int (length (eventsOf ''penalized'' evs)), os_penalizedAmountWei = bigint_str amount,
           os_nonSettlementDebitedCount = int (length (eventsOf ''non_settlement_debited'' evs)),
           os_bufferDebitedCount = int (length (eventsOf ''buffer_debited'' evs))\<rparr>)
        (sumAmounts (map w_payload (eventsOf ''penalized'' evs))))"

section \<open>Per sub-solver\<close>

record subsolver_stats =
  ss_subSolver :: string
  ss_proposalsReceived :: int
  ss_settled :: int
  ss_settleFailed :: int
  ss_rejected :: int
  ss_penalized :: int
  ss_penaltyCount :: int
  ss_penalizedAmountWei :: string
  ss_bufferBalanceWei :: string

text \<open>The left join of a debited proposal with its penalty events: one row without payload when there is none.\<close>

definition penaltyJoin :: "audit_row list \<Rightarrow> proposal_row \<Rightarrow> json list" where
  "penaltyJoin events r =
     (case map w_payload (filter (\<lambda>e. w_proposalId e = r_id r \<and> w_eventType e = ''penalized'') events) of
        [] \<Rightarrow> [JNull] | payloads \<Rightarrow> payloads)"

definition penaltyRowsOf :: "db \<Rightarrow> audit_row list \<Rightarrow> string \<Rightarrow> json list" where
  "penaltyRowsOf d events subSolver =
     concat (map (penaltyJoin events) (filter (\<lambda>r. r_penaltyTxHash r \<noteq> None \<and> r_subSolver r = subSolver) (proposalsLog d)))"

definition activityOf :: "date_range \<Rightarrow> string list \<Rightarrow> string \<Rightarrow> audit_row list \<Rightarrow> int" where
  "activityOf period types subSolver events =
     int (length (filter (\<lambda>e. w_subSolver e = subSolver \<and> w_eventType e \<in> set types \<and> inRange period (w_occurredAt e)) events))"

definition statsOf :: "date_range \<Rightarrow> db \<Rightarrow> audit_row list \<Rightarrow> string \<Rightarrow> subsolver_stats option" where
  "statsOf period d events subSolver =
     (case (sumAmounts (penaltyRowsOf d events subSolver),
            sumBigInts (map b_nativeTokenAmount (filter (\<lambda>b. \<not> b_cleared b \<and> b_subSolver b = subSolver) (bufferEntries d)))) of
        (Some penalized, Some buffer) \<Rightarrow> Some
          \<lparr>ss_subSolver = subSolver,
           ss_proposalsReceived = activityOf period [''received''] subSolver events,
           ss_settled = activityOf period [''settled''] subSolver events,
           ss_settleFailed = activityOf period [''settle_failed''] subSolver events,
           ss_rejected = activityOf period [''rejected''] subSolver events,
           ss_penalized = activityOf period [''penalized'', ''non_settlement_debited''] subSolver events,
           ss_penaltyCount = int (length (penaltyRowsOf d events subSolver)),
           ss_penalizedAmountWei = bigint_str penalized, ss_bufferBalanceWei = bigint_str buffer\<rparr>
      | _ \<Rightarrow> None)"

definition getSubsolverStats :: "date_range \<Rightarrow> db \<Rightarrow> audit_row list \<Rightarrow> subsolver_stats list option" where
  "getSubsolverStats period d events =
     (case (sumAmounts (concat (map (penaltyJoin events) (filter (\<lambda>r. r_penaltyTxHash r \<noteq> None) (proposalsLog d)))),
            sumBigInts (map b_nativeTokenAmount (filter (\<lambda>b. \<not> b_cleared b) (bufferEntries d)))) of
        (Some _, Some _) \<Rightarrow>
          map_option (sort_key (\<lambda>r. - ss_proposalsReceived r))
            (those (map (statsOf period d events) (fold js_add (map w_subSolver events) [])))
      | _ \<Rightarrow> None)"

section \<open>Lists and details\<close>

definition listWhere :: "string option \<Rightarrow> string option \<Rightarrow> proposal_row \<Rightarrow> bool" where
  "listWhere subSolver st r \<longleftrightarrow>
     (falsy subSolver \<or> r_subSolver r = lower (the subSolver)) \<and> (falsy st \<or> status_name (r_status r) = the st)"

definition listProposals :: "db \<Rightarrow> string option \<Rightarrow> string option \<Rightarrow> nat \<Rightarrow> nat \<Rightarrow> proposal_row list \<times> nat" where
  "listProposals d subSolver st page limit =
     (let rows = filter (listWhere subSolver st) (proposalsLog d) in
      (take limit (drop ((page - 1) * limit) (sort_key (\<lambda>r. - r_createdAt r) rows)), length rows))"

definition getProposalDetail :: "db \<Rightarrow> audit_row list \<Rightarrow> int \<Rightarrow> (proposal_row \<times> audit_row list) option" where
  "getProposalDetail d events i =
     (case filter (\<lambda>r. r_id r = i) (proposalsLog d) of
        [] \<Rightarrow> None
      | p # _ \<Rightarrow> Some (p, sort_key w_occurredAt (filter (\<lambda>e. w_proposalId e = i) events)))"

definition getPendingPenaltiesCount :: "db \<Rightarrow> nat" where
  "getPendingPenaltiesCount d =
     length (filter (\<lambda>r. r_status r = SettleFailed \<and> r_penaltyTxHash r = None) (proposalsLog d)) +
     length (filter (\<lambda>a. a_status a = Eligible) (settlementAttempts d))"

section \<open>The figures\<close>

lemma map_of_map_pair: "map_of (map (\<lambda>j. (j, f j)) ks) k = (if k \<in> set ks then Some (f k) else None)"
  by (induction ks) auto

lemma sum_group_counts: "sum_list (map snd (groupCounts key rows)) = int (length rows)"
proof -
  let ?ks = "fold js_add (map key rows) []"
  have "sum_list (map (\<lambda>k. int (length (filter (\<lambda>r. key r = k) rows))) ks) = int (length (filter (\<lambda>r. key r \<in> set ks) rows))"
    if "distinct ks" for ks
    using that
  proof (induction ks)
    case (Cons k ks)
    have "length (filter (\<lambda>r. key r = k \<or> key r \<in> set ks) rows) =
        length (filter (\<lambda>r. key r = k) rows) + length (filter (\<lambda>r. key r \<in> set ks) rows)"
      using Cons.prems by (induction rows) auto
    then show ?case using Cons by simp
  qed simp
  from this [of ?ks] show ?thesis by (simp add: groupCounts_def comp_def)
qed

lemma countOf_groupCounts [simp]: "countOf (groupCounts key rows) k = int (length (filter (\<lambda>r. key r = k) rows))"
  by (auto simp: countOf_def groupCounts_def map_of_map_pair filter_empty_conv)

definition inStatus :: "status set \<Rightarrow> proposal_row list \<Rightarrow> int" where
  "inStatus sts rows = int (length (filter (\<lambda>r. r_status r \<in> sts) rows))"

text \<open>
  The funnel adds up, and what it calls lost is everything sent that did not win: also the proposals still
  running and those their owner cancelled.
\<close>

lemma overview_funnel:
  assumes "getOverviewStats period subSolver d events = Some o1"
  shows "os_received o1 = int (length (overviewRows period subSolver d))"
    "os_received o1 = os_discarded o1 + os_sentToAuction o1" "os_sentToAuction o1 = os_won o1 + os_lost o1"
    "os_lost o1 = inStatus {Lost, Submitted, Cancelled, CandidateStatus} (overviewRows period subSolver d)"
proof -
  have all: "int (length rows) = inStatus {Lost, Submitted, Cancelled, CandidateStatus} rows + inStatus {SimFailed} rows + inStatus {Rejected} rows +
      inStatus {Settled} rows + inStatus {SettleFailed} rows" for rows
  proof (induction rows)
    case (Cons r rows)
    then show ?case by (cases "r_status r") (auto simp: inStatus_def)
  qed (simp add: inStatus_def)
  show "os_received o1 = int (length (overviewRows period subSolver d))"
    "os_received o1 = os_discarded o1 + os_sentToAuction o1" "os_sentToAuction o1 = os_won o1 + os_lost o1"
    using assms by (auto simp: getOverviewStats_def Let_def sum_group_counts)
  show "os_lost o1 = inStatus {Lost, Submitted, Cancelled, CandidateStatus} (overviewRows period subSolver d)"
    using assms all [of "overviewRows period subSolver d"]
    by (auto simp: getOverviewStats_def Let_def sum_group_counts inStatus_def)
qed

text \<open>The rows the service's events are stored as, and the amounts of the revert penalties among them.\<close>

definition trailOf :: "audit_event list \<Rightarrow> audit_row list" where
  "trailOf es = fold (\<lambda>(t, k). insertAuditEvent (t, jsKind k)) es []"

fun penalizedAmount :: "date_range \<Rightarrow> string option \<Rightarrow> audit_event \<Rightarrow> int" where
  "penalizedAmount period subSolver (t, Penalized i sub uid amount settlementHash penaltyHash) =
     (if inRange period t \<and> matchesAddress subSolver sub then amount else 0)"
| "penalizedAmount period subSolver e = 0"

lemma trailOf_snoc: "trailOf (es @ [(t, k)]) = trailOf es @
    [\<lparr>w_proposalId = fst (auditColumns (jsKind k)), w_eventType = eventType (jsKind k), w_subSolver = fst (snd (auditColumns (jsKind k))),
      w_orderUid = fst (snd (snd (auditColumns (jsKind k)))), w_settlementTxHash = snd (snd (snd (auditColumns (jsKind k)))),
      w_payload = auditPayload (jsKind k), w_occurredAt = t\<rparr>]"
  by (simp add: trailOf_def insertAuditEvent_def split: prod.split)

lemma those_snoc: "those (xs @ [x]) = (case (those xs, x) of (Some ys, Some y) \<Rightarrow> Some (ys @ [y]) | _ \<Rightarrow> None)"
  by (induction xs) (auto split: option.splits)

lemma sumAmounts_snoc:
  "sumAmounts (ps @ [p]) = (case (sumAmounts ps, payloadAmount p) of
     (Some n, Some v) \<Rightarrow> Some (n + (case v of None \<Rightarrow> 0 | Some m \<Rightarrow> m)) | _ \<Rightarrow> None)"
  by (auto simp: sumAmounts_def those_snoc split: option.splits)

lemma changedType_not_penalized [simp]: "changedType st \<noteq> ''penalized''"
  by (cases st) (simp_all add: changedType_def)

lemma penalized_sum:
  "sumAmounts (map w_payload (eventsOf ''penalized'' (overviewEvents period subSolver (trailOf es)))) =
     Some (sum_list (map (penalizedAmount period subSolver) es))"
proof (induction es rule: rev_induct)
  case (snoc e es)
  obtain t k where e: "e = (t, k)" by (cases e)
  have low: "matchesAddress subSolver (lower sub) = matchesAddress subSolver sub" for sub
    by (simp add: matchesAddress_def split: option.split)
  show ?case
  proof (cases "\<exists>i sub uid amount settlementHash penaltyHash. k = Penalized i sub uid amount settlementHash penaltyHash")
    case True
    then show ?thesis using snoc
      by (auto simp: e trailOf_snoc overviewEvents_def eventsOf_def sumAmounts_snoc payloadAmount_def low)
  next
    case False
    then have "eventType (jsKind k) \<noteq> ''penalized''" "penalizedAmount period subSolver (t, k) = 0" by (cases k; simp)+
    then show ?thesis using snoc by (simp add: e trailOf_snoc overviewEvents_def eventsOf_def)
  qed
qed (simp add: trailOf_def overviewEvents_def eventsOf_def sumAmounts_def)

text \<open>Over a trail the service wrote the query succeeds and shows the sum of the penalties charged.\<close>

lemma overview_penalties:
  "\<exists>o1. getOverviewStats period subSolver d (trailOf es) = Some o1 \<and>
     os_penalizedAmountWei o1 = bigint_str (sum_list (map (penalizedAmount period subSolver) es))"
  by (simp add: getOverviewStats_def Let_def penalized_sum)

text \<open>The pages of a list cover it once and in order, newest first.\<close>

lemma pages_cover:
  "concat (map (\<lambda>page. fst (listProposals d subSolver st page limit)) [1..<Suc n]) =
     take (n * limit) (sort_key (\<lambda>r. - r_createdAt r) (filter (listWhere subSolver st) (proposalsLog d)))"
proof (induction n)
  case (Suc n)
  let ?rows = "sort_key (\<lambda>r. - r_createdAt r) (filter (listWhere subSolver st) (proposalsLog d))"
  have "fst (listProposals d subSolver st (Suc n) limit) = take limit (drop (n * limit) ?rows)"
    by (simp add: listProposals_def Let_def)
  then have "concat (map (\<lambda>page. fst (listProposals d subSolver st page limit)) [1..<Suc (Suc n)]) =
      take (n * limit) ?rows @ take limit (drop (n * limit) ?rows)"
    using Suc by simp
  then show ?case by (simp add: take_add [symmetric] add.commute)
qed simp

lemma pages_cover_all:
  assumes "snd (listProposals d subSolver st 1 limit) \<le> n * limit"
  shows "mset (concat (map (\<lambda>page. fst (listProposals d subSolver st page limit)) [1..<Suc n])) =
    mset (filter (listWhere subSolver st) (proposalsLog d))"
  using assms unfolding pages_cover by (simp add: listProposals_def Let_def)

end
