(* ===== verification/Spec2Isabelle.thy ===== *)
theory Spec2Isabelle
  imports Decimal_Strings Scoring Domain_Types Collateral Orders Rate_Limit Balance_Store Middleware
    Candidate_Store Database Storage
    Debits Attempts Penalty_Worker
    Auction_State Settlement_Encoding Validator Simulation_Gate Solve
    Signing Responses Ingestion Service Outcomes
    Audit_Trail Subsolver_Core Subsolver_Discovery
    Baseline_Subsolver Private_Mm Polling_Subsolvers
    Service_Config Escrow_Operator Operations Dashboard
begin

text \<open>
  A verification development of the BYOS service ("bring your own solver"), the TypeScript monorepo under
  \<open>src/\<close>: a solver of the CoW protocol that lets outside sub-solvers propose settlements, checks and scores
  their proposals, bids the best in the auction, watches what became of them and charges the escrow of those that
  cost it money. The clients that talk to it and the dashboard over its tables are modelled too.

  \<^bold>\<open>The parts and how they meet.\<close> A sub-solver posts a signed proposal (\<open>apps/byos/src/infra/api/routes.ts\<close>). It passes
  the request gate (\<open>middleware.ts\<close>: IP and signer budgets, the escrow floor), gets an id from the database sequence,
  and is validated: static checks against the auction (\<open>domain/order.ts\<close>), the escrow, a simulated settlement, the
  exposure of all running proposals (\<open>infra/blockchain/validator.ts\<close>). Accepted, it is a candidate in the memory of
  one replica; refused, it is a row of the permanent log. The driver's \<open>POST /solve\<close> publishes the auction, waits, then
  selects per order and writes the winners as submitted and the rest as rejected. \<open>POST /notify\<close> and the outcome worker
  tell a submitted proposal's fate; the penalty worker charges reverts, abandonments and buffer shortfalls through
  durable debit operations. Each event is audited through a job queue.

  \<^bold>\<open>Theories.\<close>

    \<^item> Byos_Prelude, Decimal_Strings: JavaScript values. bigints are \<open>int\<close> with truncating division, strings are
      lists of characters, a \<open>Map\<close> is an association list in insertion order, tables are row lists; \<open>reachable\<close> and
      the locale \<open>invariant_machine\<close> for state machines, \<open>kv_store\<close> for maps.
    \<^item> Domain_Types, Scoring, Collateral, Orders: \<open>domain/*.ts\<close> and the vocabulary of \<open>packages/common\<close>.
    \<^item> Rate_Limit, Balance_Store, Middleware, Service_Config: the request gate. The locales \<open>rate_limiter\<close> and
      \<open>balance_cache\<close> are its interfaces, \<open>signer_gate\<close> extends both, and each is interpreted on the Redis
      implementation and on the stub; Service_Config shows that a parsed configuration meets what the tier function needs.
    \<^item> Candidate_Store, Database, Storage: the in-memory candidates, the schema with its mirror trigger, and the writes
      and reads of proposals (\<open>infra/storage.ts\<close>) as steps of \<open>store_step\<close>.
    \<^item> Debits, Attempts, Penalty_Worker, Escrow_Operator: debit operations with their leases (\<open>debit_step\<close> interleaves any
      number of workers, crashes included), the evidence ledger (\<open>ledger_step\<close>), the worker's three passes, and the
      operator's chain calls (\<open>penalty.ts\<close>, \<open>settlement-attempts.ts\<close>, \<open>operator.ts\<close>).
    \<^item> Auction_State, Settlement_Encoding, Validator, Simulation_Gate: the open auction, the calldata of the settlement,
      the batched escrow reads and the validation itself.
    \<^item> Solve: the two synchronous halves of \<open>POST /solve\<close> and the selection. Signing, Responses, Ingestion: typed
      data, bodies and routes. Outcomes: \<open>notify.ts\<close> and \<open>outcome-worker.ts\<close>. Service: replicas over one database.
    \<^item> Audit_Trail, Operations, Dashboard: the audit queue and rows, operator messages and tools, the dashboard's queries.
    \<^item> Subsolver_Core, Subsolver_Discovery: \<open>packages/subsolver-core\<close>. Baseline_Subsolver, Private_Mm, Polling_Subsolvers:
      the client applications.

  A record keeps the fields of the interface it models under a short prefix, a handler is one function of the state
  with every early return a branch, and what a promise rejects with is the left of a sum or \<open>None\<close>. What the world
  answers (clock, chain, other requests) is an argument or a record such as \<open>validation_env\<close> or \<open>penalty_env\<close>.

  \<^bold>\<open>What the lemmas show.\<close>

    \<^item> Safety across parts: the life of an id refines four phases under any interleaving of requests (Service);
      a created proposal was authenticated, admitted and validated (Ingestion); what is accepted was simulated as the
      settlement that would be bid (Simulation_Gate); what is bid respects the order (Solve).
    \<^item> Money: statuses move only along the lifecycle and hashes are written once (Storage); one event is charged by at
      most one transaction (Debits); an abandonment charge needs its evidence (Attempts); the buffer ledger only grows
      and a slash charges its exact balance (Penalty_Worker).
    \<^item> Closing an auction and a tick of a worker decide exactly the proposals they should (Solve, Outcomes); repeated
      or reordered notifications change nothing (Attempts, Outcomes).
    \<^item> The client side agrees with the server side: a proposal the shared client builds is parsed, authenticated and
      passes the envelope check (Subsolver_Core); clients keep their request budgets and promised balances.
    \<^item> Behaviour that looks unintended is stated as a lemma beside the code it is about (for example
      \<open>overlapping_batches_charge_twice\<close>, \<open>late_correction_skips_buffer\<close>, \<open>foreign_event_recorded\<close>).

  \<^bold>\<open>Bounds and fuel.\<close> Loops over lists are structural. The search for the latest auction takes its request budget as
  fuel, as the code does: 2n+2 requests find a run of fewer than \<open>2^n\<close> auctions, so the default of 32 covers 32767.
  The batched reads, the refresh batches, a debit run and the clean-up loop have termination proofs; a quoting batch
  is a step relation with a fixed number of steps under every schedule.

  \<^bold>\<open>Atomicity.\<close> In Service a request is one step, though the code awaits between its database calls, so the race of a
  cancellation with a closing auction is outside that machine. The debit workers, the quoting workers and the two loops
  of the market maker are interleaved at each await.

  \<^bold>\<open>Not modelled.\<close> Hashing, signature recovery, ABI coding, HTTP, the chain and zod's issue texts: parameters, with
  what is assumed of them named in the theorems. Floating-point ratios are rationals, where the code only compares
  or rounds them. Log lines, human-readable descriptions and pictographs. Process wiring (\<open>index.ts\<close>, \<open>context.ts\<close>, queue
  and timer set-up), the chain registry over the cow-sdk's tables, the order-book API client that only its tests
  use, the clients' environment schemas, the pages of the admin application and the scripts: they hold no state of
  the service and only call what is modelled, or are not part of it.
\<close>

end
